(* ===== verification/Cxx_Prelude.thy ===== *)
theory Cxx_Prelude
  imports Main "HOL-Library.Word"
begin

text \<open>
  The part of C++ and its standard library that the server uses, shared by every component:
  \<^item> \<open>std::string\<close> as a list of 8-bit characters, with the searches, \<open>substr\<close>, \<open>c_str\<close>,
    \<open>toupper\<close> and \<open>std::to_string\<close> the sources call;
  \<^item> \<open>strtol\<close>/\<open>strtoll\<close> with the white space, sign, digits, saturation and end pointer of the
    C standard, and the narrowing cast from 64 to 32 bits;
  \<^item> exceptions as the left injection of a sum, signed overflow among them;
  \<^item> a state monad whose left value is a thread that never continues (a mutex locked twice by
    its owner, a condition variable nobody signals).
\<close>

unbundle bit_operations_syntax

named_theorems monad_simps \<open>unfolding rules of the blocking state monad\<close>
named_theorems wp_simps \<open>weakest preconditions of the program constructs\<close>

section \<open>Exceptions\<close>

text \<open>
  A C++ function that may throw returns a sum: \<open>Inl\<close> carries what is thrown.
  \<open>SignedOverflow\<close> is not thrown by the program: it marks a run whose signed arithmetic leaves
  the range of \<open>int\<close>, which C++ leaves undefined.
\<close>

datatype cxx_error = RuntimeError string | SignedOverflow

type_synonym 'a cxx = "cxx_error + 'a"

definition cxx_bind :: "'a cxx \<Rightarrow> ('a \<Rightarrow> 'b cxx) \<Rightarrow> 'b cxx" where
  "cxx_bind m f = (case m of Inl e \<Rightarrow> Inl e | Inr x \<Rightarrow> f x)"

lemma cxx_bind_simps [simp]:
  "cxx_bind (Inl e) f = Inl e"
  "cxx_bind (Inr x) f = f x"
  by (simp_all add: cxx_bind_def)

lemma cxx_bind_Inr_iff:
  "cxx_bind m f = Inr y \<longleftrightarrow> (\<exists>x. m = Inr x \<and> f x = Inr y)"
  by (cases m) simp_all

lemma cxx_bind_InrE [elim!]:
  assumes "cxx_bind m f = Inr y"
  obtains x where "m = Inr x" and "f x = Inr y"
  using assms by (auto simp: cxx_bind_Inr_iff)

text \<open>
  A counting \<open>for\<close> loop whose body may throw, over the list of the values its counter takes.
\<close>

fun for_each :: "('i \<Rightarrow> 's \<Rightarrow> 's cxx) \<Rightarrow> 'i list \<Rightarrow> 's \<Rightarrow> 's cxx" where
  "for_each f [] s = Inr s"
| "for_each f (i # is) s = cxx_bind (f i s) (for_each f is)"

lemma for_each_append [simp]:
  "for_each f (xs @ ys) s = cxx_bind (for_each f xs s) (for_each f ys)"
proof (induction xs arbitrary: s)
  case Nil
  then show ?case by simp
next
  case (Cons x xs)
  then show ?case by (cases "f x s") simp_all
qed

text \<open>A loop that only appends to its output appends the pieces in order.\<close>

lemma for_each_appends:
  assumes "\<And>i out. i \<in> set is \<Longrightarrow> f i out = Inr (out @ g i)"
  shows "for_each f is out = Inr (out @ concat (map g is))"
  using assms by (induction "is" arbitrary: out) simp_all

lemma for_each_invariant:
  assumes "for_each f is s = Inr s'" and "P s"
    and "\<And>i s s'. i \<in> set is \<Longrightarrow> P s \<Longrightarrow> f i s = Inr s' \<Longrightarrow> P s'"
  shows "P s'"
  using assms
proof (induction "is" arbitrary: s)
  case Nil
  then show ?case by simp
next
  case (Cons i "is")
  from Cons.prems(1) obtain t where t: "f i s = Inr t" and rest: "for_each f is t = Inr s'"
    by auto
  from Cons.prems(2) t have "P t" by (rule Cons.prems(3) [rotated]) simp
  with rest show ?case by (rule Cons.IH) (use Cons.prems(3) in auto)
qed

section \<open>Computations that may block\<close>

datatype block =
    SelfDeadlock \<comment> \<open>a non-recursive mutex locked again by the thread that holds it\<close>
  | WaitPool \<comment> \<open>a condition variable whose predicate is false\<close>
  | OutOfFuel \<comment> \<open>a loop that has not ended within the given number of rounds\<close>
  | Undefined \<comment> \<open>signed arithmetic has left the range of \<open>int\<close>: nothing is known of the run\<close>

type_synonym ('s, 'a) proc = "'s \<Rightarrow> block + 'a \<times> 's"

definition ret_m :: "'a \<Rightarrow> ('s, 'a) proc" where
  "ret_m a s = Inr (a, s)"

definition bind_m :: "('s, 'a) proc \<Rightarrow> ('a \<Rightarrow> ('s, 'b) proc) \<Rightarrow> ('s, 'b) proc" where
  "bind_m m f s = (case m s of Inl b \<Rightarrow> Inl b | Inr (a, s') \<Rightarrow> f a s')"

definition get_m :: "('s \<Rightarrow> 'a) \<Rightarrow> ('s, 'a) proc" where
  "get_m f s = Inr (f s, s)"

definition upd_m :: "('s \<Rightarrow> 's) \<Rightarrow> ('s, unit) proc" where
  "upd_m f s = Inr ((), f s)"

lemma ret_m_eq [monad_simps, simp]: "ret_m a s = Inr (a, s)"
  by (simp add: ret_m_def)

lemma get_m_eq [monad_simps, simp]: "get_m f s = Inr (f s, s)"
  by (simp add: get_m_def)

lemma upd_m_eq [monad_simps, simp]: "upd_m f s = Inr ((), f s)"
  by (simp add: upd_m_def)

lemma bind_m_Inr [monad_simps]: "m s = Inr (a, s') \<Longrightarrow> bind_m m f s = f a s'"
  by (simp add: bind_m_def)

lemma bind_m_Inl [monad_simps]: "m s = Inl b \<Longrightarrow> bind_m m f s = Inl b"
  by (simp add: bind_m_def)

lemma bind_m_Inr_iff:
  "bind_m m f s = Inr r \<longleftrightarrow> (\<exists>a s'. m s = Inr (a, s') \<and> f a s' = Inr r)"
  by (auto simp: bind_m_def split: sum.splits)

lemma bind_m_InrE:
  assumes "bind_m m f s = Inr r"
  obtains a s' where "m s = Inr (a, s')" and "f a s' = Inr r"
  using assms by (auto simp: bind_m_Inr_iff)

lemma bind_laws:
  "bind_m (ret_m a) f = f a" "bind_m m ret_m = m" "bind_m m (\<lambda>x. ret_m x) = m" "bind_m (bind_m m g) h = bind_m m (\<lambda>x. bind_m (g x) h)"
  by (auto simp: bind_m_def fun_eq_iff split: sum.split)

text \<open>
  Weakest preconditions: \<open>wp\<close> of a computation that must return, \<open>wlp\<close> of one that may also block.
  The rules of \<open>wp_simps\<close> push them through a program.
\<close>

definition wp :: "('s, 'a) proc \<Rightarrow> ('a \<Rightarrow> 's \<Rightarrow> bool) \<Rightarrow> 's \<Rightarrow> bool" where
  "wp m Q s = (case m s of Inl _ \<Rightarrow> False | Inr (a, s') \<Rightarrow> Q a s')"

definition wlp :: "('s, 'a) proc \<Rightarrow> ('a \<Rightarrow> 's \<Rightarrow> bool) \<Rightarrow> 's \<Rightarrow> bool" where
  "wlp m Q s = (case m s of Inl _ \<Rightarrow> True | Inr (a, s') \<Rightarrow> Q a s')"

lemma wp_basic [wp_simps]:
  "wp (ret_m a) Q = Q a"
  "wp (bind_m m h) R = wp m (\<lambda>a. wp (h a) R)"
  by (auto simp: wp_def bind_m_def fun_eq_iff split: sum.splits)

lemma wp_get_m [wp_simps]: "wp (get_m f) Q s = Q (f s) s"
  by (simp add: wp_def)

lemma wp_upd_m [wp_simps]: "wp (upd_m g) Q s = Q () (g s)"
  by (simp add: wp_def)

lemma wlp_basic [wp_simps]:
  "wlp (ret_m a) Q = Q a"
  "wlp (bind_m m h) R = wlp m (\<lambda>a. wlp (h a) R)"
  by (auto simp: wlp_def bind_m_def fun_eq_iff split: sum.splits)

lemma wlp_get_m [wp_simps]: "wlp (get_m f) Q s = Q (f s) s"
  by (simp add: wlp_def)

lemma wlp_upd_m [wp_simps]: "wlp (upd_m g) Q s = Q () (g s)"
  by (simp add: wlp_def)

lemma wp_eta [wp_simps]: "wp (\<lambda>s. Inr (f s, g s)) Q s = Q (f s) (g s)"
  by (simp add: wp_def)

lemma wlp_eta [wp_simps]: "wlp (\<lambda>s. Inr (f s, g s)) Q s = Q (f s) (g s)"
  by (simp add: wlp_def)

lemma wp_mono: "wp m P s \<Longrightarrow> (\<And>a s'. m s = Inr (a, s') \<Longrightarrow> P a s' \<Longrightarrow> Q a s') \<Longrightarrow> wp m Q s"
  by (auto simp: wp_def split: sum.splits)

lemma wlp_mono: "wlp m P s \<Longrightarrow> (\<And>a s'. m s = Inr (a, s') \<Longrightarrow> P a s' \<Longrightarrow> Q a s') \<Longrightarrow> wlp m Q s"
  by (auto simp: wlp_def split: sum.splits)

lemma wlp_iff: "wlp m Q s \<longleftrightarrow> (\<forall>a s'. m s = Inr (a, s') \<longrightarrow> Q a s')"
  by (auto simp: wlp_def split: sum.splits)

lemma wp_iff: "wp m Q s \<longleftrightarrow> (\<exists>a s'. m s = Inr (a, s') \<and> Q a s')"
  by (auto simp: wp_def split: sum.splits)

lemma run_wp: "m s = Inr (a, s') \<longleftrightarrow> wp m (\<lambda>b t. b = a \<and> t = s') s"
  by (auto simp: wp_def split: sum.splits)

lemma wlpD: "wlp m Q s \<Longrightarrow> m s = Inr (a, s') \<Longrightarrow> Q a s'"
  by (simp add: wlp_def)

lemma wp_imp_wlp: "wp m Q s \<Longrightarrow> wlp m Q s"
  by (auto simp: wp_def wlp_def split: sum.splits)

text \<open>
  The methods of an object run on the pair of the object and the world it lives in; \<open>world_m\<close> runs
  a computation of the world alone.
\<close>

definition world_m :: "('w, 'a) proc \<Rightarrow> ('q \<times> 'w, 'a) proc" where
  "world_m m p = (case m (snd p) of Inl b \<Rightarrow> Inl b | Inr (a, w) \<Rightarrow> Inr (a, (fst p, w)))"

lemma wp_world_m [wp_simps]:
  "wp (world_m m) Q (q, w) = wp m (\<lambda>a w'. Q a (q, w')) w"
  "wlp (world_m m) Q (q, w) = wlp m (\<lambda>a w'. Q a (q, w')) w"
  by (auto simp: wp_def wlp_def world_m_def split: sum.splits)

section \<open>Counting\<close>

lemma length_filter_enumerate:
  "length (filter (\<lambda>(i, x). P i x) (enumerate 0 xs)) = card {i. i < length xs \<and> P i (xs ! i)}"
  by (auto simp: length_filter_conv_card nth_enumerate_eq intro!: arg_cong [where f = card])

section \<open>Searching strings\<close>

text \<open>Positions are \<open>Some i\<close>; \<open>std::string::npos\<close> is \<open>None\<close>.\<close>

fun find_index :: "('a \<Rightarrow> bool) \<Rightarrow> 'a list \<Rightarrow> nat option" where
  "find_index P [] = None"
| "find_index P (x # xs) = (if P x then Some 0 else map_option Suc (find_index P xs))"

definition find_last_index :: "('a \<Rightarrow> bool) \<Rightarrow> 'a list \<Rightarrow> nat option" where
  "find_last_index P xs = map_option (\<lambda>i. length xs - Suc i) (find_index P (rev xs))"

definition substr :: "nat \<Rightarrow> nat \<Rightarrow> 'a list \<Rightarrow> 'a list" where
  "substr pos n s = take n (drop pos s)"

definition starts_with :: "'a list \<Rightarrow> 'a list \<Rightarrow> bool" where
  "starts_with p s \<longleftrightarrow> take (length p) s = p"

fun str_contains :: "'a list \<Rightarrow> 'a list \<Rightarrow> bool" where
  "str_contains p [] = (p = [])"
| "str_contains p (x # xs) = (starts_with p (x # xs) \<or> str_contains p xs)"

lemma find_index_None_iff: "find_index P xs = None \<longleftrightarrow> (\<forall>x \<in> set xs. \<not> P x)"
  by (induction xs) auto

lemma find_index_SomeD:
  "find_index P xs = Some i \<Longrightarrow>
     i < length xs \<and> P (xs ! i) \<and> (\<forall>x \<in> set (take i xs). \<not> P x)"
  by (induction xs arbitrary: i) (auto split: if_splits)

lemma take_find_index:
  "find_index P xs = Some i \<Longrightarrow> take i xs = takeWhile (\<lambda>x. \<not> P x) xs"
  by (induction xs arbitrary: i) (auto split: if_splits)

lemma drop_find_index:
  "find_index P xs = Some i \<Longrightarrow> drop i xs = dropWhile (\<lambda>x. \<not> P x) xs"
  by (induction xs arbitrary: i) (auto split: if_splits)

lemma find_index_append:
  "find_index P (xs @ ys) =
     (case find_index P xs of Some i \<Rightarrow> Some i
      | None \<Rightarrow> map_option (\<lambda>i. length xs + i) (find_index P ys))"
proof (induction xs)
  case Nil
  then show ?case by (cases "find_index P ys") simp_all
next
  case (Cons x xs)
  then show ?case by (cases "find_index P xs"; cases "find_index P ys") auto
qed

lemma find_last_index_None_iff: "find_last_index P xs = None \<longleftrightarrow> (\<forall>x \<in> set xs. \<not> P x)"
  by (simp add: find_last_index_def find_index_None_iff)

lemma find_last_index_SomeD:
  assumes "find_last_index P xs = Some e"
  shows "e < length xs \<and> P (xs ! e) \<and> (\<forall>x \<in> set (drop (Suc e) xs). \<not> P x)"
proof -
  obtain i where i: "find_index P (rev xs) = Some i" and e: "e = length xs - Suc i"
    using assms by (auto simp: find_last_index_def)
  from find_index_SomeD [OF i]
  have len: "i < length xs" and P: "P (rev xs ! i)" and rest: "\<forall>x \<in> set (take i (rev xs)). \<not> P x"
    by auto
  have "take i (rev xs) = rev (drop (Suc e) xs)"
    using len by (simp add: e take_rev Suc_diff_Suc)
  with rest P len show ?thesis by (auto simp: e rev_nth)
qed

lemma find_index_le_find_last_index:
  assumes "find_index P xs = Some b" "find_last_index P xs = Some e"
  shows "b \<le> e"
proof (rule ccontr)
  assume "\<not> b \<le> e"
  then have "e < b" by simp
  moreover have "b < length xs" using find_index_SomeD [OF assms(1)] by simp
  ultimately have "xs ! e \<in> set (take b xs)"
    by (metis in_set_conv_nth length_take min.absorb4 nth_take)
  then show False
    using find_index_SomeD [OF assms(1)] find_last_index_SomeD [OF assms(2)] by blast
qed

lemma starts_with_iff: "starts_with p s \<longleftrightarrow> (\<exists>t. s = p @ t)"
  unfolding starts_with_def by (metis append_eq_conv_conj append_take_drop_id)

lemma str_contains_iff: "str_contains p s \<longleftrightarrow> (\<exists>a b. s = a @ p @ b)"
proof (induction s)
  case Nil
  then show ?case by simp
next
  case (Cons x xs)
  have "(\<exists>a b. x # xs = a @ p @ b) \<longleftrightarrow>
        (\<exists>b. x # xs = p @ b) \<or> (\<exists>a b. xs = a @ p @ b)"
    by (metis append_Cons append_eq_Cons_conv)
  with Cons show ?case by (simp add: starts_with_iff)
qed

section \<open>C strings and characters\<close>

definition c_str :: "string \<Rightarrow> string" where
  "c_str s = takeWhile (\<lambda>c. c \<noteq> CHR 0x00) s"

lemma c_str_id [simp]: "CHR 0x00 \<notin> set s \<Longrightarrow> c_str s = s"
  unfolding c_str_def by (induction s) auto

definition isspace :: "char \<Rightarrow> bool" where
  "isspace c \<longleftrightarrow> c \<in> {CHR '' '', CHR 0x09, CHR 0x0A, CHR 0x0B, CHR 0x0C, CHR 0x0D}"

definition toupper :: "char \<Rightarrow> char" where
  "toupper c = (if 97 \<le> (of_char c :: nat) \<and> (of_char c :: nat) \<le> 122
                then char_of ((of_char c :: nat) - 32) else c)"

lemma of_char_toupper:
  "(of_char (toupper c) :: nat) =
     (if 97 \<le> (of_char c :: nat) \<and> (of_char c :: nat) \<le> 122 then of_char c - 32 else of_char c)"
proof -
  have "(of_char c :: nat) - 32 < 256" if "(of_char c :: nat) \<le> 122"
    using that by arith
  then show ?thesis by (simp add: toupper_def of_char_of)
qed

lemma toupper_idem [simp]: "toupper (toupper c) = toupper c"
proof -
  have "\<not> (97 \<le> (of_char (toupper c) :: nat) \<and> (of_char (toupper c) :: nat) \<le> 122)"
    by (auto simp: of_char_toupper)
  then show ?thesis unfolding toupper_def [of "toupper c"] by (rule if_not_P)
qed

lemma map_toupper_idem [simp]: "map toupper (map toupper s) = map toupper s"
  by simp

section \<open>Numbers as text\<close>

fun nat_to_string :: "nat \<Rightarrow> string" where
  "nat_to_string n =
     (if n < 10 then [char_of (48 + n)]
      else nat_to_string (n div 10) @ [char_of (48 + n mod 10)])"

declare nat_to_string.simps [simp del]

definition to_string :: "int \<Rightarrow> string" where
  "to_string i = (if i < 0 then CHR ''-'' # nat_to_string (nat (- i)) else nat_to_string (nat i))"

definition digit_value :: "char \<Rightarrow> nat" where
  "digit_value c = (of_char c :: nat) - 48"

definition is_digit :: "nat \<Rightarrow> char \<Rightarrow> bool" where
  "is_digit base c \<longleftrightarrow> 48 \<le> (of_char c :: nat) \<and> (of_char c :: nat) < 48 + base"

definition digits_value :: "nat \<Rightarrow> string \<Rightarrow> nat" where
  "digits_value base ds = foldl (\<lambda>n c. n * base + digit_value c) 0 ds"

lemma digits_value_snoc [simp]:
  "digits_value base (ds @ [c]) = digits_value base ds * base + digit_value c"
  by (simp add: digits_value_def)

lemma nat_to_string_digits: "\<forall>c \<in> set (nat_to_string n). is_digit 10 c"
proof (induction n rule: nat_to_string.induct)
  case (1 n)
  have small: "is_digit 10 (char_of (48 + m))" if "m < 10" for m :: nat
    using that by (simp add: is_digit_def of_char_of)
  show ?case
  proof (cases "n < 10")
    case True
    then show ?thesis by (subst nat_to_string.simps) (simp add: small)
  next
    case False
    with "1" show ?thesis by (subst nat_to_string.simps) (auto simp: small)
  qed
qed

lemma nat_to_string_nonempty [simp]: "nat_to_string n \<noteq> []"
  by (subst nat_to_string.simps) simp

lemma digits_value_nat_to_string [simp]: "digits_value 10 (nat_to_string n) = n"
proof (induction n rule: nat_to_string.induct)
  case (1 n)
  have small: "digit_value (char_of (48 + m)) = m" if "m < 10" for m :: nat
    using that by (simp add: digit_value_def of_char_of)
  show ?case
  proof (cases "n < 10")
    case True
    then show ?thesis
      by (subst nat_to_string.simps) (simp add: digits_value_def small)
  next
    case False
    with "1" show ?thesis
      by (subst nat_to_string.simps) (simp add: small)
  qed
qed

lemma nat_to_string_inj: "nat_to_string m = nat_to_string n \<Longrightarrow> m = n"
  by (metis digits_value_nat_to_string)

section \<open>Integers of a fixed width\<close>

definition INT_MAX :: int where "INT_MAX = 2147483647"
definition LONG_MAX :: int where "LONG_MAX = 9223372036854775807"
definition LONG_MIN :: int where "LONG_MIN = - 9223372036854775808"

text \<open>\<open>static_cast<int>\<close> of a wider integer keeps the low 32 bits, read as two's complement.\<close>

definition cast_int32 :: "int \<Rightarrow> int" where
  "cast_int32 x = (x + 2147483648) mod 4294967296 - 2147483648"

lemma cast_int32_id [simp]: "- 2147483648 \<le> x \<Longrightarrow> x \<le> 2147483647 \<Longrightarrow> cast_int32 x = x"
  by (simp add: cast_int32_def)

lemma cast_int32_range: "- 2147483648 \<le> cast_int32 x \<and> cast_int32 x \<le> 2147483647"
  unfolding cast_int32_def
  by (smt (verit) pos_mod_bound pos_mod_sign)

text \<open>
  \<open>strtol (s, &end, base)\<close>: white space, an optional sign, then the longest run of digits of the
  base; the value saturates at the ends of \<open>long\<close>. The second component is the text \<open>end\<close> points
  to; without a digit nothing is consumed, so \<open>end == value\<close> holds exactly when it is the whole
  input.
\<close>

definition strtol :: "nat \<Rightarrow> string \<Rightarrow> int \<times> string" where
  "strtol base s =
     (let t = dropWhile isspace s;
          neg = (t \<noteq> [] \<and> hd t = CHR ''-'');
          u = (if t \<noteq> [] \<and> (hd t = CHR ''-'' \<or> hd t = CHR ''+'') then tl t else t);
          ds = takeWhile (is_digit base) u;
          v = int (digits_value base ds)
      in if ds = [] then (0, s)
         else (max LONG_MIN (min LONG_MAX (if neg then - v else v)), dropWhile (is_digit base) u))"

lemma isspace_not_digit: "is_digit 10 c \<Longrightarrow> \<not> isspace c \<and> c \<noteq> CHR ''-'' \<and> c \<noteq> CHR ''+''"
  by (auto simp: is_digit_def isspace_def)

lemma strtol_nat_to_string:
  assumes "int n \<le> LONG_MAX"
  shows "strtol 10 (nat_to_string n) = (int n, [])"
proof -
  let ?s = "nat_to_string n"
  have dig: "is_digit 10 c" if "c \<in> set ?s" for c
    using nat_to_string_digits that by blast
  obtain c cs where s: "?s = c # cs" by (cases ?s) auto
  have hd: "\<not> isspace c" "c \<noteq> CHR ''-''" "c \<noteq> CHR ''+''"
    using dig [of c] s isspace_not_digit [of c] by auto
  have ds: "takeWhile (is_digit 10) ?s = ?s" "dropWhile (is_digit 10) ?s = []"
    using dig by (auto simp: takeWhile_eq_all_conv dropWhile_eq_Nil_conv)
  have dw: "dropWhile isspace ?s = ?s" using s hd by simp
  have sg: "?s \<noteq> []" "hd ?s \<noteq> CHR ''-''" "hd ?s \<noteq> CHR ''+''" using s hd by simp_all
  have "strtol 10 ?s = (max LONG_MIN (min LONG_MAX (int n)), [])"
    by (simp only: strtol_def Let_def dw sg ds digits_value_nat_to_string if_False simp_thms)
  with assms show ?thesis by (simp add: LONG_MIN_def)
qed

lemma strtol_range: "LONG_MIN \<le> fst (strtol base s) \<and> fst (strtol base s) \<le> LONG_MAX"
  by (auto simp: strtol_def Let_def LONG_MIN_def LONG_MAX_def)

end
