(* ===== verification/Libpq_Result.thy ===== *)
theory Libpq_Result
  imports Cxx_Prelude
begin

text \<open>
  A libpq query result as the server sees it. A \<open>PGresult\<close> is opaque and immutable: everything the
  program can learn of it is what the accessors return, so a result is the record of its accessors,
  with the names and types of \<open>libpq-fe.h\<close>. No behaviour is built in; what the code relies on is
  the predicate \<open>pgresult_wf\<close>, taken from the libpq documentation of the accessors. A pointer that
  may be null is an \<open>option\<close>.
\<close>

datatype ExecStatusType =
    PGRES_EMPTY_QUERY | PGRES_COMMAND_OK | PGRES_TUPLES_OK | PGRES_COPY_OUT | PGRES_COPY_IN
  | PGRES_BAD_RESPONSE | PGRES_NONFATAL_ERROR | PGRES_FATAL_ERROR | PGRES_COPY_BOTH
  | PGRES_SINGLE_TUPLE | PGRES_PIPELINE_SYNC | PGRES_PIPELINE_ABORTED

datatype pg_diag =
    PG_DIAG_SEVERITY | PG_DIAG_SQLSTATE | PG_DIAG_MESSAGE_PRIMARY | PG_DIAG_MESSAGE_DETAIL
  | PG_DIAG_STATEMENT_POSITION

record PGresult =
  PQresultStatus :: ExecStatusType
  PQcmdStatus :: "string option"
  PQcmdTuples :: "string option"
  PQnfields :: int
  PQntuples :: int
  PQfname :: "int \<Rightarrow> string option"
  PQftable :: "int \<Rightarrow> 32 word"
  PQftablecol :: "int \<Rightarrow> int"
  PQftype :: "int \<Rightarrow> 32 word"
  PQfformat :: "int \<Rightarrow> int"
  PQgetisnull :: "int \<Rightarrow> int \<Rightarrow> bool"
  PQgetvalue :: "int \<Rightarrow> int \<Rightarrow> string option"
  PQgetlength :: "int \<Rightarrow> int \<Rightarrow> int"
  PQresultErrorField :: "pg_diag \<Rightarrow> string option"
  PQresultErrorMessage :: string

text \<open>
  Documented of every result: the counts are non-negative \<open>int\<close>s, and within them a cell that is
  not null has a value whose number of bytes is \<open>PQgetlength\<close>.
\<close>

definition pgresult_wf :: "PGresult \<Rightarrow> bool" where
  "pgresult_wf r \<longleftrightarrow>
     0 \<le> PQnfields r \<and> PQnfields r \<le> INT_MAX \<and> 0 \<le> PQntuples r \<and> PQntuples r \<le> INT_MAX \<and>
     (\<forall>row col. 0 \<le> row \<and> row < PQntuples r \<and> 0 \<le> col \<and> col < PQnfields r
        \<and> \<not> PQgetisnull r row col \<longrightarrow>
        (\<exists>v. PQgetvalue r row col = Some v \<and> PQgetlength r row col = int (length v)
             \<and> int (length v) \<le> INT_MAX))"

text \<open>The value of a cell: \<open>None\<close> for SQL null.\<close>

definition pg_cell :: "PGresult \<Rightarrow> int \<Rightarrow> int \<Rightarrow> string option" where
  "pg_cell r row col = (if PQgetisnull r row col then None else PQgetvalue r row col)"

text \<open>A result with given column names, rows and command status, for evaluating the model.\<close>

definition tuples_result :: "string \<Rightarrow> string list \<Rightarrow> string option list list \<Rightarrow> PGresult" where
  "tuples_result tag names rows =
     (let cell = (\<lambda>row col. rows ! nat row ! nat col)
      in \<lparr>PQresultStatus = PGRES_TUPLES_OK, PQcmdStatus = Some tag, PQcmdTuples = Some [],
          PQnfields = int (length names), PQntuples = int (length rows),
          PQfname = (\<lambda>col. Some (names ! nat col)), PQftable = (\<lambda>_. 0), PQftablecol = (\<lambda>_. 0),
          PQftype = (\<lambda>_. 25), PQfformat = (\<lambda>_. 1),
          PQgetisnull = (\<lambda>row col. cell row col = None),
          PQgetvalue = (\<lambda>row col. Some (case cell row col of None \<Rightarrow> [] | Some v \<Rightarrow> v)),
          PQgetlength = (\<lambda>row col. case cell row col of None \<Rightarrow> 0 | Some v \<Rightarrow> int (length v)),
          PQresultErrorField = (\<lambda>_. None), PQresultErrorMessage = []\<rparr>)"

definition command_result :: "ExecStatusType \<Rightarrow> string \<Rightarrow> string \<Rightarrow> PGresult" where
  "command_result status tag message =
     (tuples_result tag [] [])\<lparr>PQresultStatus := status, PQresultErrorMessage := message\<rparr>"

lemma pgresult_wf_cell:
  assumes "pgresult_wf r" "0 \<le> row" "row < PQntuples r" "0 \<le> col" "col < PQnfields r"
  shows "PQgetisnull r row col \<or>
    (\<exists>v. PQgetvalue r row col = Some v \<and> PQgetlength r row col = int (length v)
         \<and> int (length v) \<le> INT_MAX)"
  using assms unfolding pgresult_wf_def by blast

lemma tuples_result_simps [simp]:
  "PQresultStatus (tuples_result tag names rows) = PGRES_TUPLES_OK"
  "PQcmdStatus (tuples_result tag names rows) = Some tag"
  "PQnfields (tuples_result tag names rows) = int (length names)"
  "PQntuples (tuples_result tag names rows) = int (length rows)"
  by (simp_all add: tuples_result_def Let_def)

lemma tuples_result_wf:
  assumes "int (length names) \<le> INT_MAX" "int (length rows) \<le> INT_MAX"
    and "\<And>row v. row \<in> set rows \<Longrightarrow> Some v \<in> set row \<Longrightarrow> int (length v) \<le> INT_MAX"
    and "\<And>row. row \<in> set rows \<Longrightarrow> length row = length names"
  shows "pgresult_wf (tuples_result tag names rows)"
  unfolding pgresult_wf_def
proof (intro conjI allI impI)
  fix row col
  let ?r = "tuples_result tag names rows"
  assume A: "0 \<le> row \<and> row < PQntuples ?r \<and> 0 \<le> col \<and> col < PQnfields ?r \<and> \<not> PQgetisnull ?r row col"
  then have row: "rows ! nat row \<in> set rows" by (auto simp: nat_less_iff intro!: nth_mem)
  with A assms(4) have "nat col < length (rows ! nat row)" by force
  then have cell: "rows ! nat row ! nat col \<in> set (rows ! nat row)" by simp
  from A obtain v where v: "rows ! nat row ! nat col = Some v"
    by (auto simp: tuples_result_def Let_def)
  with row cell assms(3) have "int (length v) \<le> INT_MAX" by metis
  with v show "\<exists>v. PQgetvalue ?r row col = Some v \<and> PQgetlength ?r row col = int (length v)
      \<and> int (length v) \<le> INT_MAX"
    by (simp add: tuples_result_def Let_def)
qed (use assms in simp_all)

end
