(* ===== verification/Grpc_Types.thy ===== *)
theory Grpc_Types
  imports Cxx_Prelude
begin

text \<open>
  The gRPC status values the handlers return and the messages of \<open>src/proto/mtdd.proto\<close>: protobuf
  messages are records of their fields, in which an absent field has its default value.
\<close>

datatype StatusCode = OK | CANCELLED | INVALID_ARGUMENT | FAILED_PRECONDITION

record Status =
  status_code :: StatusCode
  status_message :: string

definition Status_OK :: Status where
  "Status_OK = \<lparr>status_code = OK, status_message = []\<rparr>"

definition mk_status :: "StatusCode \<Rightarrow> string \<Rightarrow> Status" where
  "mk_status code message = \<lparr>status_code = code, status_message = message\<rparr>"

definition status_ok :: "Status \<Rightarrow> bool" where
  "status_ok st \<longleftrightarrow> status_code st = OK"

lemma status_simps [simp]:
  "status_ok Status_OK"
  "status_ok (mk_status code message) \<longleftrightarrow> code = OK"
  "status_code (mk_status code message) = code"
  "status_message (mk_status code message) = message"
  by (simp_all add: status_ok_def Status_OK_def mk_status_def)

section \<open>Messages of the notify service\<close>

record NotifySubscribeRequest =
  ns_client_id :: string
  ns_channel :: string
  ns_tid_scope :: string

record NotifyUnsubscribeRequest =
  nu_client_id :: string
  nu_channel :: string
  nu_tid_scope :: string

record NotifyPublishRequest =
  np_channel :: string
  np_payload :: string
  np_tid_scope :: string

record NotifyAck =
  ack_ok :: bool
  ack_message :: string
  ack_delivered_count :: int

definition NotifyAck_init :: NotifyAck where
  "NotifyAck_init = \<lparr>ack_ok = False, ack_message = [], ack_delivered_count = 0\<rparr>"

section \<open>Messages of the shard service\<close>

datatype ChunkKind =
    CHUNK_KIND_UNSPECIFIED | CHUNK_KIND_SCHEMA | CHUNK_KIND_BATCH | CHUNK_KIND_TRAILER
  | CHUNK_KIND_ERROR

record ConnectRequest =
  cr_host_index :: int
  cr_dbname :: string
  cr_user :: string
  cr_password :: string
  cr_port :: int
  cr_host :: string
  cr_sslmode :: string
  cr_connect_timeout :: string
  cr_application_name :: string
  cr_database :: string

record ConnectResponse =
  resp_ok :: bool
  resp_message :: string

record QueryParam =
  qp_oid :: "32 word"
  qp_format :: int
  qp_value :: string

record QueryRequest =
  qr_host_index :: int
  qr_text :: string
  qr_name :: string
  qr_row_mode :: string
  qr_session_id :: string
  qr_params :: "QueryParam list"
  qr_result_format :: int

record ResultChunk =
  chunk_kind :: ChunkKind
  chunk_meta :: string
  chunk_payload :: string

record DisconnectRequest =
  dr_host_index :: int

record DisconnectResponse =
  dresp_ok :: bool

end
