(* ===== verification/Pq_Conn.thy ===== *)
theory Pq_Conn
  imports Libpq_Result Grpc_Types
begin

text \<open>
  \<open>src/src/pg/pq_conn.cpp\<close>: one PostgreSQL connection, on top of libpq.

  libpq, the PostgreSQL server behind it and the gRPC stream are not part of the program. They are
  the parameter \<open>libpq\<close>: a record of functions that answer a call from the history of every earlier
  call, so that any behaviour of the outside, a deterministic one or not, is one such record. The
  program's side is the \<open>pg_world\<close>: the history of calls, newest first, and what the process itself
  keeps (reference counts of the shared connections, the mutexes the thread holds).
\<close>

section \<open>The outside of the program\<close>

type_synonym conn = nat

record ParamBuffers =
  pb_values :: "string option list"
  pb_lengths :: "int list"
  pb_formats :: "int list"
  pb_types :: "32 word list"

datatype pg_event =
    EvConnect string "conn option"
  | EvExec conn string "PGresult option"
  | EvExecParams conn string ParamBuffers int "PGresult option"
  | EvClear PGresult
  | EvFinish conn
  | EvPoll bool
  | EvWrite ResultChunk bool

type_synonym history = "pg_event list"

datatype PGTransactionStatusType =
    PQTRANS_IDLE | PQTRANS_ACTIVE | PQTRANS_INTRANS | PQTRANS_INERROR | PQTRANS_UNKNOWN

text \<open>
  \<open>PQconnectdb\<close> tells whether a handle is returned at all; handles are numbered by the process in
  the order of their creation. \<open>PQstatus\<close> tells whether the status is \<open>CONNECTION_OK\<close>. The messages
  of libpq are never null pointers. The two fields ending in \<open>null\<close> are what the accessors return
  for a null result, on which the program calls them too.
\<close>

record libpq =
  PQconnectdb :: "history \<Rightarrow> string \<Rightarrow> bool"
  PQstatus :: "history \<Rightarrow> conn \<Rightarrow> bool"
  PQerrorMessage :: "history \<Rightarrow> conn \<Rightarrow> string"
  PQtransactionStatus :: "history \<Rightarrow> conn \<Rightarrow> PGTransactionStatusType"
  PQexec :: "history \<Rightarrow> conn \<Rightarrow> string \<Rightarrow> PGresult option"
  PQexecParams :: "history \<Rightarrow> conn \<Rightarrow> string \<Rightarrow> ParamBuffers \<Rightarrow> int \<Rightarrow> PGresult option"
  PQresultStatus_null :: ExecStatusType
  PQresultErrorMessage_null :: string
  IsCancelled :: "history \<Rightarrow> bool"
  Write :: "history \<Rightarrow> ResultChunk \<Rightarrow> bool"

record pg_world =
  history :: history
  next_conn :: conn
  refs :: "conn \<Rightarrow> nat"
  held :: "conn set"

definition record_event :: "pg_event \<Rightarrow> ('a pg_world_scheme, unit) proc" where
  "record_event e = upd_m (\<lambda>s. s\<lparr>history := e # history s\<rparr>)"

definition PQconnectdb_m :: "libpq \<Rightarrow> string \<Rightarrow> ('a pg_world_scheme, conn option) proc" where
  "PQconnectdb_m L conninfo s =
     (if PQconnectdb L (history s) conninfo
      then Inr (Some (next_conn s),
        s\<lparr>history := EvConnect conninfo (Some (next_conn s)) # history s, next_conn := Suc (next_conn s)\<rparr>)
      else Inr (None, s\<lparr>history := EvConnect conninfo None # history s\<rparr>))"

definition PQexec_m :: "libpq \<Rightarrow> conn \<Rightarrow> string \<Rightarrow> ('a pg_world_scheme, PGresult option) proc" where
  "PQexec_m L c sql s =
     (let r = PQexec L (history s) c sql in Inr (r, s\<lparr>history := EvExec c sql r # history s\<rparr>))"

definition PQexecParams_m ::
    "libpq \<Rightarrow> conn \<Rightarrow> string \<Rightarrow> ParamBuffers \<Rightarrow> int \<Rightarrow> ('a pg_world_scheme, PGresult option) proc" where
  "PQexecParams_m L c sql ps fmt s =
     (let r = PQexecParams L (history s) c sql ps fmt
      in Inr (r, s\<lparr>history := EvExecParams c sql ps fmt r # history s\<rparr>))"

text \<open>\<open>PQclear\<close> of a null pointer does nothing.\<close>

definition PQclear_m :: "PGresult option \<Rightarrow> ('a pg_world_scheme, unit) proc" where
  "PQclear_m r = (case r of None \<Rightarrow> ret_m () | Some x \<Rightarrow> record_event (EvClear x))"

definition PQfinish_m :: "conn \<Rightarrow> ('a pg_world_scheme, unit) proc" where
  "PQfinish_m c = record_event (EvFinish c)"

definition IsCancelled_m :: "libpq \<Rightarrow> ('a pg_world_scheme, bool) proc" where
  "IsCancelled_m L s =
     (let b = IsCancelled L (history s) in Inr (b, s\<lparr>history := EvPoll b # history s\<rparr>))"

definition Write_m :: "libpq \<Rightarrow> ResultChunk \<Rightarrow> ('a pg_world_scheme, bool) proc" where
  "Write_m L chunk s =
     (let b = Write L (history s) chunk in Inr (b, s\<lparr>history := EvWrite chunk b # history s\<rparr>))"

definition result_status :: "libpq \<Rightarrow> PGresult option \<Rightarrow> ExecStatusType" where
  "result_status L r = (case r of None \<Rightarrow> PQresultStatus_null L | Some x \<Rightarrow> PQresultStatus x)"

definition result_error :: "libpq \<Rightarrow> PGresult option \<Rightarrow> string" where
  "result_error L r = (case r of None \<Rightarrow> PQresultErrorMessage_null L | Some x \<Rightarrow> PQresultErrorMessage x)"

section \<open>Shared connections and their mutexes\<close>

text \<open>
  \<open>std::shared_ptr<PqConnection>\<close>: creation, copy and destruction of an owner. The destructor of the
  last owner runs \<open>~PqConnection\<close>, which finishes the handle.
\<close>

definition share_new :: "conn \<Rightarrow> ('a pg_world_scheme, unit) proc" where
  "share_new c = upd_m (\<lambda>s. s\<lparr>refs := (refs s)(c := 1)\<rparr>)"

definition share_copy :: "conn \<Rightarrow> ('a pg_world_scheme, unit) proc" where
  "share_copy c = upd_m (\<lambda>s. s\<lparr>refs := (refs s)(c := Suc (refs s c))\<rparr>)"

definition share_drop :: "conn \<Rightarrow> ('a pg_world_scheme, unit) proc" where
  "share_drop c =
     bind_m (get_m (\<lambda>s. refs s c)) (\<lambda>n.
     bind_m (upd_m (\<lambda>s. s\<lparr>refs := (refs s)(c := n - 1)\<rparr>)) (\<lambda>_.
     if n = 1 then PQfinish_m c else ret_m ()))"

fun share_drop_all :: "conn list \<Rightarrow> ('a pg_world_scheme, unit) proc" where
  "share_drop_all [] = ret_m ()"
| "share_drop_all (c # cs) = bind_m (share_drop c) (\<lambda>_. share_drop_all cs)"

text \<open>
  \<open>std::lock_guard\<close> on a connection's mutex around a block: a thread that locks a \<open>std::mutex\<close> it
  already holds never continues.
\<close>

definition with_lock ::
    "conn \<Rightarrow> ('q \<times> 'a pg_world_scheme, 'b) proc \<Rightarrow> ('q \<times> 'a pg_world_scheme, 'b) proc" where
  "with_lock c body p =
     (if c \<in> held (snd p) then Inl SelfDeadlock
      else bind_m body (\<lambda>a. bind_m (world_m (upd_m (\<lambda>s. s\<lparr>held := held s - {c}\<rparr>))) (\<lambda>_. ret_m a))
             (fst p, (snd p)\<lparr>held := insert c (held (snd p))\<rparr>))"

text \<open>An output parameter \<open>std::string* error_out\<close>: \<open>None\<close> is the null pointer.\<close>

type_synonym err_ptr = "string option"

definition set_error :: "err_ptr \<Rightarrow> string \<Rightarrow> err_ptr" where
  "set_error err msg = map_option (\<lambda>_. msg) err"

section \<open>PqConnection\<close>

record ConnectParams =
  cp_pg_host :: string
  cp_port :: int
  cp_dbname :: string
  cp_user :: string
  cp_password :: string
  cp_connect_timeout_sec :: int
  cp_statement_timeout_ms :: int

definition ConnectParams_init :: ConnectParams where
  "ConnectParams_init = \<lparr>cp_pg_host = [], cp_port = 5432, cp_dbname = [], cp_user = [], cp_password = [],
     cp_connect_timeout_sec = 5, cp_statement_timeout_ms = 0\<rparr>"

definition ApplyStatementTimeout ::
    "libpq \<Rightarrow> conn option \<Rightarrow> int \<Rightarrow> err_ptr \<Rightarrow> ('a pg_world_scheme, bool \<times> err_ptr) proc" where
  "ApplyStatementTimeout L raw statement_timeout_ms error_out =
     (if statement_timeout_ms \<le> 0 \<or> raw = None then ret_m (True, error_out)
      else bind_m (PQexec_m L (the raw) (''SET statement_timeout = '' @ to_string statement_timeout_ms)) (\<lambda>result.
        case result of
          None \<Rightarrow> ret_m (False, set_error error_out ''failed to set statement_timeout'')
        | Some r \<Rightarrow>
            let ok = (PQresultStatus r = PGRES_COMMAND_OK);
                error_out' = (if \<not> ok then set_error error_out (PQresultErrorMessage r) else error_out)
            in bind_m (PQclear_m result) (\<lambda>_. ret_m (ok, error_out'))))"

definition BuildConninfo :: "ConnectParams \<Rightarrow> string" where
  "BuildConninfo params =
     ''host='' @ cp_pg_host params @ '' ''
     @ ''port='' @ to_string (cp_port params) @ '' ''
     @ ''dbname='' @ cp_dbname params @ '' ''
     @ ''user='' @ cp_user params @ '' ''
     @ ''password='' @ cp_password params @ '' ''
     @ ''application_name=mtdd_server ''
     @ ''connect_timeout='' @ to_string (cp_connect_timeout_sec params)"

definition PqConnection_Connect ::
    "libpq \<Rightarrow> ConnectParams \<Rightarrow> err_ptr \<Rightarrow> int \<Rightarrow> ('a pg_world_scheme, conn option \<times> err_ptr) proc" where
  "PqConnection_Connect L params error_out statement_timeout_ms =
     bind_m (PQconnectdb_m L (c_str (BuildConninfo params))) (\<lambda>raw.
     case raw of
       None \<Rightarrow> ret_m (None, set_error error_out ''PQconnectdb returned null'')
     | Some c \<Rightarrow>
         bind_m (get_m (\<lambda>s. PQstatus L (history s) c)) (\<lambda>ok.
         if \<not> ok then
           bind_m (get_m (\<lambda>s. PQerrorMessage L (history s) c)) (\<lambda>msg.
           bind_m (PQfinish_m c) (\<lambda>_. ret_m (None, set_error error_out msg)))
         else
           bind_m (PQexec_m L c ''SELECT 1'') (\<lambda>probe.
           if probe = None \<or> result_status L probe \<noteq> PGRES_TUPLES_OK then
             bind_m (get_m (\<lambda>s. PQerrorMessage L (history s) c)) (\<lambda>msg.
             let error_out' = (case probe of Some r \<Rightarrow> set_error error_out (PQresultErrorMessage r)
                               | None \<Rightarrow> set_error error_out msg)
             in bind_m (PQclear_m probe) (\<lambda>_. bind_m (PQfinish_m c) (\<lambda>_. ret_m (None, error_out'))))
           else
             bind_m (PQclear_m probe) (\<lambda>_.
             let timeout_ms = (if statement_timeout_ms > 0 then statement_timeout_ms
                               else cp_statement_timeout_ms params)
             in bind_m (ApplyStatementTimeout L raw timeout_ms error_out) (\<lambda>(applied, error_out').
                if \<not> applied then bind_m (PQfinish_m c) (\<lambda>_. ret_m (None, error_out'))
                else ret_m (Some c, error_out'))))))"

definition IsHealthy :: "libpq \<Rightarrow> history \<Rightarrow> conn \<Rightarrow> bool" where
  "IsHealthy L h c \<longleftrightarrow> PQstatus L h c"

definition ErrorMessage :: "libpq \<Rightarrow> history \<Rightarrow> conn \<Rightarrow> string" where
  "ErrorMessage L h c = PQerrorMessage L h c"

section \<open>Reading the history\<close>

definition events_since :: "history \<Rightarrow> history \<Rightarrow> history" where
  "events_since h h' = take (length h' - length h) h'"

lemma events_since_append [simp]: "events_since h (xs @ h) = xs"
  by (simp add: events_since_def)

lemma events_since_refl [simp]: "events_since h h = []"
  by (simp add: events_since_def)

lemma events_since_Cons [simp]:
  "length h \<le> length h' \<Longrightarrow> events_since h (e # h') = e # events_since h h'"
  by (simp add: events_since_def Suc_diff_le)

definition extends :: "history \<Rightarrow> history \<Rightarrow> bool" where
  "extends g h \<longleftrightarrow> (\<exists>xs. h = xs @ g)"

lemma extends_intros [simp, intro]:
  "extends g g" "extends g h \<Longrightarrow> extends g (e # h)" "extends g h \<Longrightarrow> extends g (xs @ h)"
proof -
  show "extends g g" unfolding extends_def by (rule exI [of _ "[]"]) simp
  show "extends g (e # h)" if "extends g h" using that unfolding extends_def by (metis append_Cons)
  show "extends g (xs @ h)" if "extends g h" using that unfolding extends_def by (metis append_assoc)
qed

lemma extends_length: "extends g h \<Longrightarrow> length g \<le> length h"
  by (auto simp: extends_def)

lemma extends_trans: "extends g h \<Longrightarrow> extends h k \<Longrightarrow> extends g k"
  by (auto simp: extends_def)

lemma extends_split: "extends g h \<Longrightarrow> extends h k \<Longrightarrow> events_since g k = events_since h k @ events_since g h"
proof -
  assume "extends g h" "extends h k"
  then obtain xs ys where "h = xs @ g" "k = ys @ h" by (auto simp: extends_def)
  then show ?thesis by (metis append_assoc events_since_append)
qed

text \<open>The handles opened and finished, the results received and cleared, the statements run.\<close>

fun opened :: "history \<Rightarrow> conn set" where
  "opened [] = {}"
| "opened (EvConnect info (Some c) # h) = insert c (opened h)"
| "opened (_ # h) = opened h"

fun finished :: "history \<Rightarrow> conn set" where
  "finished [] = {}"
| "finished (EvFinish c # h) = insert c (finished h)"
| "finished (_ # h) = finished h"

fun results_of :: "history \<Rightarrow> PGresult set" where
  "results_of [] = {}"
| "results_of (EvExec c sql (Some x) # h) = insert x (results_of h)"
| "results_of (EvExecParams c sql ps fmt (Some x) # h) = insert x (results_of h)"
| "results_of (_ # h) = results_of h"

fun cleared :: "history \<Rightarrow> PGresult set" where
  "cleared [] = {}"
| "cleared (EvClear x # h) = insert x (cleared h)"
| "cleared (_ # h) = cleared h"

fun statements :: "conn \<Rightarrow> history \<Rightarrow> string list" where
  "statements c [] = []"
| "statements c (EvExec d sql r # h) = (if d = c then sql # statements c h else statements c h)"
| "statements c (EvExecParams d sql ps fmt r # h) = (if d = c then sql # statements c h else statements c h)"
| "statements c (_ # h) = statements c h"

lemma finished_append [simp]: "finished (xs @ ys) = finished xs \<union> finished ys"
  by (induction xs rule: finished.induct) auto

lemma opened_append [simp]: "opened (xs @ ys) = opened xs \<union> opened ys"
  by (induction xs rule: opened.induct) auto

lemma cleared_append [simp]: "cleared (xs @ ys) = cleared xs \<union> cleared ys"
  by (induction xs rule: cleared.induct) auto

lemma results_of_append [simp]: "results_of (xs @ ys) = results_of xs \<union> results_of ys"
  by (induction xs rule: results_of.induct) auto

lemma statements_append [simp]: "statements c (xs @ ys) = statements c xs @ statements c ys"
  by (induction c xs rule: statements.induct) auto

text \<open>
  A concrete outside for evaluating the model: a server that accepts every statement, whose first
  \<open>FETCH\<close> returns the given rows of one column and whose later ones return none, and a client that
  neither cancels nor closes the stream.
\<close>

definition demo_exec :: "string option list list \<Rightarrow> history \<Rightarrow> conn \<Rightarrow> string \<Rightarrow> PGresult option" where
  "demo_exec rows h c sql =
     (if sql = ''SELECT 1'' then Some (tuples_result ''SELECT 1'' [''x''] [[Some ''1'']])
      else if starts_with ''FETCH'' sql then
        (if \<exists>q \<in> set (statements c h). starts_with ''FETCH'' q
         then Some (tuples_result ''FETCH 0'' [''x''] [])
         else Some (tuples_result ''FETCH n'' [''x''] rows))
      else Some (command_result PGRES_COMMAND_OK sql []))"

definition demo_libpq :: "string option list list \<Rightarrow> libpq" where
  "demo_libpq rows =
     \<lparr>PQconnectdb = (\<lambda>_ _. True), PQstatus = (\<lambda>_ _. True), PQerrorMessage = (\<lambda>_ _. []),
      PQtransactionStatus = (\<lambda>_ _. PQTRANS_IDLE), PQexec = demo_exec rows,
      PQexecParams = (\<lambda>_ _ sql _ _. Some (command_result PGRES_COMMAND_OK sql [])),
      PQresultStatus_null = PGRES_FATAL_ERROR, PQresultErrorMessage_null = [],
      IsCancelled = (\<lambda>_. False), Write = (\<lambda>_ _. True)\<rparr>"

definition empty_world :: pg_world where
  "empty_world = \<lparr>history = [], next_conn = 0, refs = (\<lambda>_. 0), held = {}\<rparr>"

lemma demo_libpq_simps [simp]:
  "PQstatus (demo_libpq rows) h c" "\<not> IsCancelled (demo_libpq rows) h" "Write (demo_libpq rows) h chunk"
  "PQtransactionStatus (demo_libpq rows) h c = PQTRANS_IDLE"
  by (simp_all add: demo_libpq_def)

lemmas demo_eval = empty_world_def demo_libpq_def demo_exec_def command_result_def starts_with_def
  result_status_def Let_def

section \<open>Weakest preconditions of the calls\<close>

lemma wp_calls [wp_simps]:
  "wp (record_event e) Q s = Q () (s\<lparr>history := e # history s\<rparr>)"
  "wp (PQexec_m L c sql) R s =
     R (PQexec L (history s) c sql) (s\<lparr>history := EvExec c sql (PQexec L (history s) c sql) # history s\<rparr>)"
  "wp (PQexecParams_m L c sql ps fmt) R s =
     R (PQexecParams L (history s) c sql ps fmt)
       (s\<lparr>history := EvExecParams c sql ps fmt (PQexecParams L (history s) c sql ps fmt) # history s\<rparr>)"
  "wp (PQfinish_m c) Q s = Q () (s\<lparr>history := EvFinish c # history s\<rparr>)"
  "wp (IsCancelled_m L) B s =
     B (IsCancelled L (history s)) (s\<lparr>history := EvPoll (IsCancelled L (history s)) # history s\<rparr>)"
  "wp (Write_m L chunk) B s =
     B (Write L (history s) chunk) (s\<lparr>history := EvWrite chunk (Write L (history s) chunk) # history s\<rparr>)"
  "wp (share_new c) Q s = Q () (s\<lparr>refs := (refs s)(c := 1)\<rparr>)"
  "wp (share_copy c) Q s = Q () (s\<lparr>refs := (refs s)(c := Suc (refs s c))\<rparr>)"
  by (simp_all add: wp_def record_event_def PQexec_m_def PQexecParams_m_def PQfinish_m_def
      IsCancelled_m_def Write_m_def share_new_def share_copy_def Let_def)

lemma wp_PQclear_m [wp_simps]:
  "wp (PQclear_m r) Q s =
     Q () (case r of None \<Rightarrow> s | Some x \<Rightarrow> s\<lparr>history := EvClear x # history s\<rparr>)"
  by (cases r) (simp_all add: PQclear_m_def wp_simps)

lemma wp_PQconnectdb_m [wp_simps]:
  "wp (PQconnectdb_m L conninfo) Q s =
     (if PQconnectdb L (history s) conninfo
      then Q (Some (next_conn s)) (s\<lparr>history := EvConnect conninfo (Some (next_conn s)) # history s,
             next_conn := Suc (next_conn s)\<rparr>)
      else Q None (s\<lparr>history := EvConnect conninfo None # history s\<rparr>))"
  by (simp add: wp_def PQconnectdb_m_def)

lemma wp_share_drop [wp_simps]:
  "wp (share_drop c) Q s =
     Q () (s\<lparr>refs := (refs s)(c := refs s c - 1),
             history := (if refs s c = 1 then [EvFinish c] else []) @ history s\<rparr>)"
  by (simp add: share_drop_def wp_simps)

lemma wp_with_lock [wp_simps]:
  "wp (with_lock c body) Q (q, s) =
     (c \<notin> held s \<and>
      wp body (\<lambda>a p. Q a (fst p, (snd p)\<lparr>held := held (snd p) - {c}\<rparr>)) (q, s\<lparr>held := insert c (held s)\<rparr>))"
  by (auto simp: with_lock_def wp_def bind_m_def world_m_def split: sum.splits)

lemma wlp_eq_wp: "wp m (\<lambda>_ _. True) s \<Longrightarrow> wlp m Q s = wp m Q s"
  by (auto simp: wp_def wlp_def split: sum.splits)

lemma wlp_bool_calls [wp_simps]:
  "wlp (IsCancelled_m L) B s =
     B (IsCancelled L (history s)) (s\<lparr>history := EvPoll (IsCancelled L (history s)) # history s\<rparr>)"
  "wlp (Write_m L chunk) B s =
     B (Write L (history s) chunk) (s\<lparr>history := EvWrite chunk (Write L (history s) chunk) # history s\<rparr>)"
  by (simp_all add: wlp_def IsCancelled_m_def Write_m_def Let_def)

lemma wlp_PQclear_m [wp_simps]:
  "wlp (PQclear_m r) Q s = Q () (case r of None \<Rightarrow> s | Some x \<Rightarrow> s\<lparr>history := EvClear x # history s\<rparr>)"
  by (cases r) (simp_all add: wlp_def PQclear_m_def record_event_def)

section \<open>Correctness of PqConnection\<close>

text \<open>
  What \<open>Connect\<close> may change: the history and the numbering of handles. A connection it returns is
  the new handle; one it does not return it has finished, and every result it read is cleared.
\<close>

definition connect_effect :: "'a pg_world_scheme \<Rightarrow> 'a pg_world_scheme \<Rightarrow> conn option \<Rightarrow> bool" where
  "connect_effect s s' r \<longleftrightarrow>
     (let new = events_since (history s) (history s') in
        s' = s\<lparr>history := new @ history s, next_conn := next_conn s'\<rparr> \<and>
        next_conn s \<le> next_conn s' \<and>
        (\<forall>c \<in> finished new. next_conn s \<le> c \<and> c < next_conn s') \<and>
        (\<forall>c \<in> opened new. c = next_conn s \<and> (r = Some c \<or> c \<in> finished new)) \<and>
        (\<forall>c. r = Some c \<longrightarrow> c = next_conn s \<and> next_conn s' = Suc c \<and> c \<notin> finished new) \<and>
        results_of new \<subseteq> cleared new)"

lemma wp_ApplyStatementTimeout:
  "wp (ApplyStatementTimeout L (Some c) ms err) Q s =
     (if ms \<le> 0 then Q (True, err) s
      else let sql = ''SET statement_timeout = '' @ to_string ms;
               r = PQexec L (history s) c sql;
               s1 = s\<lparr>history := EvExec c sql r # history s\<rparr>
           in case r of
                None \<Rightarrow> Q (False, set_error err ''failed to set statement_timeout'') s1
              | Some x \<Rightarrow>
                  Q (PQresultStatus x = PGRES_COMMAND_OK,
                     if PQresultStatus x = PGRES_COMMAND_OK then err else set_error err (PQresultErrorMessage x))
                    (s1\<lparr>history := EvClear x # history s1\<rparr>))"
  by (simp add: ApplyStatementTimeout_def wp_simps Let_def split: option.split)

lemma wp_PqConnection_Connect:
  "wp (PqConnection_Connect L params err ms) (\<lambda>(r, err') s'. connect_effect s s' r) s"
  unfolding PqConnection_Connect_def
  by (auto simp: wp_simps wp_ApplyStatementTimeout result_status_def connect_effect_def Let_def
      split: option.splits)

lemma PqConnection_Connect_runs:
  obtains r err' s' where "PqConnection_Connect L params err ms s = Inr ((r, err'), s')"
    and "connect_effect s s' r"
  using wp_PqConnection_Connect [of L params err ms s] by (auto simp: wp_iff)

lemma connect_effect_eq:
  assumes "connect_effect s s' r"
  shows "s' = s\<lparr>history := history s', next_conn := next_conn s'\<rparr>"
proof -
  have eq: "s' = s\<lparr>history := events_since (history s) (history s') @ history s, next_conn := next_conn s'\<rparr>"
    using assms by (simp add: connect_effect_def Let_def)
  have "history s' = events_since (history s) (history s') @ history s"
    using arg_cong [where f = history, OF eq] by simp
  then show ?thesis using eq by (rule ssubst)
qed

lemma connect_effect_frame:
  assumes "connect_effect s s' r"
  obtains new where "history s' = new @ history s" and "next_conn s \<le> next_conn s'"
    and "\<forall>c \<in> finished new. next_conn s \<le> c \<and> c < next_conn s'"
    and "\<forall>c. r = Some c \<longrightarrow> c = next_conn s \<and> next_conn s' = Suc c \<and> c \<notin> finished new"
proof -
  let ?new = "events_since (history s) (history s')"
  have eq: "s' = s\<lparr>history := ?new @ history s, next_conn := next_conn s'\<rparr>"
    using assms by (simp add: connect_effect_def Let_def)
  have "history s' = ?new @ history s" using arg_cong [where f = history, OF eq] by simp
  with assms show thesis
    by (intro that [of ?new]) (simp_all add: connect_effect_def Let_def)
qed

text \<open>The text before the first blank of a string tells it apart.\<close>

lemma blank_split:
  assumes "a @ CHR '' '' # x = b @ CHR '' '' # y" "CHR '' '' \<notin> set a" "CHR '' '' \<notin> set b"
  shows "a = b \<and> x = y"
  using assms by (induction a arbitrary: b) (auto simp: Cons_eq_append_conv append_eq_Cons_conv)

lemma nat_to_string_chars: "c \<in> set (nat_to_string n) \<Longrightarrow> c \<noteq> CHR '' '' \<and> c \<noteq> CHR ''-''"
  using nat_to_string_digits isspace_not_digit by (fastforce simp: isspace_def)

lemma to_string_no_blank: "CHR '' '' \<notin> set (to_string i)"
  using nat_to_string_chars by (auto simp: to_string_def)

lemma to_string_inj: "to_string i = to_string j \<Longrightarrow> i = j"
proof (cases "i < 0"; cases "j < 0")
  assume "to_string i = to_string j" "i < 0" "j < 0"
  then show ?thesis using nat_to_string_inj by (force simp: to_string_def)
next
  assume "to_string i = to_string j" "\<not> i < 0" "\<not> j < 0"
  then show ?thesis using nat_to_string_inj by (force simp: to_string_def)
next
  assume "to_string i = to_string j" "i < 0" "\<not> j < 0"
  then have "CHR ''-'' \<in> set (nat_to_string (nat j))" by (simp add: to_string_def) (metis list.set_intros(1))
  then show ?thesis using nat_to_string_chars by blast
next
  assume "to_string i = to_string j" "\<not> i < 0" "j < 0"
  then have "CHR ''-'' \<in> set (nat_to_string (nat i))" by (simp add: to_string_def) 
  then show ?thesis using nat_to_string_chars by blast
qed

text \<open>C30: \<open>PqConnection::Connect\<close> always returns, and neither leaks a handle nor a result: a handle it
  opens is either the connection it returns, still open, or has been closed with \<open>PQfinish\<close>; it
  touches no other connection; every result it received it has cleared; and it changes nothing else
  of the process (reference counts, held mutexes) but the numbering of handles.\<close>

theorem PqConnection_Connect_owns_or_closes:
  "\<exists>r err' s'. PqConnection_Connect L params err ms s = Inr ((r, err'), s') \<and>
     (let new = events_since (history s) (history s') in
        s' = s\<lparr>history := new @ history s, next_conn := next_conn s'\<rparr> \<and>
        finished new \<subseteq> opened new \<and> opened new - finished new = set_option r \<and>
        r \<in> {None, Some (next_conn s)} \<and> results_of new \<subseteq> cleared new)"
proof -
  have "wp (PqConnection_Connect L params err ms) (\<lambda>(r, err') s'.
     (let new = events_since (history s) (history s') in
        s' = s\<lparr>history := new @ history s, next_conn := next_conn s'\<rparr> \<and>
        finished new \<subseteq> opened new \<and> opened new - finished new = set_option r \<and>
        r \<in> {None, Some (next_conn s)} \<and> results_of new \<subseteq> cleared new)) s"
    unfolding PqConnection_Connect_def
    by (auto simp: wp_simps wp_ApplyStatementTimeout result_status_def Let_def split: option.splits)
  then show ?thesis by (auto simp: wp_iff)
qed

text \<open>C31: a connection \<open>Connect\<close> returns is good and has been set up. The calls made are exactly: \<open>PQconnectdb\<close> with the
  connection string of the parameters, \<open>SELECT 1\<close>, and, when the argument or else the parameters ask for a timeout,
  \<open>SET statement_timeout\<close> with that number of milliseconds, each result cleared at once; libpq had reported the connection
  as good, the probe was answered with rows, and PostgreSQL accepted the timeout.\<close>

theorem PqConnection_Connect_configured:
  assumes "PqConnection_Connect L params err ms s = Inr ((Some c, err'), s')"
  defines "t \<equiv> (if ms > 0 then ms else cp_statement_timeout_ms params)"
    and "connected \<equiv> EvConnect (c_str (BuildConninfo params)) (Some c)"
  shows "\<exists>probe set_timeout.
    rev (events_since (history s) (history s')) = [connected, EvExec c ''SELECT 1'' (Some probe), EvClear probe] @
      (if t > 0 then [EvExec c (''SET statement_timeout = '' @ to_string t) (Some set_timeout), EvClear set_timeout] else []) \<and>
    PQstatus L (connected # history s) c \<and> PQresultStatus probe = PGRES_TUPLES_OK \<and>
    (t > 0 \<longrightarrow> PQresultStatus set_timeout = PGRES_COMMAND_OK) \<and> err' = err"
proof -
  have "wlp (PqConnection_Connect L params err ms) (\<lambda>(r, err') s'. r = Some c \<longrightarrow> (\<exists>probe set_timeout.
    rev (events_since (history s) (history s')) = [connected, EvExec c ''SELECT 1'' (Some probe), EvClear probe] @
      (if t > 0 then [EvExec c (''SET statement_timeout = '' @ to_string t) (Some set_timeout), EvClear set_timeout] else []) \<and>
    PQstatus L (connected # history s) c \<and> PQresultStatus probe = PGRES_TUPLES_OK \<and>
    (t > 0 \<longrightarrow> PQresultStatus set_timeout = PGRES_COMMAND_OK) \<and> err' = err)) s"
    unfolding PqConnection_Connect_def t_def connected_def
    by (rule wp_imp_wlp) (auto simp: wp_simps wp_ApplyStatementTimeout result_status_def Let_def split: option.splits)
  from wlpD [OF this assms(1)] show ?thesis by simp
qed

theorem PqConnection_Connect_configured_witness:
  "\<exists>err' s' probe. PqConnection_Connect (demo_libpq []) ConnectParams_init (Some []) 250 empty_world = Inr ((Some 0, err'), s') \<and>
     EvExec 0 ''SELECT 1'' (Some probe) \<in> set (history s') \<and> PQresultStatus probe = PGRES_TUPLES_OK \<and>
     ''SET statement_timeout = '' @ to_string 250 \<in> set (statements 0 (history s'))"
proof -
  have "wp (PqConnection_Connect (demo_libpq []) ConnectParams_init (Some []) 250)
      (\<lambda>(r, _) _. r = Some 0) empty_world"
    by (simp add: PqConnection_Connect_def wp_ApplyStatementTimeout wp_simps demo_eval)
  then obtain err' s' where
    run: "PqConnection_Connect (demo_libpq []) ConnectParams_init (Some []) 250 empty_world
      = Inr ((Some 0, err'), s')"
    by (auto simp: wp_iff)
  have h: "events_since (history empty_world) (history s') = history s'" by (simp add: empty_world_def events_since_def)
  from PqConnection_Connect_configured [OF run] obtain probe t where
    "rev (history s') = [EvConnect (c_str (BuildConninfo ConnectParams_init)) (Some 0), EvExec 0 ''SELECT 1'' (Some probe), EvClear probe,
       EvExec 0 (''SET statement_timeout = '' @ to_string 250) (Some t), EvClear t]" "PQresultStatus probe = PGRES_TUPLES_OK"
    unfolding h by auto
  then have "history s' = rev [EvConnect (c_str (BuildConninfo ConnectParams_init)) (Some 0), EvExec 0 ''SELECT 1'' (Some probe), EvClear probe,
       EvExec 0 (''SET statement_timeout = '' @ to_string 250) (Some t), EvClear t]" by (simp add: rev_swap)
  with run \<open>PQresultStatus probe = PGRES_TUPLES_OK\<close> show ?thesis by (intro exI conjI) auto
qed

text \<open>Without blanks in the host, database, user and password the connection string determines all
  of the parameters it is made of.\<close>

theorem BuildConninfo_injective:
  assumes eq: "BuildConninfo p = BuildConninfo q"
    and "\<forall>x \<in> {p, q}. CHR '' '' \<notin> set (cp_pg_host x @ cp_dbname x @ cp_user x @ cp_password x)"
  shows "cp_pg_host p = cp_pg_host q \<and> cp_port p = cp_port q \<and> cp_dbname p = cp_dbname q \<and>
    cp_user p = cp_user q \<and> cp_password p = cp_password q \<and>
    cp_connect_timeout_sec p = cp_connect_timeout_sec q"
proof -
  have nb: "CHR '' '' \<notin> set (cp_pg_host p)" "CHR '' '' \<notin> set (cp_dbname p)" "CHR '' '' \<notin> set (cp_user p)"
    "CHR '' '' \<notin> set (cp_password p)" "CHR '' '' \<notin> set (cp_pg_host q)" "CHR '' '' \<notin> set (cp_dbname q)"
    "CHR '' '' \<notin> set (cp_user q)" "CHR '' '' \<notin> set (cp_password q)"
    using assms(2) by simp_all
  note split = blank_split [OF _ nb(1) nb(5)] blank_split [OF _ nb(2) nb(6)] blank_split [OF _ nb(3) nb(7)]
    blank_split [OF _ nb(4) nb(8)] blank_split [OF _ to_string_no_blank to_string_no_blank]
  from eq show ?thesis
    by (auto simp: BuildConninfo_def dest!: split dest: to_string_inj)
qed

theorem BuildConninfo_injective_witness:
  "cp_user ConnectParams_init = cp_user (ConnectParams_init\<lparr>cp_statement_timeout_ms := 7\<rparr>)"
  using BuildConninfo_injective [of ConnectParams_init "ConnectParams_init\<lparr>cp_statement_timeout_ms := 7\<rparr>"]
  by (simp add: BuildConninfo_def ConnectParams_init_def)

text \<open>With blanks it does not: the values are not quoted, so a database name and user taken from a
  \<open>ConnectRequest\<close> can supply further keywords, and two different requests give one and the same
  connection string.\<close>

theorem BuildConninfo_ambiguous:
  "\<exists>p q. cp_dbname p = ''d'' \<and> cp_user p = ''u user=v'' \<and> cp_dbname q = ''d user=u'' \<and> cp_user q = ''v'' \<and>
     BuildConninfo p = BuildConninfo q"
  by (intro exI [of _ "ConnectParams_init\<lparr>cp_dbname := ''d'', cp_user := ''u user=v''\<rparr>"]
      exI [of _ "ConnectParams_init\<lparr>cp_dbname := ''d user=u'', cp_user := ''v''\<rparr>"])
    (simp add: BuildConninfo_def ConnectParams_init_def)

end
