(* ===== verification/Connection_Manager.thy ===== *)
theory Connection_Manager
  imports Pq_Conn
begin

text \<open>
  \<open>src/src/pg/connection_manager.cpp\<close>: the pool of connections the queries without a session share.
  Each method that holds \<open>mutex_\<close> is one step on the pool. \<open>Acquire\<close> is two steps, as in the code: the
  lock is given up while a new connection is opened. A thread whose condition does not hold yet has
  the left value \<open>WaitPool\<close>: it goes on only when another one changes the pool. The condition variable counts
  the threads that sleep on it and those that have been woken and have not looked again.

  The client's contract is the locale \<open>lease_provider\<close>, interpreted on \<open>Acquire\<close> and \<open>Release\<close>; the
  interleavings of many threads are in \<open>Pool_Threads\<close>.
\<close>

section \<open>The pool\<close>

record ConnectionManager =
  cm_params :: ConnectParams
  cm_pool_size :: int
  cm_configured :: bool
  cm_idle :: "conn list"
  cm_in_use :: int

definition ConnectionManager_init :: ConnectionManager where
  "ConnectionManager_init = \<lparr>cm_params = ConnectParams_init, cm_pool_size = 8, cm_configured = False,
     cm_idle = [], cm_in_use = 0\<rparr>"

text \<open>\<open>cv_\<close>: a notification wakes one of the sleeping threads, or nobody.\<close>

record CondVar =
  cv_sleeping :: nat
  cv_woken :: nat

definition CondVar_init :: CondVar where
  "CondVar_init = \<lparr>cv_sleeping = 0, cv_woken = 0\<rparr>"

definition notify_one :: "CondVar \<Rightarrow> CondVar" where
  "notify_one v =
     (case cv_sleeping v of 0 \<Rightarrow> v | Suc n \<Rightarrow> v\<lparr>cv_sleeping := n, cv_woken := Suc (cv_woken v)\<rparr>)"

record pool_world = pg_world +
  pool :: ConnectionManager
  pool_cv :: CondVar

definition notify_pool :: "('a pool_world_scheme, unit) proc" where
  "notify_pool = upd_m (\<lambda>s. s\<lparr>pool_cv := notify_one (pool_cv s)\<rparr>)"

definition upd_pool :: "(ConnectionManager \<Rightarrow> ConnectionManager) \<Rightarrow> ('a pool_world_scheme, unit) proc" where
  "upd_pool f = upd_m (\<lambda>s. s\<lparr>pool := f (pool s)\<rparr>)"

definition Configure :: "ConnectParams \<Rightarrow> int \<Rightarrow> ('a pool_world_scheme, unit) proc" where
  "Configure params pool_size =
     upd_pool (\<lambda>m. m\<lparr>cm_params := params, cm_pool_size := (if pool_size > 0 then pool_size else 1),
                     cm_configured := True\<rparr>)"

definition IsConfigured :: "('a pool_world_scheme, bool) proc" where
  "IsConfigured = get_m (\<lambda>s. cm_configured (pool s))"

definition Pool_Connect :: "libpq \<Rightarrow> err_ptr \<Rightarrow> ('a pool_world_scheme, bool \<times> err_ptr) proc" where
  "Pool_Connect L error_out =
     bind_m (get_m (\<lambda>s. cm_params (pool s))) (\<lambda>params.
     bind_m (PqConnection_Connect L params (Some []) 0) (\<lambda>(owned, error).
     case owned of
       None \<Rightarrow> ret_m (False, set_error error_out (the error))
     | Some c \<Rightarrow>
         bind_m (share_new c) (\<lambda>_.
         bind_m (upd_pool (\<lambda>m. m\<lparr>cm_idle := cm_idle m @ [c]\<rparr>)) (\<lambda>_. ret_m (True, error_out)))))"

definition CreateConnection :: "libpq \<Rightarrow> ('a pool_world_scheme, conn option) proc" where
  "CreateConnection L =
     bind_m (get_m (\<lambda>s. cm_params (pool s))) (\<lambda>params.
     bind_m (PqConnection_Connect L params (Some []) 0) (\<lambda>(owned, error).
     case owned of
       None \<Rightarrow> ret_m None
     | Some c \<Rightarrow> bind_m (share_new c) (\<lambda>_. ret_m (Some c))))"

text \<open>The first critical section of \<open>Acquire\<close>: an idle connection, or the right to open one.\<close>

definition Acquire_enter :: "('a pool_world_scheme, conn option) proc" where
  "Acquire_enter s =
     (let m = pool s in
      if cm_idle m = [] \<and> \<not> cm_in_use m < cm_pool_size m then Inl WaitPool
      else case cm_idle m of
        c # cs \<Rightarrow> Inr (Some c, s\<lparr>pool := m\<lparr>cm_idle := cs, cm_in_use := cm_in_use m + 1\<rparr>\<rparr>)
      | [] \<Rightarrow> Inr (None, s\<lparr>pool := m\<lparr>cm_in_use := cm_in_use m + 1\<rparr>\<rparr>))"

definition Acquire_create :: "libpq \<Rightarrow> ('a pool_world_scheme, conn option) proc" where
  "Acquire_create L =
     bind_m (CreateConnection L) (\<lambda>conn.
     case conn of
       None \<Rightarrow> bind_m (upd_pool (\<lambda>m. m\<lparr>cm_in_use := cm_in_use m - 1\<rparr>)) (\<lambda>_. bind_m notify_pool (\<lambda>_. ret_m None))
     | Some c \<Rightarrow> ret_m (Some c))"

definition Acquire :: "libpq \<Rightarrow> ('a pool_world_scheme, conn option) proc" where
  "Acquire L =
     bind_m Acquire_enter (\<lambda>conn.
     case conn of Some c \<Rightarrow> ret_m (Some c) | None \<Rightarrow> Acquire_create L)"

text \<open>\<open>Release\<close> owns its argument: it is moved into the idle queue or destroyed on return.\<close>

definition Release :: "libpq \<Rightarrow> conn option \<Rightarrow> bool \<Rightarrow> ('a pool_world_scheme, unit) proc" where
  "Release L conn broken =
     (case conn of
        None \<Rightarrow> ret_m ()
      | Some c \<Rightarrow>
          bind_m (upd_pool (\<lambda>m. m\<lparr>cm_in_use := cm_in_use m - 1\<rparr>)) (\<lambda>_.
          bind_m (get_m (\<lambda>s. IsHealthy L (history s) c)) (\<lambda>healthy.
          if broken \<or> \<not> healthy then bind_m notify_pool (\<lambda>_. share_drop c)
          else bind_m (upd_pool (\<lambda>m. m\<lparr>cm_idle := cm_idle m @ [c]\<rparr>)) (\<lambda>_. notify_pool))))"

definition Pool_CloseAll :: "('a pool_world_scheme, unit) proc" where
  "Pool_CloseAll =
     bind_m (get_m (\<lambda>s. cm_idle (pool s))) (\<lambda>idle.
     bind_m (share_drop_all idle) (\<lambda>_.
     upd_pool (\<lambda>m. m\<lparr>cm_idle := [], cm_configured := False\<rparr>)))"

text \<open>
  How every owner of a lease gives it back: a copy of its pointer is passed to \<open>Release\<close>, then its
  own pointer is reset.
\<close>

definition return_lease :: "libpq \<Rightarrow> conn \<Rightarrow> bool \<Rightarrow> ('a pool_world_scheme, unit) proc" where
  "return_lease L c broken =
     bind_m (share_copy c) (\<lambda>_.
     bind_m (Release L (Some c) broken) (\<lambda>_. share_drop c))"

section \<open>The interface to the pool\<close>

text \<open>
  A use of a lease: acquire, run a body on the connection, give it back. The body tells by its value
  whether the connection is broken.
\<close>

definition lease_session ::
    "('s, conn option) proc \<Rightarrow> (conn \<Rightarrow> bool \<Rightarrow> ('s, unit) proc) \<Rightarrow> (conn \<Rightarrow> ('s, bool) proc) \<Rightarrow> ('s, unit) proc" where
  "lease_session acquire give_back body =
     bind_m acquire (\<lambda>r. case r of
       None \<Rightarrow> ret_m ()
     | Some c \<Rightarrow> bind_m (body c) (\<lambda>broken. give_back c broken))"

fun lease_sessions ::
    "('s, conn option) proc \<Rightarrow> (conn \<Rightarrow> bool \<Rightarrow> ('s, unit) proc) \<Rightarrow> (conn \<Rightarrow> ('s, bool) proc) list \<Rightarrow> ('s, unit) proc" where
  "lease_sessions acquire give_back [] = ret_m ()"
| "lease_sessions acquire give_back (b # bs) =
     bind_m (lease_session acquire give_back b) (\<lambda>_. lease_sessions acquire give_back bs)"

locale lease_provider =
  fixes outstanding :: "'s \<Rightarrow> int"
    and capacity :: "'s \<Rightarrow> int"
    and acquire :: "('s, conn option) proc"
    and give_back :: "conn \<Rightarrow> bool \<Rightarrow> ('s, unit) proc"
  assumes acquire_counts: "acquire s = Inr (r, s') \<Longrightarrow>
      outstanding s' = outstanding s + (if r = None then 0 else 1) \<and> capacity s' = capacity s"
    and acquire_returns: "outstanding s < capacity s \<Longrightarrow> \<exists>r s'. acquire s = Inr (r, s')"
    and give_back_counts: "\<exists>s'. give_back c b s = Inr ((), s') \<and>
      outstanding s' = outstanding s - 1 \<and> capacity s' = capacity s"
begin

lemma session_counts:
  assumes "\<And>c s. wlp (body c) (\<lambda>_ s'. outstanding s' = outstanding s \<and> capacity s' = capacity s) s"
    and "lease_session acquire give_back body s = Inr (u, s')"
  shows "outstanding s' = outstanding s \<and> capacity s' = capacity s"
proof -
  from assms(2) obtain r s1 where acq: "acquire s = Inr (r, s1)"
    and rest: "(case r of None \<Rightarrow> ret_m () | Some c \<Rightarrow> bind_m (body c) (\<lambda>b. give_back c b)) s1 = Inr (u, s')"
    unfolding lease_session_def by (elim bind_m_InrE) auto
  show ?thesis
  proof (cases r)
    case None
    with acquire_counts [OF acq] rest show ?thesis by simp
  next
    case (Some c)
    with rest obtain b s2 where body: "body c s1 = Inr (b, s2)" and gb: "give_back c b s2 = Inr (u, s')"
      by (auto elim!: bind_m_InrE)
    from wlpD [OF assms(1) body] have "outstanding s2 = outstanding s1 \<and> capacity s2 = capacity s1" .
    with acquire_counts [OF acq] give_back_counts [of c b s2] gb Some show ?thesis by auto
  qed
qed

text \<open>
  Clients that return what they take never exhaust the provider: from any state with a free slot,
  every sequence of uses runs to its end and leaves the same number outstanding.
\<close>

lemma sessions_never_block:
  assumes "outstanding s < capacity s"
    and "\<And>b c s. b \<in> set bodies \<Longrightarrow>
      wp (b c) (\<lambda>_ s'. outstanding s' = outstanding s \<and> capacity s' = capacity s) s"
  shows "\<exists>s'. lease_sessions acquire give_back bodies s = Inr ((), s') \<and>
      outstanding s' = outstanding s \<and> capacity s' = capacity s"
  using assms
proof (induction bodies arbitrary: s)
  case Nil
  then show ?case by simp
next
  case (Cons b bs)
  obtain r s1 where acq: "acquire s = Inr (r, s1)" using acquire_returns [OF Cons.prems(1)] by blast
  have "\<exists>s2. lease_session acquire give_back b s = Inr ((), s2)"
  proof (cases r)
    case None
    then show ?thesis by (simp add: lease_session_def bind_m_def acq)
  next
    case (Some c)
    obtain x s2 where "b c s1 = Inr (x, s2)"
      using Cons.prems(2) [of b c s1] by (auto simp: wp_iff)
    moreover obtain s3 where "give_back c x s2 = Inr ((), s3)" using give_back_counts by blast
    ultimately show ?thesis by (simp add: lease_session_def bind_m_def acq Some)
  qed
  then obtain s2 where s2: "lease_session acquire give_back b s = Inr ((), s2)" by blast
  have keep: "outstanding s2 = outstanding s \<and> capacity s2 = capacity s"
    by (rule session_counts [OF _ s2]) (use Cons.prems(2) in \<open>auto intro: wp_imp_wlp\<close>)
  with Cons.prems(1) have "outstanding s2 < capacity s2" by simp
  from Cons.IH [OF this] Cons.prems(2) obtain s3 where
    "lease_sessions acquire give_back bs s2 = Inr ((), s3)" "outstanding s3 = outstanding s2"
    "capacity s3 = capacity s2" by auto
  with s2 keep show ?case by (simp add: bind_m_def)
qed

end

section \<open>Weakest preconditions of the pool's methods\<close>

lemma wp_upd_pool [wp_simps]: "wp (upd_pool f) Q s = Q () (s\<lparr>pool := f (pool s)\<rparr>)"
  by (simp add: upd_pool_def wp_simps)

lemma wp_notify_pool [wp_simps]: "wp notify_pool Q s = Q () (s\<lparr>pool_cv := notify_one (pool_cv s)\<rparr>)"
  by (simp add: notify_pool_def wp_simps)

lemma wp_CreateConnection:
  "wp (CreateConnection L) (\<lambda>r s'. \<exists>t. connect_effect s t r \<and>
      s' = (case r of None \<Rightarrow> t | Some c \<Rightarrow> t\<lparr>refs := (refs t)(c := 1)\<rparr>)) s"
proof -
  obtain r e t where run: "PqConnection_Connect L (cm_params (pool s)) (Some []) 0 s = Inr ((r, e), t)"
    and eff: "connect_effect s t r"
    by (rule PqConnection_Connect_runs)
  from eff show ?thesis
    by (cases r) (auto simp: CreateConnection_def wp_def bind_m_def run share_new_def)
qed

lemma connect_effect_same:
  assumes "connect_effect s t r"
  shows "refs t = refs s" and "held t = held s" and "pg_world.more t = pg_world.more s"
proof -
  note eq = connect_effect_eq [OF assms]
  show "refs t = refs s" using arg_cong [where f = refs, OF eq] by simp
  show "held t = held s" using arg_cong [where f = held, OF eq] by simp
  show "pg_world.more t = pg_world.more s" using arg_cong [where f = pg_world.more, OF eq] by simp
qed

lemma connect_effect_pool:
  assumes "connect_effect s t r"
  shows "pool t = pool s"
proof -
  note eq = connect_effect_eq [OF assms]
  show ?thesis using arg_cong [where f = pool, OF eq] by simp
qed

lemma Acquire_enter_cases:
  obtains (idle) c cs where "cm_idle (pool s) = c # cs"
      "Acquire_enter s = Inr (Some c, s\<lparr>pool := (pool s)\<lparr>cm_idle := cs, cm_in_use := cm_in_use (pool s) + 1\<rparr>\<rparr>)"
  | (reserve) "cm_idle (pool s) = []" "cm_in_use (pool s) < cm_pool_size (pool s)"
      "Acquire_enter s = Inr (None, s\<lparr>pool := (pool s)\<lparr>cm_in_use := cm_in_use (pool s) + 1\<rparr>\<rparr>)"
  | (wait) "cm_idle (pool s) = []" "cm_pool_size (pool s) \<le> cm_in_use (pool s)" "Acquire_enter s = Inl WaitPool"
  by (cases "cm_idle (pool s)"; cases "cm_in_use (pool s) < cm_pool_size (pool s)")
    (auto simp: Acquire_enter_def Let_def)

lemma Acquire_create_cases:
  obtains (created) c t where "connect_effect s t (Some c)"
      "Acquire_create L s = Inr (Some c, t\<lparr>refs := (refs t)(c := 1)\<rparr>)"
  | (failed) t where "connect_effect s t None"
      "Acquire_create L s = Inr (None, t\<lparr>pool := (pool s)\<lparr>cm_in_use := cm_in_use (pool s) - 1\<rparr>, pool_cv := notify_one (pool_cv t)\<rparr>)"
proof -
  from wp_CreateConnection [of L s] obtain r t s' where
    run: "CreateConnection L s = Inr (r, s')" and eff: "connect_effect s t r"
    and s': "s' = (case r of None \<Rightarrow> t | Some c \<Rightarrow> t\<lparr>refs := (refs t)(c := 1)\<rparr>)"
    by (auto simp: wp_iff)
  show thesis
  proof (cases r)
    case None
    with run s' eff connect_effect_pool [OF eff] show thesis
      by (intro failed [of t]) (simp_all add: Acquire_create_def bind_m_def upd_pool_def notify_pool_def)
  next
    case (Some c)
    with run s' eff show thesis
      by (intro created [of t c]) (simp_all add: Acquire_create_def bind_m_def)
  qed
qed

text \<open>A lease costs one slot, and a failed attempt none; the other fields of the pool stay.\<close>

lemma Acquire_pool:
  assumes "Acquire L s = Inr (r, s')"
  shows "pool s' = (pool s)\<lparr>cm_idle := tl (cm_idle (pool s)),
           cm_in_use := cm_in_use (pool s) + (if r = None then 0 else 1)\<rparr>"
proof (cases rule: Acquire_enter_cases [of s])
  case (idle c cs)
  with assms show ?thesis by (auto simp: Acquire_def bind_m_def)
next
  case reserve
  let ?s = "s\<lparr>pool := (pool s)\<lparr>cm_in_use := cm_in_use (pool s) + 1\<rparr>\<rparr>"
  have *: "Acquire L s = Acquire_create L ?s" using reserve by (simp add: Acquire_def bind_m_def)
  show ?thesis
    using assms reserve unfolding *
    by (cases rule: Acquire_create_cases [of ?s L]) (auto dest: connect_effect_pool)
next
  case wait
  with assms show ?thesis by (simp add: Acquire_def bind_m_def)
qed

lemma Acquire_returns:
  assumes "cm_idle (pool s) \<noteq> [] \<or> cm_in_use (pool s) < cm_pool_size (pool s)"
  shows "\<exists>r s'. Acquire L s = Inr (r, s')"
proof (cases rule: Acquire_enter_cases [of s])
  case (idle c cs)
  then show ?thesis by (simp add: Acquire_def bind_m_def)
next
  case reserve
  let ?s = "s\<lparr>pool := (pool s)\<lparr>cm_in_use := cm_in_use (pool s) + 1\<rparr>\<rparr>"
  show ?thesis
    by (cases rule: Acquire_create_cases [of ?s L]) (use reserve in \<open>auto simp: Acquire_def bind_m_def\<close>)
next
  case wait
  with assms show ?thesis by simp
qed

lemma Acquire_held:
  assumes "Acquire L s = Inr (r, s')"
  shows "held s' = held s"
proof (cases rule: Acquire_enter_cases [of s])
  case (idle c cs)
  with assms show ?thesis by (auto simp: Acquire_def bind_m_def)
next
  case reserve
  let ?s = "s\<lparr>pool := (pool s)\<lparr>cm_in_use := cm_in_use (pool s) + 1\<rparr>\<rparr>"
  have *: "Acquire L s = Acquire_create L ?s" using reserve by (simp add: Acquire_def bind_m_def)
  show ?thesis
    using assms unfolding *
    by (cases rule: Acquire_create_cases [of ?s L]) (auto dest!: connect_effect_same(2))
next
  case wait
  with assms show ?thesis by (simp add: Acquire_def bind_m_def)
qed

lemma Acquire_blocked:
  "Acquire L s = Inl b \<longleftrightarrow>
     b = WaitPool \<and> cm_idle (pool s) = [] \<and> cm_pool_size (pool s) \<le> cm_in_use (pool s)"
proof (cases rule: Acquire_enter_cases [of s])
  case reserve
  then show ?thesis using Acquire_returns [of s L] by auto
qed (auto simp: Acquire_def bind_m_def)

text \<open>A server that accepts connections and answers the probe: then a free slot gives a connection.\<close>

definition accepts_connections :: "libpq \<Rightarrow> bool" where
  "accepts_connections L \<longleftrightarrow>
     (\<forall>h info. PQconnectdb L h info) \<and> (\<forall>h c. PQstatus L h c) \<and>
     (\<forall>h c. \<exists>x. PQexec L h c ''SELECT 1'' = Some x \<and> PQresultStatus x = PGRES_TUPLES_OK)"

lemma accepts_demo_libpq: "accepts_connections (demo_libpq rows)"
  by (simp add: accepts_connections_def demo_libpq_def demo_exec_def)

lemma accepting_Acquire:
  assumes L: "accepts_connections L" and t: "cp_statement_timeout_ms (cm_params (pool s)) \<le> 0"
    and free: "cm_idle (pool s) = []" "cm_in_use (pool s) < cm_pool_size (pool s)"
  shows "\<exists>s'. Acquire L s = Inr (Some (next_conn s), s')"
proof -
  let ?s = "s\<lparr>pool := (pool s)\<lparr>cm_in_use := cm_in_use (pool s) + 1\<rparr>\<rparr>"
  have p: "\<exists>x. PQexec L h c ''SELECT 1'' = Some x \<and> PQresultStatus x = PGRES_TUPLES_OK" for h c
    using L by (simp add: accepts_connections_def)
  obtain x where x: "PQexec L (EvConnect (c_str (BuildConninfo (cm_params (pool s)))) (Some (next_conn s)) # history s)
      (next_conn s) ''SELECT 1'' = Some x" "PQresultStatus x = PGRES_TUPLES_OK"
    using p by blast
  have "wp (CreateConnection L) (\<lambda>r _. r = Some (next_conn s)) ?s"
    using L t x
    by (simp add: CreateConnection_def PqConnection_Connect_def ApplyStatementTimeout_def wp_simps accepts_connections_def
        result_status_def Let_def)
  then obtain s' where "CreateConnection L ?s = Inr (Some (next_conn s), s')" by (auto simp: wp_iff)
  with free show ?thesis by (simp add: Acquire_def Acquire_enter_def Acquire_create_def bind_m_def Let_def)
qed

lemma wp_Release:
  "wp (Release L (Some c) broken) Q s =
     (let m = (pool s)\<lparr>cm_in_use := cm_in_use (pool s) - 1\<rparr> in
      if broken \<or> \<not> PQstatus L (history s) c
      then Q () (s\<lparr>pool := m, pool_cv := notify_one (pool_cv s), refs := (refs s)(c := refs s c - 1),
                   history := (if refs s c = 1 then [EvFinish c] else []) @ history s\<rparr>)
      else Q () (s\<lparr>pool := m\<lparr>cm_idle := cm_idle m @ [c]\<rparr>, pool_cv := notify_one (pool_cv s)\<rparr>))"
  by (simp add: Release_def wp_simps IsHealthy_def Let_def)

lemma wp_return_lease:
  assumes "1 \<le> refs s c"
  shows "wp (return_lease L c broken) Q s =
     (let m = (pool s)\<lparr>cm_in_use := cm_in_use (pool s) - 1\<rparr> in
      if broken \<or> \<not> PQstatus L (history s) c
      then Q () (s\<lparr>pool := m, pool_cv := notify_one (pool_cv s), refs := (refs s)(c := refs s c - 1),
                   history := (if refs s c = 1 then [EvFinish c] else []) @ history s\<rparr>)
      else Q () (s\<lparr>pool := m\<lparr>cm_idle := cm_idle m @ [c]\<rparr>, pool_cv := notify_one (pool_cv s)\<rparr>))"
  using assms by (auto simp: return_lease_def wp_simps wp_Release Let_def)

text \<open>The pool keeps the contract of a lease provider.\<close>

interpretation pq_pool: lease_provider
  "\<lambda>s :: 'a pool_world_scheme. cm_in_use (pool s)" "\<lambda>s. cm_pool_size (pool s)" "Acquire L" "return_lease L"
  for L
proof
  fix s s' :: "'a pool_world_scheme" and r
  assume "Acquire L s = Inr (r, s')"
  then show "cm_in_use (pool s') = cm_in_use (pool s) + (if r = None then 0 else 1) \<and>
      cm_pool_size (pool s') = cm_pool_size (pool s)"
    by (simp add: Acquire_pool)
next
  fix s :: "'a pool_world_scheme"
  assume "cm_in_use (pool s) < cm_pool_size (pool s)"
  then show "\<exists>r s'. Acquire L s = Inr (r, s')" by (simp add: Acquire_returns)
next
  fix c b and s :: "'a pool_world_scheme"
  have "wp (return_lease L c b) (\<lambda>_ s'. cm_in_use (pool s') = cm_in_use (pool s) - 1 \<and>
      cm_pool_size (pool s') = cm_pool_size (pool s)) s"
    by (simp add: return_lease_def wp_simps wp_Release Let_def)
  then show "\<exists>s'. return_lease L c b s = Inr ((), s') \<and> cm_in_use (pool s') = cm_in_use (pool s) - 1 \<and>
      cm_pool_size (pool s') = cm_pool_size (pool s)"
    by (simp add: wp_iff)
qed

section \<open>Correctness of the pool\<close>

text \<open>C16: \<open>Acquire\<close> waits exactly when no connection is idle and the limit is reached; otherwise it
  returns. An idle connection is handed out in the order of return and without touching PostgreSQL;
  a new one is opened only below the limit; a failed attempt leaves the pool as it was.\<close>

theorem Acquire_behaviour:
  "(Acquire L s = Inl b \<longleftrightarrow>
      b = WaitPool \<and> cm_idle (pool s) = [] \<and> cm_pool_size (pool s) \<le> cm_in_use (pool s)) \<and>
   (Acquire L s = Inr (r, s') \<longrightarrow>
      (case cm_idle (pool s) of
         c # cs \<Rightarrow> r = Some c \<and>
           s' = s\<lparr>pool := (pool s)\<lparr>cm_idle := cs, cm_in_use := cm_in_use (pool s) + 1\<rparr>\<rparr>
       | [] \<Rightarrow> cm_in_use (pool s) < cm_pool_size (pool s) \<and>
           (case r of None \<Rightarrow> pool s' = pool s
            | Some c \<Rightarrow> c = next_conn s \<and> pool s' = (pool s)\<lparr>cm_in_use := cm_in_use (pool s) + 1\<rparr>)))"
proof (cases rule: Acquire_enter_cases [of s])
  case (idle c cs)
  then show ?thesis by (auto simp: Acquire_def bind_m_def)
next
  case reserve
  let ?s = "s\<lparr>pool := (pool s)\<lparr>cm_in_use := cm_in_use (pool s) + 1\<rparr>\<rparr>"
  have *: "Acquire L s = Acquire_create L ?s" using reserve by (simp add: Acquire_def bind_m_def)
  show ?thesis
  proof (cases rule: Acquire_create_cases [of ?s L])
    case (created c t)
    have "c = next_conn ?s" by (rule connect_effect_frame [OF created(1)]) simp
    with created reserve connect_effect_pool [OF created(1)] show ?thesis by (auto simp: *)
  next
    case (failed t)
    with reserve show ?thesis by (auto simp: *)
  qed
next
  case wait
  then show ?thesis by (auto simp: Acquire_def bind_m_def)
qed

definition demo_pool :: "int \<Rightarrow> pool_world" where
  "demo_pool n = \<lparr>history = [], next_conn = 0, refs = (\<lambda>_. 0), held = {},
     pool = ConnectionManager_init\<lparr>cm_pool_size := n\<rparr>, pool_cv = CondVar_init\<rparr>"

theorem Acquire_behaviour_witness: "Acquire (demo_libpq []) (demo_pool 0) = Inl WaitPool"
  using Acquire_behaviour [of "demo_libpq []" "demo_pool 0" WaitPool]
  by (simp add: demo_pool_def ConnectionManager_init_def)

text \<open>Clients that give back every connection they take do not use the pool up: while one slot is
  free, any sequence of uses by one thread, each of which may break its connection or fail to get one, runs to its
  end without waiting and leaves the number of connections in use as it was.\<close>

theorem pool_sessions_never_block:
  assumes "cm_in_use (pool s) < cm_pool_size (pool s)"
    and "\<forall>b \<in> set bodies. \<forall>c s. wp (b c) (\<lambda>_ s'. pool s' = pool s) s"
  shows "\<exists>s'. lease_sessions (Acquire L) (return_lease L) bodies s = Inr ((), s') \<and>
    cm_in_use (pool s') = cm_in_use (pool s)"
proof -
  have "wp (b c) (\<lambda>_ s'. cm_in_use (pool s') = cm_in_use (pool s) \<and>
      cm_pool_size (pool s') = cm_pool_size (pool s)) s" if "b \<in> set bodies" for b c s
  proof (rule wp_mono)
    show "wp (b c) (\<lambda>_ s'. pool s' = pool s) s" using assms(2) that by blast
  qed simp
  then have "\<exists>s'. lease_sessions (Acquire L) (return_lease L) bodies s = Inr ((), s') \<and>
      cm_in_use (pool s') = cm_in_use (pool s) \<and> cm_pool_size (pool s') = cm_pool_size (pool s)"
    by (rule pq_pool.sessions_never_block [OF assms(1)])
  then show ?thesis by auto
qed

theorem pool_sessions_never_block_witness:
  "\<exists>s'. lease_sessions (Acquire (demo_libpq [])) (return_lease (demo_libpq []))
      [\<lambda>c. bind_m (PQexec_m (demo_libpq []) c ''VACUUM'') (\<lambda>_. ret_m False), \<lambda>c. ret_m True] (demo_pool 8)
      = Inr ((), s') \<and> cm_in_use (pool s') = 0"
  using pool_sessions_never_block [of "demo_pool 8"
      "[\<lambda>c. bind_m (PQexec_m (demo_libpq []) c ''VACUUM'') (\<lambda>_. ret_m False), \<lambda>c. ret_m True]" "demo_libpq []"]
  by (simp add: demo_pool_def ConnectionManager_init_def wp_simps)

text \<open>\<open>Configure\<close> replaces the parameters but keeps the idle connections: whatever is idle when a
  client connects with another database or user is handed to the next query as it is, without a new
  connection being opened with the new parameters.\<close>

theorem Configure_keeps_idle_connections:
  assumes "cm_idle (pool s) = c # cs"
  shows "\<exists>s'. bind_m (Configure params n) (\<lambda>_. Acquire L) s = Inr (Some c, s') \<and>
    cm_params (pool s') = params \<and> history s' = history s"
  using assms by (simp add: Configure_def upd_pool_def bind_m_def Acquire_def Acquire_enter_def Let_def)

theorem Configure_keeps_idle_connections_witness:
  "\<exists>s'. bind_m (Configure (ConnectParams_init\<lparr>cp_user := ''other''\<rparr>) 1) (\<lambda>_. Acquire (demo_libpq []))
      ((demo_pool 1)\<lparr>pool := ConnectionManager_init\<lparr>cm_idle := [0]\<rparr>\<rparr>) = Inr (Some 0, s') \<and>
    cp_user (cm_params (pool s')) = ''other'' \<and> history s' = []"
  using Configure_keeps_idle_connections [of "(demo_pool 1)\<lparr>pool := ConnectionManager_init\<lparr>cm_idle := [0]\<rparr>\<rparr>" 0 "[]"
      "ConnectParams_init\<lparr>cp_user := ''other''\<rparr>" 1 "demo_libpq []"]
  by (auto simp: demo_pool_def)

end
