(* ===== verification/Session_Store.thy ===== *)
theory Session_Store
  imports Connection_Manager "HOL-Library.AList"
begin

text \<open>
  \<open>src/src/pg/session_store.cpp\<close>: connections pinned to a session id, outside the pool. The
  \<open>unordered_map\<close> is an association list with distinct keys; each method holds \<open>mutex_\<close> throughout and
  is one step.
\<close>

record SessionStore =
  ss_max_sessions :: int
  ss_sessions :: "(string \<times> conn) list"

definition SessionStore_init :: "int \<Rightarrow> SessionStore" where
  "SessionStore_init max_sessions =
     \<lparr>ss_max_sessions = (if max_sessions > 0 then max_sessions else 1), ss_sessions = []\<rparr>"

record store_world = pool_world +
  session_store :: SessionStore

definition upd_sessions ::
    "((string \<times> conn) list \<Rightarrow> (string \<times> conn) list) \<Rightarrow> ('a store_world_scheme, unit) proc" where
  "upd_sessions f =
     upd_m (\<lambda>s. s\<lparr>session_store := (session_store s)\<lparr>ss_sessions := f (ss_sessions (session_store s))\<rparr>\<rparr>)"

text \<open>
  \<open>GetOrCreate\<close>: a stored pointer is copied to the caller. An unhealthy one is erased first; the size
  is then compared as an \<open>int\<close>; a new connection has two owners, the map and the caller.
\<close>

definition open_session ::
    "libpq \<Rightarrow> string \<Rightarrow> ConnectParams \<Rightarrow> err_ptr \<Rightarrow> ('a store_world_scheme, conn option \<times> err_ptr) proc" where
  "open_session L session_id params error_out =
     bind_m (get_m (\<lambda>s. cast_int32 (int (length (ss_sessions (session_store s))))
                          \<ge> ss_max_sessions (session_store s))) (\<lambda>full.
     if full then ret_m (None, set_error error_out ''session limit exceeded'')
     else
       bind_m (PqConnection_Connect L params (Some []) 0) (\<lambda>(owned, error).
       case owned of
         None \<Rightarrow> ret_m (None, set_error error_out (the error))
       | Some c \<Rightarrow>
           bind_m (share_new c) (\<lambda>_.
           bind_m (share_copy c) (\<lambda>_.
           bind_m (upd_sessions (AList.update session_id c)) (\<lambda>_.
           ret_m (Some c, error_out))))))"

definition GetOrCreate ::
    "libpq \<Rightarrow> string \<Rightarrow> ConnectParams \<Rightarrow> err_ptr \<Rightarrow> ('a store_world_scheme, conn option \<times> err_ptr) proc" where
  "GetOrCreate L session_id params error_out =
     (if session_id = [] then ret_m (None, error_out)
      else
        bind_m (get_m (\<lambda>s. map_of (ss_sessions (session_store s)) session_id)) (\<lambda>it.
        case it of
          None \<Rightarrow> open_session L session_id params error_out
        | Some c \<Rightarrow>
            bind_m (get_m (\<lambda>s. IsHealthy L (history s) c)) (\<lambda>healthy.
            if healthy then bind_m (share_copy c) (\<lambda>_. ret_m (Some c, error_out))
            else
              bind_m (upd_sessions (AList.delete session_id)) (\<lambda>_.
              bind_m (share_drop c) (\<lambda>_.
              open_session L session_id params error_out)))))"

definition Store_CloseAll :: "('a store_world_scheme, unit) proc" where
  "Store_CloseAll =
     bind_m (get_m (\<lambda>s. map snd (ss_sessions (session_store s)))) (\<lambda>cs.
     bind_m (share_drop_all cs) (\<lambda>_. upd_sessions (\<lambda>_. [])))"

definition Store_Size :: "('a store_world_scheme, nat) proc" where
  "Store_Size = get_m (\<lambda>s. length (ss_sessions (session_store s)))"

section \<open>Invariant\<close>

text \<open>
  At most \<open>max_sessions\<close> entries, one per id; no two sessions share a connection; every stored
  connection is open and owned by the store.
\<close>

definition store_inv :: "'a store_world_scheme \<Rightarrow> bool" where
  "store_inv s \<longleftrightarrow>
     (let m = ss_sessions (session_store s) in
       1 \<le> ss_max_sessions (session_store s) \<and> ss_max_sessions (session_store s) \<le> INT_MAX \<and>
       int (length m) \<le> ss_max_sessions (session_store s) \<and>
       distinct (map fst m) \<and> distinct (map snd m) \<and>
       (\<forall>c \<in> snd ` set m. c < next_conn s \<and> 1 \<le> refs s c \<and> c \<notin> finished (history s)) \<and>
       (\<forall>c \<in> finished (history s). c < next_conn s))"

lemma wp_upd_sessions [wp_simps]:
  "wp (upd_sessions f) Q s =
     Q () (s\<lparr>session_store := (session_store s)\<lparr>ss_sessions := f (ss_sessions (session_store s))\<rparr>\<rparr>)"
  by (simp add: upd_sessions_def wp_simps)

lemma connect_effect_store:
  assumes "connect_effect s t r"
  shows "session_store t = session_store s"
  using arg_cong [where f = session_store, OF connect_effect_eq [OF assms]] by simp

text \<open>The state after the lookup: a stored connection that is not healthy is gone.\<close>

definition evict :: "string \<Rightarrow> 'a store_world_scheme \<Rightarrow> 'a store_world_scheme" where
  "evict session_id s =
     (case map_of (ss_sessions (session_store s)) session_id of
        None \<Rightarrow> s
      | Some c \<Rightarrow> s\<lparr>session_store := (session_store s)\<lparr>ss_sessions :=
                    AList.delete session_id (ss_sessions (session_store s))\<rparr>,
                  refs := (refs s)(c := refs s c - 1),
                  history := (if refs s c = 1 then [EvFinish c] else []) @ history s\<rparr>)"

lemma GetOrCreate_cases [consumes 1, case_names stored full failed opened]:
  assumes "session_id \<noteq> []"
  obtains (stored) c where "map_of (ss_sessions (session_store s)) session_id = Some c" "PQstatus L (history s) c"
      "GetOrCreate L session_id params err s =
         Inr ((Some c, err), s\<lparr>refs := (refs s)(c := Suc (refs s c))\<rparr>)"
  | (full) "\<forall>c. map_of (ss_sessions (session_store s)) session_id = Some c \<longrightarrow> \<not> PQstatus L (history s) c"
      "ss_max_sessions (session_store s) \<le> cast_int32 (int (length (ss_sessions (session_store (evict session_id s)))))"
      "GetOrCreate L session_id params err s = Inr ((None, set_error err ''session limit exceeded''), evict session_id s)"
  | (failed) t e where "\<forall>c. map_of (ss_sessions (session_store s)) session_id = Some c \<longrightarrow> \<not> PQstatus L (history s) c"
      "cast_int32 (int (length (ss_sessions (session_store (evict session_id s))))) < ss_max_sessions (session_store s)"
      "connect_effect (evict session_id s) t None"
      "GetOrCreate L session_id params err s = Inr ((None, set_error err e), t)"
  | (opened) t c where "\<forall>c. map_of (ss_sessions (session_store s)) session_id = Some c \<longrightarrow> \<not> PQstatus L (history s) c"
      "cast_int32 (int (length (ss_sessions (session_store (evict session_id s))))) < ss_max_sessions (session_store s)"
      "connect_effect (evict session_id s) t (Some c)"
      "GetOrCreate L session_id params err s = Inr ((Some c, err),
         t\<lparr>refs := (refs t)(c := 2), session_store := (session_store t)\<lparr>ss_sessions :=
            AList.update session_id c (ss_sessions (session_store t))\<rparr>\<rparr>)"
proof -
  define m where "m = map_of (ss_sessions (session_store s)) session_id"
  show thesis
  proof (cases "\<exists>c. m = Some c \<and> PQstatus L (history s) c")
    case True
    then obtain c where "m = Some c" "PQstatus L (history s) c" by blast
    with assms show thesis
      by (intro stored [of c]) (simp_all add: m_def GetOrCreate_def bind_m_def IsHealthy_def share_copy_def)
  next
    case False
    then have no: "\<forall>c. map_of (ss_sessions (session_store s)) session_id = Some c \<longrightarrow> \<not> PQstatus L (history s) c"
      by (simp add: m_def)
    then have go: "GetOrCreate L session_id params err s = open_session L session_id params err (evict session_id s)"
      using assms
      by (auto simp: GetOrCreate_def bind_m_def IsHealthy_def evict_def upd_sessions_def share_drop_def
          PQfinish_m_def record_event_def split: option.splits)
    have max: "ss_max_sessions (session_store (evict session_id s)) = ss_max_sessions (session_store s)"
      by (simp add: evict_def split: option.split)
    obtain r e t where run: "PqConnection_Connect L params (Some []) 0 (evict session_id s) = Inr ((r, e), t)"
      and eff: "connect_effect (evict session_id s) t r"
      by (rule PqConnection_Connect_runs)
    note res = go [unfolded open_session_def] max run eff
    show thesis
    proof (cases "ss_max_sessions (session_store s) \<le>
        cast_int32 (int (length (ss_sessions (session_store (evict session_id s)))))")
      case True
      with res show thesis by (intro full no) (simp_all add: bind_m_def)
    next
      case below: False
      show thesis
      proof (cases r)
        case None
        with res below show thesis by (intro failed [OF no, of t "the e"]) (simp_all add: bind_m_def)
      next
        case (Some c)
        with res below show thesis
          by (intro opened [OF no, of t c])
            (simp_all add: bind_m_def share_new_def share_copy_def upd_sessions_def numeral_2_eq_2)
      qed
    qed
  qed
qed

lemma set_AList_delete: "snd ` set (AList.delete k m) \<subseteq> snd ` set m"
  by (auto simp: AList.delete_eq)

lemma distinct_snd_delete: "distinct (map snd m) \<Longrightarrow> distinct (map snd (AList.delete k m))"
  by (simp add: AList.delete_eq distinct_map_filter)

lemma delete_removes_value:
  assumes "distinct (map snd m)" "map_of m k = Some c"
  shows "c \<notin> snd ` set (AList.delete k m)"
proof
  assume "c \<in> snd ` set (AList.delete k m)"
  then obtain k' where k': "(k', c) \<in> set m" "k' \<noteq> k" by (auto simp: AList.delete_eq)
  from assms(2) have "(k, c) \<in> set m" by (rule map_of_SomeD)
  with k' assms(1) show False by (metis distinct_map inj_onD prod.inject snd_conv)
qed

lemma store_inv_evict:
  assumes "store_inv s"
  shows "store_inv (evict session_id s)" and "session_id \<notin> fst ` set (ss_sessions (session_store (evict session_id s)))"
proof -
  let ?m = "ss_sessions (session_store s)"
  show "session_id \<notin> fst ` set (ss_sessions (session_store (evict session_id s)))"
    by (auto simp: evict_def AList.delete_eq map_of_eq_None_iff split: option.split)
  show "store_inv (evict session_id s)"
  proof (cases "map_of ?m session_id")
    case None
    with assms show ?thesis by (simp add: evict_def)
  next
    case (Some c)
    have inv: "distinct (map fst ?m)" "distinct (map snd ?m)" "int (length ?m) \<le> ss_max_sessions (session_store s)"
      "\<forall>c \<in> snd ` set ?m. c < next_conn s \<and> 1 \<le> refs s c \<and> c \<notin> finished (history s)"
      "\<forall>c \<in> finished (history s). c < next_conn s"
      using assms by (simp_all add: store_inv_def Let_def)
    have c: "c \<notin> snd ` set (AList.delete session_id ?m)" by (rule delete_removes_value [OF inv(2) Some])
    have "c < next_conn s" using inv(4) map_of_SomeD [OF Some] by force
    moreover have "int (length (AList.delete session_id ?m)) \<le> ss_max_sessions (session_store s)"
      using inv(3) length_delete_le [of session_id ?m] by linarith
    moreover have "d \<noteq> c \<and> d < next_conn s \<and> 1 \<le> refs s d \<and> d \<notin> finished (history s)"
      if "d \<in> snd ` set (AList.delete session_id ?m)" for d
      using c that inv(4) set_AList_delete [of session_id ?m] by blast
    ultimately show ?thesis
      using assms inv(5) Some distinct_delete [OF inv(1)] distinct_snd_delete [OF inv(2)]
      unfolding store_inv_def Let_def evict_def by simp
  qed
qed

lemma connect_effect_store_inv:
  assumes inv: "store_inv s" and eff: "connect_effect s t r"
  shows "store_inv t"
    and "\<And>c. r = Some c \<Longrightarrow> c \<notin> snd ` set (ss_sessions (session_store s)) \<and> c < next_conn t \<and> c \<notin> finished (history t)"
proof -
  obtain new where new: "history t = new @ history s" "next_conn s \<le> next_conn t"
    "\<forall>c \<in> finished new. next_conn s \<le> c \<and> c < next_conn t"
    and r: "\<forall>c. r = Some c \<longrightarrow> c = next_conn s \<and> next_conn t = Suc c \<and> c \<notin> finished new"
    by (rule connect_effect_frame [OF eff])
  have old: "c < next_conn t \<and> 1 \<le> refs s c \<and> c \<notin> finished (history t) \<and> c \<noteq> next_conn s"
    if "c \<in> snd ` set (ss_sessions (session_store s))" for c
  proof -
    from inv that have "c < next_conn s" "1 \<le> refs s c" "c \<notin> finished (history s)"
      unfolding store_inv_def Let_def by blast+
    with new show ?thesis by auto
  qed
  have fin: "\<forall>c \<in> finished (history t). c < next_conn t"
    using inv new unfolding store_inv_def Let_def by auto
  show "store_inv t"
    using inv old fin
    unfolding store_inv_def Let_def connect_effect_store [OF eff] connect_effect_same(1) [OF eff] by blast
  fix c assume "r = Some c"
  with r new inv old show "c \<notin> snd ` set (ss_sessions (session_store s)) \<and> c < next_conn t \<and> c \<notin> finished (history t)"
    unfolding store_inv_def Let_def by fastforce
qed

lemma update_fresh: "k \<notin> fst ` set m \<Longrightarrow> AList.update k v m = m @ [(k, v)]"
  by (induction m) auto

lemma store_inv_insert:
  assumes inv: "store_inv t" and "int (length (ss_sessions (session_store t))) < ss_max_sessions (session_store t)"
    and k: "session_id \<notin> fst ` set (ss_sessions (session_store t))"
    and c: "c \<notin> snd ` set (ss_sessions (session_store t))" "c < next_conn t" "c \<notin> finished (history t)"
  shows "store_inv (t\<lparr>refs := (refs t)(c := 2), session_store := (session_store t)\<lparr>ss_sessions :=
            AList.update session_id c (ss_sessions (session_store t))\<rparr>\<rparr>)"
proof -
  have "d < next_conn t \<and> 1 \<le> refs t d \<and> d \<notin> finished (history t)"
    if "d \<in> snd ` set (ss_sessions (session_store t))" for d
    using inv that unfolding store_inv_def Let_def by blast
  then show ?thesis
    using assms unfolding store_inv_def Let_def update_fresh [OF k] by auto
qed

lemma GetOrCreate_inv:
  assumes inv: "store_inv s" and id: "session_id \<noteq> []"
    and run: "GetOrCreate L session_id params err s = Inr ((r, err'), s')"
  shows "store_inv s' \<and>
    (\<forall>c. r = Some c \<longrightarrow> map_of (ss_sessions (session_store s')) session_id = Some c \<and> 2 \<le> refs s' c)"
  using id
proof (cases rule: GetOrCreate_cases [where s = s and L = L and params = params and err = err])
  case (stored c)
  then have c: "c \<in> snd ` set (ss_sessions (session_store s))" by (force dest: map_of_SomeD)
  then have refs: "1 \<le> refs s c" using inv unfolding store_inv_def Let_def by blast
  have s': "r = Some c" "s' = s\<lparr>refs := (refs s)(c := Suc (refs s c))\<rparr>" using run stored(3) by simp_all
  have "store_inv s'" using inv unfolding s' store_inv_def Let_def by (auto simp: image_iff)
  with s' stored(1) refs show ?thesis by simp
next
  case full
  with run store_inv_evict(1) [OF inv, of session_id] show ?thesis by auto
next
  case (failed t e)
  with run connect_effect_store_inv(1) [OF store_inv_evict(1) [OF inv]] show ?thesis by simp
next
  case (opened t c)
  let ?e = "evict session_id s"
  note I = connect_effect_store_inv [OF store_inv_evict(1) [OF inv] opened(3)]
  note st = connect_effect_store [OF opened(3)]
  have max: "ss_max_sessions (session_store ?e) = ss_max_sessions (session_store s)"
    by (simp add: evict_def split: option.split)
  have len: "int (length (ss_sessions (session_store ?e))) \<le> INT_MAX"
    using store_inv_evict(1) [OF inv, of session_id] unfolding store_inv_def Let_def by linarith
  then have "int (length (ss_sessions (session_store t))) < ss_max_sessions (session_store t)"
    using opened(2) max by (simp add: st INT_MAX_def)
  moreover have "session_id \<notin> fst ` set (ss_sessions (session_store t))"
    using store_inv_evict(2) [OF inv] by (simp add: st)
  moreover have "c \<notin> snd ` set (ss_sessions (session_store t))" "c < next_conn t" "c \<notin> finished (history t)"
    using I(2) [of c] by (simp_all add: st)
  ultimately show ?thesis
    using run opened(4) store_inv_insert [OF I(1)] by (auto simp: update_conv')
qed

lemma GetOrCreate_frame:
  assumes "GetOrCreate L session_id params err s = Inr ((r, err'), s')"
  shows "pool s' = pool s" and "held s' = held s"
proof -
  have evict: "pool (evict session_id s) = pool s" "held (evict session_id s) = held s"
    by (simp_all add: evict_def split: option.split)
  have "pool s' = pool s \<and> held s' = held s"
  proof (cases "session_id = []")
    case True
    with assms show ?thesis by (simp add: GetOrCreate_def)
  next
    case False
    then show ?thesis
      by (cases rule: GetOrCreate_cases [where s = s and L = L and params = params and err = err])
        (use assms evict in \<open>auto dest: connect_effect_pool connect_effect_same(2)\<close>)
  qed
  then show "pool s' = pool s" "held s' = held s" by simp_all
qed

lemma GetOrCreate_returns: "\<exists>r s'. GetOrCreate L session_id params err s = Inr (r, s')"
proof (cases "session_id = []")
  case True
  then show ?thesis by (simp add: GetOrCreate_def)
next
  case False
  then show ?thesis
    by (cases rule: GetOrCreate_cases [where s = s and L = L and params = params and err = err]) blast+
qed

section \<open>Correctness of the session store\<close>

definition demo_store :: "int \<Rightarrow> store_world" where
  "demo_store n = \<lparr>history = [], next_conn = 0, refs = (\<lambda>_. 0), held = {}, pool = ConnectionManager_init, pool_cv = CondVar_init,
     session_store = SessionStore_init n\<rparr>"

lemma demo_store_inv: "store_inv (demo_store 1)"
  by (simp add: store_inv_def demo_store_def SessionStore_init_def INT_MAX_def)

lemma demo_store_run:
  obtains s where "GetOrCreate (demo_libpq []) ''a'' ConnectParams_init (Some []) (demo_store 1) = Inr ((Some 0, Some []), s)"
    and "ss_sessions (session_store s) = [(''a'', 0)]" and "ss_max_sessions (session_store s) = 1"
proof -
  have "wp (GetOrCreate (demo_libpq []) ''a'' ConnectParams_init (Some [])) (\<lambda>r s. r = (Some 0, Some []) \<and>
      ss_sessions (session_store s) = [(''a'', 0)] \<and> ss_max_sessions (session_store s) = 1) (demo_store 1)"
    by (simp add: GetOrCreate_def open_session_def PqConnection_Connect_def ApplyStatementTimeout_def wp_simps demo_eval
        demo_store_def SessionStore_init_def ConnectParams_init_def)
  then show thesis by (auto simp: wp_iff intro: that)
qed

text \<open>C25: The store never holds more than \<open>max_sessions\<close> sessions, never two for one id, and never the
  same connection for two ids; a stored connection is open and owned by the store. \<open>GetOrCreate\<close> keeps
  this, and the connection it returns is the one stored for the id, shared with the caller.\<close>

theorem GetOrCreate_limits_sessions:
  assumes "store_inv s" and "session_id \<noteq> []"
    and "GetOrCreate L session_id params err s = Inr ((r, err'), s')"
  shows "int (length (ss_sessions (session_store s'))) \<le> ss_max_sessions (session_store s') \<and>
    distinct (map fst (ss_sessions (session_store s'))) \<and> distinct (map snd (ss_sessions (session_store s'))) \<and>
    (\<forall>c \<in> snd ` set (ss_sessions (session_store s')). 1 \<le> refs s' c \<and> c \<notin> finished (history s')) \<and>
    (\<forall>c. r = Some c \<longrightarrow> map_of (ss_sessions (session_store s')) session_id = Some c \<and> 2 \<le> refs s' c) \<and>
    store_inv s'"
  using GetOrCreate_inv [OF assms] unfolding store_inv_def Let_def by blast

theorem GetOrCreate_limits_sessions_witness:
  "\<exists>s'. GetOrCreate (demo_libpq []) ''a'' ConnectParams_init (Some []) (demo_store 1) = Inr ((Some 0, Some []), s') \<and>
     map_of (ss_sessions (session_store s')) ''a'' = Some 0 \<and> 2 \<le> refs s' 0"
proof (rule demo_store_run)
  fix s assume run: "GetOrCreate (demo_libpq []) ''a'' ConnectParams_init (Some []) (demo_store 1) = Inr ((Some 0, Some []), s)"
  from GetOrCreate_limits_sessions [OF demo_store_inv _ run] run show ?thesis by (intro exI [of _ s]) simp
qed

text \<open>A sequence of calls of the store, by any sessions.\<close>

fun store_calls :: "libpq \<Rightarrow> (string \<times> ConnectParams \<times> err_ptr) list \<Rightarrow> ('a store_world_scheme, (conn option \<times> err_ptr) list) proc" where
  "store_calls L [] = ret_m []"
| "store_calls L ((k, params, err) # calls) =
     bind_m (GetOrCreate L k params err) (\<lambda>r. bind_m (store_calls L calls) (\<lambda>rs. ret_m (r # rs)))"

text \<open>A call for one id leaves the sessions of the others alone, and only adds to the history.\<close>

lemma GetOrCreate_others:
  assumes "GetOrCreate L k params err s = Inr (r, s')"
  shows "k \<noteq> k' \<Longrightarrow> map_of (ss_sessions (session_store s')) k' = map_of (ss_sessions (session_store s)) k'"
    and "extends (history s) (history s')"
proof -
  have evict: "k \<noteq> k' \<Longrightarrow> map_of (ss_sessions (session_store (evict k s))) k' = map_of (ss_sessions (session_store s)) k'"
    "extends (history s) (history (evict k s))"
    by (auto simp: evict_def delete_conv' split: option.split)
  have connect: "extends (history (evict k s)) (history t)" if "connect_effect (evict k s) t x" for t x
    by (rule connect_effect_frame [OF that]) (auto simp: extends_def)
  show "k \<noteq> k' \<Longrightarrow> map_of (ss_sessions (session_store s')) k' = map_of (ss_sessions (session_store s)) k'" "extends (history s) (history s')"
    by (cases "k = []", use assms in \<open>simp add: GetOrCreate_def\<close>,
        cases rule: GetOrCreate_cases [where session_id = k and s = s and L = L and params = params and err = err],
        use assms evict extends_trans [OF evict(2) connect] in \<open>auto simp: update_conv' dest: connect_effect_store\<close>)+
qed

lemma store_calls_pinned:
  assumes "store_calls L calls s = Inr (rs, s')" "store_inv s" "sid \<noteq> []" "map_of (ss_sessions (session_store s)) sid = Some c"
    "\<forall>h. extends (history s) h \<longrightarrow> PQstatus L h c" "\<forall>(k, params, err) \<in> set calls. k \<noteq> []"
  shows "store_inv s' \<and> map_of (ss_sessions (session_store s')) sid = Some c \<and> extends (history s) (history s') \<and> length rs = length calls \<and>
    (\<forall>i < length calls. fst (calls ! i) = sid \<longrightarrow> fst (rs ! i) = Some c)"
  using assms
proof (induction L calls arbitrary: s rs rule: store_calls.induct)
  case (2 L k params err calls)
  from 2(2) obtain r s1 rs1 where first: "GetOrCreate L k params err s = Inr (r, s1)"
    and rest: "store_calls L calls s1 = Inr (rs1, s')" and rs: "rs = r # rs1"
    by (auto elim!: bind_m_InrE)
  obtain x e where r: "r = (x, e)" by (cases r)
  note ext = GetOrCreate_others(2) [OF first]
  have "store_inv s1" using GetOrCreate_inv [OF 2(3) _ first [unfolded r]] 2(7) by simp
  moreover have pin: "map_of (ss_sessions (session_store s1)) sid = Some c \<and> (k = sid \<longrightarrow> x = Some c)"
  proof (cases "k = sid")
    case True
    have "PQstatus L (history s) c" using 2(6) by simp
    with True 2(4,5) first r show ?thesis by (auto simp: GetOrCreate_def bind_m_def IsHealthy_def share_copy_def)
  next
    case False
    with GetOrCreate_others(1) [OF first False] 2(5) show ?thesis by simp
  qed
  moreover have "\<forall>h. extends (history s1) h \<longrightarrow> PQstatus L h c" using 2(6) extends_trans [OF ext] by blast
  ultimately have "store_inv s' \<and> map_of (ss_sessions (session_store s')) sid = Some c \<and> extends (history s1) (history s') \<and>
      length rs1 = length calls \<and> (\<forall>i < length calls. fst (calls ! i) = sid \<longrightarrow> fst (rs1 ! i) = Some c)"
    using 2(1) [OF rest _ 2(4)] 2(7) by simp
  with extends_trans [OF ext] pin show ?case by (auto simp: rs r nth_Cons split: nat.split)
qed simp

text \<open>C26: a session keeps its connection. Once \<open>GetOrCreate\<close> has returned a connection for an id, then after any sequence of
  calls for this id and for others, each of them with parameters of its own, as long as the connection is healthy: every
  call for the id in that sequence has returned this connection, and the next one returns it again and opens
  nothing. A call never changes the session of another id. With the store full, a call for a new id reports the limit and changes
  nothing.\<close>

theorem GetOrCreate_pins_connection:
  assumes inv: "store_inv s" and id: "session_id \<noteq> []"
    and run: "GetOrCreate L session_id params err s = Inr ((Some c, err'), s')"
    and healthy: "\<forall>h. extends (history s') h \<longrightarrow> PQstatus L h c"
    and calls: "\<forall>(k, params, err) \<in> set calls. k \<noteq> []" "store_calls L calls s' = Inr (rs, t)"
  shows "(\<forall>i < length calls. fst (calls ! i) = session_id \<longrightarrow> fst (rs ! i) = Some c) \<and>
    GetOrCreate L session_id params2 err2 t = Inr ((Some c, err2), t\<lparr>refs := (refs t)(c := Suc (refs t c))\<rparr>) \<and>
    (\<forall>other. other \<noteq> session_id \<longrightarrow>
      map_of (ss_sessions (session_store s')) other = map_of (ss_sessions (session_store s)) other) \<and>
    (other \<noteq> [] \<and> map_of (ss_sessions (session_store t)) other = None \<and>
       int (length (ss_sessions (session_store t))) = ss_max_sessions (session_store t) \<longrightarrow>
      GetOrCreate L other params2 err2 t = Inr ((None, set_error err2 ''session limit exceeded''), t))"
proof -
  from GetOrCreate_inv [OF inv id run] have inv': "store_inv s'"
    and m: "map_of (ss_sessions (session_store s')) session_id = Some c" by auto
  from store_calls_pinned [OF calls(2) inv' id m healthy calls(1)] have t: "store_inv t"
    "map_of (ss_sessions (session_store t)) session_id = Some c" "extends (history s') (history t)"
    "\<forall>i < length calls. fst (calls ! i) = session_id \<longrightarrow> fst (rs ! i) = Some c" by blast+
  have len: "int (length (ss_sessions (session_store t))) \<le> INT_MAX"
    using t(1) unfolding store_inv_def Let_def by linarith
  have "PQstatus L (history t) c" using healthy t(3) by blast
  with t(2,4) id len GetOrCreate_others(1) [OF run] show ?thesis
    by (auto simp: GetOrCreate_def open_session_def bind_m_def IsHealthy_def share_copy_def INT_MAX_def)
qed

theorem GetOrCreate_pins_connection_witness:
  "\<exists>s s'. GetOrCreate (demo_libpq []) ''a'' ConnectParams_init (Some []) (demo_store 1) = Inr ((Some 0, Some []), s) \<and>
     store_calls (demo_libpq []) [(''b'', ConnectParams_init, Some [])] s = Inr ([(None, Some ''session limit exceeded'')], s) \<and>
     GetOrCreate (demo_libpq []) ''a'' ConnectParams_init (Some []) s = Inr ((Some 0, Some []), s')"
proof (rule demo_store_run)
  fix s assume run: "GetOrCreate (demo_libpq []) ''a'' ConnectParams_init (Some []) (demo_store 1) = Inr ((Some 0, Some []), s)"
    and s: "ss_sessions (session_store s) = [(''a'', 0)]" "ss_max_sessions (session_store s) = 1"
  have calls: "store_calls (demo_libpq []) [(''b'', ConnectParams_init, Some [])] s = Inr ([(None, Some ''session limit exceeded'')], s)"
    by (simp add: GetOrCreate_def open_session_def bind_m_def s set_error_def)
  from GetOrCreate_pins_connection [OF demo_store_inv _ run _ _ calls, of ConnectParams_init "Some []" "[]"] run calls
  show ?thesis by (intro exI [of _ s] exI [of _ "s\<lparr>refs := (refs s)(0 := Suc (refs s 0))\<rparr>"]) simp
qed

end
