(* ===== verification/Query_Executor.thy ===== *)
theory Query_Executor
  imports Session_Store
begin

text \<open>
  \<open>src/src/pg/query_executor.cpp\<close>: one statement run to its end on a pooled connection or on the
  connection of a session, and the reading of PostgreSQL's error fields. The parameter arrays are
  built by the same loop in \<open>QueryExecutor::Execute\<close> and in \<open>BuildParams\<close> of
  \<open>src/src/pg/streaming_query.cpp\<close>.
\<close>

section \<open>Errors\<close>

record PgErrorMeta =
  em_sqlstate :: string
  em_severity :: string
  em_message :: string
  em_detail :: string
  em_position :: string

definition PgErrorMeta_init :: PgErrorMeta where
  "PgErrorMeta_init = \<lparr>em_sqlstate = [], em_severity = [], em_message = [], em_detail = [], em_position = []\<rparr>"

definition FieldOrEmpty :: "PGresult \<Rightarrow> pg_diag \<Rightarrow> string" where
  "FieldOrEmpty result field = (case PQresultErrorField result field of Some value \<Rightarrow> value | None \<Rightarrow> [])"

definition ExtractPgError :: "PGresult option \<Rightarrow> PgErrorMeta" where
  "ExtractPgError result =
     (case result of
        None \<Rightarrow> PgErrorMeta_init\<lparr>em_message := ''query returned null result''\<rparr>
      | Some r \<Rightarrow>
          let message = FieldOrEmpty r PG_DIAG_MESSAGE_PRIMARY
          in \<lparr>em_sqlstate = FieldOrEmpty r PG_DIAG_SQLSTATE,
              em_severity = FieldOrEmpty r PG_DIAG_SEVERITY,
              em_message = (if message = [] then ''unknown PostgreSQL error'' else message),
              em_detail = FieldOrEmpty r PG_DIAG_MESSAGE_DETAIL,
              em_position = FieldOrEmpty r PG_DIAG_STATEMENT_POSITION\<rparr>)"

section \<open>Parameters\<close>

definition push_param :: "ParamBuffers \<Rightarrow> QueryParam \<Rightarrow> ParamBuffers" where
  "push_param params param =
     (let stored = qp_value param;
          null = (stored = [] \<and> qp_format param = 0)
      in params\<lparr>pb_values := pb_values params @ [if null then None else Some stored],
                pb_lengths := pb_lengths params @ [if null then 0 else cast_int32 (int (length stored))],
                pb_formats := pb_formats params @ [qp_format param],
                pb_types := pb_types params @ [if qp_oid param = 0 then 0 else qp_oid param]\<rparr>)"

definition BuildParams :: "QueryRequest \<Rightarrow> ParamBuffers" where
  "BuildParams request =
     foldl push_param \<lparr>pb_values = [], pb_lengths = [], pb_formats = [], pb_types = []\<rparr> (qr_params request)"

definition result_format_of :: "QueryRequest \<Rightarrow> int" where
  "result_format_of request = (if qr_result_format request \<noteq> 0 then 1 else 0)"

section \<open>QueryExecutor\<close>

record QueryExecution =
  qe_result :: "PGresult option"
  qe_connection :: "conn option"
  qe_pooled :: bool
  qe_connection_broken :: bool

definition QueryExecution_init :: QueryExecution where
  "QueryExecution_init = \<lparr>qe_result = None, qe_connection = None, qe_pooled = False, qe_connection_broken = False\<rparr>"

definition FinishQuery :: "libpq \<Rightarrow> (QueryExecution \<times> 'a store_world_scheme, unit) proc" where
  "FinishQuery L =
     bind_m (get_m fst) (\<lambda>execution.
     bind_m (world_m (PQclear_m (qe_result execution))) (\<lambda>_.
     bind_m (upd_m (apfst (\<lambda>e. e\<lparr>qe_result := None\<rparr>))) (\<lambda>_.
     case qe_connection execution of
       None \<Rightarrow> ret_m ()
     | Some c \<Rightarrow>
         if qe_pooled execution then
           bind_m (world_m (return_lease L c (qe_connection_broken execution))) (\<lambda>_.
           upd_m (apfst (\<lambda>e. e\<lparr>qe_connection := None, qe_pooled := False\<rparr>)))
         else ret_m ())))"

text \<open>
  The body of \<open>Execute\<close> on the execution it returns. The local pointer \<open>conn\<close> is a second owner until
  the function returns, which is after the lock on the connection is released.
\<close>

definition Execute_acquire ::
    "libpq \<Rightarrow> ConnectParams \<Rightarrow> QueryRequest \<Rightarrow> err_ptr \<Rightarrow> ('a store_world_scheme, conn option \<times> err_ptr) proc" where
  "Execute_acquire L session_defaults request error_out =
     (if qr_session_id request \<noteq> []
      then GetOrCreate L (qr_session_id request) session_defaults error_out
      else bind_m (Acquire L) (\<lambda>conn. case conn of
             None \<Rightarrow> ret_m (None, set_error error_out ''failed to acquire database connection'')
           | Some c \<Rightarrow> ret_m (Some c, error_out)))"

definition Execute_locked :: "libpq \<Rightarrow> QueryRequest \<Rightarrow> conn \<Rightarrow> (QueryExecution \<times> 'a store_world_scheme, unit) proc" where
  "Execute_locked L request c =
     bind_m (world_m (PQexecParams_m L c (c_str (qr_text request)) (BuildParams request) (result_format_of request))) (\<lambda>result.
     let status = (case result of Some r \<Rightarrow> PQresultStatus r | None \<Rightarrow> PGRES_FATAL_ERROR);
         ok = (status = PGRES_TUPLES_OK \<or> status = PGRES_COMMAND_OK)
     in bind_m (world_m (get_m (\<lambda>s. IsHealthy L (history s) c))) (\<lambda>healthy.
        bind_m (upd_m (apfst (\<lambda>e. e\<lparr>qe_connection_broken := \<not> healthy, qe_result := result\<rparr>))) (\<lambda>_.
        if \<not> ok \<and> qr_session_id request = [] then FinishQuery L else ret_m ())))"

definition Execute_on ::
    "libpq \<Rightarrow> ConnectParams \<Rightarrow> QueryRequest \<Rightarrow> err_ptr \<Rightarrow> (QueryExecution \<times> 'a store_world_scheme, err_ptr) proc" where
  "Execute_on L session_defaults request error_out =
     bind_m (world_m (Execute_acquire L session_defaults request error_out)) (\<lambda>(conn, error_out).
     case conn of
       None \<Rightarrow> ret_m error_out
     | Some c \<Rightarrow>
         bind_m (world_m (share_copy c)) (\<lambda>_.
         bind_m (upd_m (apfst (\<lambda>e. e\<lparr>qe_connection := Some c, qe_pooled := (qr_session_id request = [])\<rparr>))) (\<lambda>_.
         bind_m (with_lock c (Execute_locked L request c)) (\<lambda>_.
         bind_m (world_m (share_drop c)) (\<lambda>_. ret_m error_out)))))"

definition Execute ::
    "libpq \<Rightarrow> ConnectParams \<Rightarrow> QueryRequest \<Rightarrow> err_ptr \<Rightarrow> ('a store_world_scheme, QueryExecution \<times> err_ptr) proc" where
  "Execute L session_defaults request error_out s =
     (case Execute_on L session_defaults request error_out (QueryExecution_init, s) of
        Inl b \<Rightarrow> Inl b
      | Inr (error_out', (execution, s')) \<Rightarrow> Inr ((execution, error_out'), s'))"

section \<open>Parameters, position by position\<close>

lemma foldl_push_param:
  "foldl push_param pb ps =
     pb\<lparr>pb_values := pb_values pb @ map (\<lambda>p. if qp_value p = [] \<and> qp_format p = 0 then None else Some (qp_value p)) ps,
        pb_lengths := pb_lengths pb @ map (\<lambda>p. cast_int32 (int (length (qp_value p)))) ps,
        pb_formats := pb_formats pb @ map qp_format ps,
        pb_types := pb_types pb @ map qp_oid ps\<rparr>"
  by (induction ps arbitrary: pb) (simp_all add: push_param_def Let_def)

text \<open>The arrays handed to \<open>PQexecParams\<close> have one entry per request parameter, in order: its oid and
  format as they are, its bytes and their number; an empty text parameter is the SQL null, an empty
  binary one is not.\<close>

theorem BuildParams_positional:
  "pb_values (BuildParams request) =
     map (\<lambda>p. if qp_value p = [] \<and> qp_format p = 0 then None else Some (qp_value p)) (qr_params request) \<and>
   pb_lengths (BuildParams request) = map (\<lambda>p. cast_int32 (int (length (qp_value p)))) (qr_params request) \<and>
   pb_formats (BuildParams request) = map qp_format (qr_params request) \<and>
   pb_types (BuildParams request) = map qp_oid (qr_params request)"
  by (simp add: BuildParams_def foldl_push_param)

section \<open>Leases and locks of Execute\<close>

lemma Execute_acquire_frame:
  assumes "Execute_acquire L d request err s = Inr ((r, err'), s')"
  shows "held s' = held s \<and> cm_pool_size (pool s') = cm_pool_size (pool s) \<and>
    cm_in_use (pool s') = cm_in_use (pool s) + (if qr_session_id request = [] \<and> r \<noteq> None then 1 else 0)"
proof (cases "qr_session_id request = []")
  case True
  with assms obtain r' where "Acquire L s = Inr (r', s')" "r' = r"
    by (auto simp: Execute_acquire_def bind_m_Inr_iff split: option.splits)
  with True Acquire_pool [of L s r' s'] Acquire_held [of L s r' s'] show ?thesis by simp
next
  case False
  with assms have "GetOrCreate L (qr_session_id request) d err s = Inr ((r, err'), s')"
    by (simp add: Execute_acquire_def)
  from GetOrCreate_frame [OF this] False show ?thesis by simp
qed

lemma Execute_acquire_blocked:
  "Execute_acquire L d request err s = Inl b \<longleftrightarrow>
     qr_session_id request = [] \<and> b = WaitPool \<and> cm_idle (pool s) = [] \<and>
     cm_pool_size (pool s) \<le> cm_in_use (pool s)"
  using Acquire_blocked [of L s b] GetOrCreate_returns [of L "qr_session_id request" d err s]
  by (auto simp: Execute_acquire_def bind_m_def split: sum.splits option.splits)

lemma wp_FinishQuery:
  "wp (FinishQuery L) (\<lambda>_ p. held (snd p) = held s \<and> cm_pool_size (pool (snd p)) = cm_pool_size (pool s) \<and>
      cm_in_use (pool (snd p)) = cm_in_use (pool s) - (if qe_pooled e \<and> qe_connection e \<noteq> None then 1 else 0) \<and>
      set_option (qe_result e) \<union> cleared (history s) \<subseteq> cleared (history (snd p)) \<and>
      results_of (history (snd p)) = results_of (history s) \<and>
      fst p = (if qe_pooled e \<and> qe_connection e \<noteq> None
               then e\<lparr>qe_result := None, qe_connection := None, qe_pooled := False\<rparr> else e\<lparr>qe_result := None\<rparr>)) (e, s)"
  by (cases "qe_connection e"; cases "qe_pooled e"; cases "qe_result e")
    (auto simp: FinishQuery_def wp_simps return_lease_def wp_Release Let_def)

lemma wp_Execute:
  "wp (Execute L d request err) Q s =
     wp (Execute_on L d request err) (\<lambda>err' p. Q (fst p, err') (snd p)) (QueryExecution_init, s)"
  by (auto simp: wp_def Execute_def split: sum.splits)

text \<open>What \<open>Execute\<close> leaves behind once it has a connection.\<close>

definition exec_result :: "libpq \<Rightarrow> QueryRequest \<Rightarrow> conn \<Rightarrow> history \<Rightarrow> PGresult option" where
  "exec_result L request c h =
     PQexecParams L h c (c_str (qr_text request)) (BuildParams request) (result_format_of request)"

definition exec_ok :: "PGresult option \<Rightarrow> bool" where
  "exec_ok r = (case r of None \<Rightarrow> False | Some x \<Rightarrow> PQresultStatus x = PGRES_TUPLES_OK \<or> PQresultStatus x = PGRES_COMMAND_OK)"

definition execute_post ::
    "QueryRequest \<Rightarrow> conn \<Rightarrow> PGresult option \<Rightarrow> 'a store_world_scheme \<Rightarrow> QueryExecution \<Rightarrow> 'a store_world_scheme \<Rightarrow> bool" where
  "execute_post request c r s1 e s2 \<longleftrightarrow>
     held s2 = held s1 \<and> cm_pool_size (pool s2) = cm_pool_size (pool s1) \<and>
     (if exec_ok r \<or> qr_session_id request \<noteq> []
      then qe_result e = r \<and> qe_connection e = Some c \<and> (qe_pooled e \<longleftrightarrow> qr_session_id request = []) \<and> pool s2 = pool s1
      else qe_result e = None \<and> qe_connection e = None \<and> \<not> qe_pooled e \<and>
        cm_in_use (pool s2) = cm_in_use (pool s1) - 1 \<and> set_option r \<subseteq> cleared (history s2))"

lemma wp_Execute_locked:
  assumes "qe_connection e1 = Some c" "qe_pooled e1 \<longleftrightarrow> qr_session_id request = []"
  shows "wp (Execute_locked L request c) (\<lambda>_ p. execute_post request c (exec_result L request c (history s1)) s1 (fst p) (snd p)) (e1, s1)"
proof (cases "exec_ok (exec_result L request c (history s1)) \<or> qr_session_id request \<noteq> []")
  case True
  with assms show ?thesis
    by (cases "exec_result L request c (history s1)")
      (auto simp: Execute_locked_def wp_simps execute_post_def exec_result_def exec_ok_def Let_def)
next
  case False
  let ?r = "exec_result L request c (history s1)"
  let ?s = "s1\<lparr>history := EvExecParams c (c_str (qr_text request)) (BuildParams request) (result_format_of request) ?r # history s1\<rparr>"
  let ?e = "e1\<lparr>qe_connection_broken := \<not> IsHealthy L (history ?s) c, qe_result := ?r\<rparr>"
  have "wp (Execute_locked L request c) Q (e1, s1) = wp (FinishQuery L) Q (?e, ?s)" for Q
    using False by (cases ?r) (auto simp: Execute_locked_def wp_simps exec_result_def exec_ok_def Let_def)
  moreover have "wp (FinishQuery L) (\<lambda>_ p. execute_post request c ?r s1 (fst p) (snd p)) (?e, ?s)"
    by (rule wp_mono [OF wp_FinishQuery]) (use False assms in \<open>auto simp: execute_post_def\<close>)
  ultimately show ?thesis by simp
qed

lemma Execute_on_connection:
  assumes acq: "Execute_acquire L d request err s = Inr ((Some c, err'), s1)" and free: "c \<notin> held s"
  shows "\<exists>e s2. Execute L d request err s = Inr ((e, err'), s2) \<and>
    execute_post request c (exec_result L request c (history s1)) s1 e s2"
proof -
  let ?r = "exec_result L request c (history s1)"
  let ?s = "s1\<lparr>refs := (refs s1)(c := Suc (refs s1 c)), held := insert c (held s1)\<rparr>"
  let ?e = "QueryExecution_init\<lparr>qe_connection := Some c, qe_pooled := (qr_session_id request = [])\<rparr>"
  have c: "c \<notin> held s1" using free Execute_acquire_frame [OF acq] by simp
  have "wp (Execute_locked L request c) (\<lambda>_ p. execute_post request c ?r ?s (fst p) (snd p)) (?e, ?s)"
    using wp_Execute_locked [of ?e c request L ?s] by simp
  then have "wp (Execute_locked L request c) (\<lambda>_ p. execute_post request c ?r s1 (fst p)
      ((snd p)\<lparr>held := held (snd p) - {c}, refs := (refs (snd p))(c := refs (snd p) c - 1),
        history := (if refs (snd p) c = 1 then [EvFinish c] else []) @ history (snd p)\<rparr>)) (?e, ?s)"
    by (rule wp_mono) (use c in \<open>auto simp: execute_post_def\<close>)
  then have "wp (Execute L d request err) (\<lambda>(e, err2) s2. err2 = err' \<and> execute_post request c ?r s1 e s2) s"
    unfolding wp_Execute using c
    by (simp add: Execute_on_def wp_simps wp_def [of "Execute_acquire L d request err"] acq)
  then show ?thesis by (auto simp: wp_iff)
qed

lemma Execute_no_connection:
  assumes "Execute_acquire L d request err s = Inr ((None, err'), s1)"
  shows "Execute L d request err s = Inr ((QueryExecution_init, err'), s1)"
  by (simp add: Execute_def Execute_on_def bind_m_def world_m_def assms)

lemma demo_store_acquire:
  "\<exists>s1. Acquire (demo_libpq []) (demo_store 1) = Inr (Some 0, s1)"
  using accepting_Acquire [OF accepts_demo_libpq, of "demo_store 1"]
  by (simp add: demo_store_def ConnectionManager_init_def ConnectParams_init_def)

section \<open>Correctness of the executor\<close>

text \<open>\<open>Execute\<close> never deadlocks on the connection's mutex: called by a thread that holds no connection
  mutex, it fails to return only while it waits for the pool, that is without a session id, with no
  idle connection and the limit reached.\<close>

theorem Execute_waits_only_for_pool:
  assumes "held s = {}"
  shows "Execute L d request err s = Inl b \<longleftrightarrow>
    qr_session_id request = [] \<and> b = WaitPool \<and> cm_idle (pool s) = [] \<and> cm_pool_size (pool s) \<le> cm_in_use (pool s)"
proof (cases "Execute_acquire L d request err s")
  case (Inl b')
  then have "Execute L d request err s = Inl b'"
    by (simp add: Execute_def Execute_on_def bind_m_def world_m_def)
  then have "Execute L d request err s = Inl b \<longleftrightarrow> Execute_acquire L d request err s = Inl b"
    using Inl by simp
  then show ?thesis using Execute_acquire_blocked [of L d request err s b] by simp
next
  case (Inr x)
  obtain r err' s1 where x: "x = ((r, err'), s1)" by (cases x) auto
  have "Execute L d request err s \<noteq> Inl b"
  proof (cases r)
    case None
    with Execute_no_connection [of L d request err s err' s1] Inr x show ?thesis by simp
  next
    case (Some c)
    with Execute_on_connection [of L d request err s c err' s1] Inr x assms show ?thesis by auto
  qed
  moreover have "Execute_acquire L d request err s \<noteq> Inl b" using Inr by simp
  ultimately show ?thesis using Execute_acquire_blocked [of L d request err s b] by blast
qed

definition demo_request :: QueryRequest where
  "demo_request = \<lparr>qr_host_index = 0, qr_text = ''SELECT x FROM t'', qr_name = [], qr_row_mode = [], qr_session_id = [],
     qr_params = [\<lparr>qp_oid = 23, qp_format = 0, qp_value = ''7''\<rparr>], qr_result_format = 1\<rparr>"

theorem Execute_waits_only_for_pool_witness:
  "\<forall>b. Execute (demo_libpq []) ConnectParams_init demo_request (Some []) (demo_store 1) \<noteq> Inl b"
  using Execute_waits_only_for_pool [of "demo_store 1" "demo_libpq []" ConnectParams_init demo_request "Some []"]
  by (simp add: demo_store_def ConnectionManager_init_def)

text \<open>What \<open>Execute\<close> has taken and not given back is in the execution it returns.\<close>

lemma Execute_leaves:
  assumes run: "Execute L d request err s = Inr ((e, err'), s1)" and free: "held s = {}"
  shows "cm_in_use (pool s1) = cm_in_use (pool s) + (if qe_pooled e \<and> qe_connection e \<noteq> None then 1 else 0) \<and> held s1 = {} \<and>
    (qr_session_id request = [] \<longrightarrow> qe_connection e = None \<or> qe_pooled e)"
proof -
  obtain r e1 t where acq: "Execute_acquire L d request err s = Inr ((r, e1), t)"
  proof (cases "Execute_acquire L d request err s")
    case (Inl b)
    with run show thesis by (auto simp: Execute_def Execute_on_def bind_m_def world_m_def)
  qed (use that in auto)
  note A = Execute_acquire_frame [OF acq]
  show ?thesis
  proof (cases r)
    case None
    with Execute_no_connection [of L d request err s e1 t] acq run have "e = QueryExecution_init" "s1 = t" by simp_all
    with A free None show ?thesis by (simp add: QueryExecution_init_def)
  next
    case (Some c)
    with Execute_on_connection [of L d request err s c e1 t] acq run free
    have "execute_post request c (exec_result L request c (history t)) t e s1" by simp
    with A free Some show ?thesis by (auto simp: execute_post_def split: if_splits)
  qed
qed

text \<open>On a pooled connection a failed statement leaves no trace in what \<open>Execute\<close> returns: the result
  that holds PostgreSQL's error is already cleared and the error string is not written.\<close>

theorem Execute_drops_pooled_error:
  assumes "held s = {}" and "qr_session_id request = []" and "Acquire L s = Inr (Some c, s1)"
    and "\<not> exec_ok (exec_result L request c (history s1))"
  shows "\<exists>e s2. Execute L d request err s = Inr ((e, err), s2) \<and> qe_result e = None \<and> qe_connection e = None"
proof -
  have "Execute_acquire L d request err s = Inr ((Some c, err), s1)"
    using assms(2,3) by (simp add: Execute_acquire_def bind_m_def)
  from Execute_on_connection [OF this] assms show ?thesis by (auto simp: execute_post_def)
qed

theorem Execute_drops_pooled_error_witness:
  "\<exists>L e s2. Execute L ConnectParams_init demo_request (Some []) (demo_store 1) = Inr ((e, Some []), s2) \<and>
     qe_result e = None \<and> PQexecParams L [] 0 ''SELECT x FROM t'' (BuildParams demo_request) 1 =
       Some (command_result PGRES_FATAL_ERROR [] ''relation t does not exist'')"
proof -
  let ?r = "Some (command_result PGRES_FATAL_ERROR [] ''relation t does not exist'')"
  define L where "L = (demo_libpq [])\<lparr>PQexecParams := (\<lambda>_ _ _ _ _. ?r)\<rparr>"
  have "accepts_connections L"
    by (simp add: accepts_connections_def L_def demo_libpq_def demo_exec_def)
  then obtain s1 where "Acquire L (demo_store 1) = Inr (Some 0, s1)"
    using accepting_Acquire [of L "demo_store 1"]
    by (auto simp: demo_store_def ConnectionManager_init_def ConnectParams_init_def)
  from Execute_drops_pooled_error [OF _ _ this, of demo_request ConnectParams_init "Some []"] obtain e s2 where
    "Execute L ConnectParams_init demo_request (Some []) (demo_store 1) = Inr ((e, Some []), s2)" "qe_result e = None"
    by (auto simp: demo_store_def demo_request_def L_def exec_ok_def exec_result_def command_result_def)
  moreover have "PQexecParams L [] 0 ''SELECT x FROM t'' (BuildParams demo_request) 1 = ?r" by (simp add: L_def)
  ultimately show ?thesis by blast
qed

end
