(* ===== verification/Js_Number.thy ===== *)
theory Js_Number
  imports Complex_Main "HOL-Library.Log_Nat"
begin

text \<open>
  The numbers of JavaScript that the client of \<open>src/integration\<close> computes with: IEEE 754 doubles as
  the rationals they are, with the rounding of every operation to 53 significant bits, ties to even. The numbers that occur (counts, object ids,
  times in milliseconds and thousandths of them) are far from the limits of the exponent, so infinities and subnormal numbers do not occur.
\<close>

section \<open>Rounding\<close>

definition round_even :: "rat \<Rightarrow> int" where
  "round_even x =
     (let f = \<lfloor>x\<rfloor>; d = x - of_int f
      in if d < 1 / 2 then f else if 1 / 2 < d then f + 1 else if even f then f else f + 1)"

text \<open>The exponent \<open>e\<close> with \<open>2 ^ e \<le> \<bar>x\<bar> < 2 ^ (e + 1)\<close>, from the bit lengths of numerator and denominator.\<close>

definition dbl_exponent :: "rat \<Rightarrow> int" where
  "dbl_exponent x =
     (let (p, q) = quotient_of \<bar>x\<bar>; e = int (floorlog 2 (nat p)) - int (floorlog 2 (nat q))
      in if 2 powi e \<le> \<bar>x\<bar> then e else e - 1)"

definition dbl :: "rat \<Rightarrow> rat" where
  "dbl x = (if x = 0 then 0 else let u = 2 powi (dbl_exponent x - 52) in of_int (round_even (x / u)) * u)"

text \<open>\<open>Number(n)\<close> of a \<open>BigInt\<close>: an integer.\<close>

definition js_Number :: "int \<Rightarrow> int" where
  "js_Number n = \<lfloor>dbl (of_int n)\<rfloor>"

lemma round_even_error: "\<bar>of_int (round_even x) - x\<bar> \<le> 1 / 2"
proof -
  have "of_int \<lfloor>x\<rfloor> \<le> x" "x < of_int \<lfloor>x\<rfloor> + 1" by linarith+
  then show ?thesis unfolding round_even_def Let_def by (auto split: if_splits)
qed

lemma round_even_int [simp]: "round_even (of_int n) = n"
  by (simp add: round_even_def)

lemma bit_length_bounds:
  fixes n :: int
  assumes "0 < n"
  shows "2 powi (int (floorlog 2 (nat n)) - 1) \<le> (of_int n :: rat)" "(of_int n :: rat) < 2 powi int (floorlog 2 (nat n))"
proof -
  let ?b = "floorlog 2 (nat n)"
  have pos: "0 < ?b" using assms by (simp add: floorlog_def)
  have "2 ^ (?b - 1) \<le> nat n" "nat n < 2 ^ ?b" using floorlog_bounds [of "nat n" 2] assms by simp_all
  then have "(2 :: int) ^ (?b - 1) \<le> n" "n < 2 ^ ?b" using assms by (simp_all add: le_nat_iff nat_less_iff)
  then have "(2 :: rat) ^ (?b - 1) \<le> of_int n" "of_int n < (2 :: rat) ^ ?b"
    by (metis of_int_le_iff of_int_numeral of_int_power) (metis \<open>n < 2 ^ ?b\<close> of_int_less_iff of_int_numeral of_int_power)
  moreover have "int ?b - 1 = int (?b - 1)" using pos by simp
  ultimately show "2 powi (int ?b - 1) \<le> (of_int n :: rat)" "(of_int n :: rat) < 2 powi int ?b"
    by (simp_all only: power_int_of_nat)
qed

lemma dbl_exponent_bounds:
  assumes "x \<noteq> 0"
  shows "2 powi dbl_exponent x \<le> \<bar>x\<bar> \<and> \<bar>x\<bar> < 2 powi (dbl_exponent x + 1)"
proof -
  obtain p q where pq: "quotient_of \<bar>x\<bar> = (p, q)" by (cases "quotient_of \<bar>x\<bar>")
  have q: "0 < q" by (rule quotient_of_denom_pos [OF pq])
  have x: "\<bar>x\<bar> = of_int p / of_int q" by (rule quotient_of_div [OF pq])
  have "0 < \<bar>x\<bar>" using assms by simp
  with x q have p: "0 < p" by (simp add: zero_less_divide_iff)
  define a b where "a = int (floorlog 2 (nat p))" and "b = int (floorlog 2 (nat q))"
  note P = bit_length_bounds [OF p, folded a_def] and Q = bit_length_bounds [OF q, folded b_def]
  have "2 powi (a - 1) / 2 powi b \<le> \<bar>x\<bar>" unfolding x using P(1) Q(2) p q by (intro frac_le) simp_all
  moreover have "\<bar>x\<bar> < 2 powi a / 2 powi (b - 1)"
    unfolding x using P(2) Q(1) p q by (intro frac_less) simp_all
  ultimately have "2 powi (a - b - 1) \<le> \<bar>x\<bar>" "\<bar>x\<bar> < 2 powi (a - b + 1)"
    by (simp_all add: power_int_diff power_int_add field_simps)
  then show ?thesis by (simp add: dbl_exponent_def pq Let_def flip: a_def b_def)
qed

lemma powi_mono: "(e :: int) \<le> k \<Longrightarrow> (2 :: rat) powi e \<le> 2 powi k"
  by (rule power_int_increasing) simp_all

lemma powi_less: "(2 :: rat) powi e < 2 powi k \<Longrightarrow> e < k"
  using powi_mono [of k e] by (meson linorder_not_le)

text \<open>The rounding error is at most half a unit in the last place.\<close>

lemma dbl_error:
  assumes "\<bar>x\<bar> < 2 powi k"
  shows "\<bar>dbl x - x\<bar> \<le> 2 powi (k - 54)"
proof (cases "x = 0")
  case False
  let ?u = "2 powi (dbl_exponent x - 52) :: rat"
  have u: "0 < ?u" by simp
  have e: "dbl_exponent x < k" using dbl_exponent_bounds [OF False] assms by (intro powi_less) linarith
  have "dbl x - x = (of_int (round_even (x / ?u)) - x / ?u) * ?u"
    using u False by (simp add: dbl_def Let_def left_diff_distrib)
  then have "\<bar>dbl x - x\<bar> = \<bar>of_int (round_even (x / ?u)) - x / ?u\<bar> * ?u" using u by (simp add: abs_mult)
  also have "\<dots> \<le> 1 / 2 * ?u" by (rule mult_right_mono [OF round_even_error]) simp
  also have "\<dots> = 2 powi (dbl_exponent x - 53)" by (simp add: power_int_diff)
  also have "\<dots> \<le> 2 powi (k - 54)" using e by (intro powi_mono) simp
  finally show ?thesis .
qed (simp add: dbl_def)

lemma dbl_exact: "x / 2 powi (dbl_exponent x - 52) = of_int m \<Longrightarrow> dbl x = x"
  by (cases "x = 0") (simp_all add: dbl_def Let_def, simp add: field_simps)

text \<open>Integers of at most \<open>2 ^ 53\<close> are numbers as they are.\<close>

lemma dbl_int:
  assumes "\<bar>n\<bar> \<le> 2 ^ 53"
  shows "dbl (of_int n) = of_int n"
proof (cases "n = 0")
  case False
  let ?e = "dbl_exponent (of_int n)"
  note B = dbl_exponent_bounds [of "of_int n"]
  have "1 \<le> \<bar>of_int n :: rat\<bar>" using False by (simp flip: of_int_abs)
  then have pos: "0 \<le> ?e" using B False powi_less [of 0 "?e + 1"] by simp
  have le: "\<bar>of_int n :: rat\<bar> \<le> 2 ^ 53" using assms by (metis of_int_abs of_int_le_iff of_int_numeral of_int_power)
  show ?thesis
  proof (cases "?e \<le> 52")
    case True
    then have "(of_int n :: rat) / 2 powi (?e - 52) = of_int (n * 2 ^ nat (52 - ?e))"
      by (simp add: power_int_diff power_int_def field_simps)
    then show ?thesis by (rule dbl_exact)
  next
    case False
    have "(2 :: rat) powi ?e < 2 powi 54" using B le \<open>n \<noteq> 0\<close> by (simp add: power_int_def)
    with False have e: "?e = 53" using powi_less [of ?e 54] by simp
    with B le \<open>n \<noteq> 0\<close> have "\<bar>of_int n :: rat\<bar> = 2 ^ 53" by (simp add: power_int_def)
    then have "\<bar>n\<bar> = 2 ^ 53" by (metis of_int_abs of_int_eq_iff of_int_numeral of_int_power)
    then obtain m where "n = 2 * m" by (cases "0 \<le> n") (auto intro: that [of "2 ^ 52"] that [of "- (2 ^ 52)"])
    with e show ?thesis by (intro dbl_exact [of _ m]) simp
  qed
qed (simp add: dbl_def)

lemma js_Number_exact: "\<bar>n\<bar> \<le> 2 ^ 53 \<Longrightarrow> js_Number n = n"
  by (simp add: js_Number_def dbl_int)

text \<open>Above, they are rounded: the first integer that is not a number is read as its neighbour.\<close>

lemma dbl_exponent_unique:
  assumes "2 powi e \<le> \<bar>x\<bar>" "\<bar>x\<bar> < 2 powi (e + 1)"
  shows "dbl_exponent x = e"
proof -
  have "x \<noteq> 0" using assms(1) by (metis abs_zero linorder_not_le zero_less_numeral zero_less_power_int)
  note B = dbl_exponent_bounds [OF this]
  have "e < dbl_exponent x + 1" "dbl_exponent x < e + 1" using B assms by (intro powi_less, linarith)+
  then show ?thesis by simp
qed

lemma js_Number_rounds: "js_Number 9007199254740993 = 9007199254740992"
proof -
  have "dbl_exponent 9007199254740993 = 53" by (rule dbl_exponent_unique) (simp_all add: power_int_def)
  moreover have "round_even (9007199254740993 / 2) = 4503599627370496"
  proof -
    have "\<lfloor>9007199254740993 / 2 :: rat\<rfloor> = 4503599627370496" by (rule floor_unique) simp_all
    then show ?thesis by (simp add: round_even_def Let_def)
  qed
  ultimately show ?thesis by (simp add: js_Number_def dbl_def Let_def)
qed

text \<open>A power of two only moves the exponent.\<close>

lemma dbl_scale: "dbl (x * 2 ^ k) = dbl x * 2 ^ k"
proof (cases "x = 0")
  case False
  have "dbl_exponent (x * 2 ^ k) = dbl_exponent x + int k"
    using dbl_exponent_bounds [OF False]
    by (intro dbl_exponent_unique) (simp_all add: abs_mult power_int_add power_int_of_nat add.commute [of "int k"])
  with False show ?thesis
    by (simp add: dbl_def Let_def power_int_diff power_int_add power_int_of_nat field_simps)
qed (simp add: dbl_def)

section \<open>Times\<close>

text \<open>Division of a \<open>BigInt\<close> rounds towards zero.\<close>

definition big_div :: "int \<Rightarrow> int \<Rightarrow> int" where
  "big_div a b = sgn a * sgn b * (\<bar>a\<bar> div \<bar>b\<bar>)"

definition big_mod :: "int \<Rightarrow> int \<Rightarrow> int" where
  "big_mod a b = a - b * big_div a b"

definition js_trunc :: "rat \<Rightarrow> int" where
  "js_trunc x = (if x < 0 then \<lceil>x\<rceil> else \<lfloor>x\<rfloor>)"

text \<open>\<open>new Date(ms)\<close>: the time is cut to whole milliseconds; outside of the range of times the date is invalid.\<close>

definition js_Date :: "rat \<Rightarrow> int option" where
  "js_Date ms = (if \<bar>ms\<bar> \<le> 8640000000000000 then Some (js_trunc ms) else None)"

lemma js_Date_int [simp]: "js_Date (of_int t) = (if \<bar>t\<bar> \<le> 8640000000000000 then Some t else None)"
  by (simp add: js_Date_def js_trunc_def flip: of_int_abs)

text \<open>A number of milliseconds and thousandths below \<open>2 ^ 44\<close> keeps its whole part: the rounding of the sum cannot
  carry it over to the next millisecond.\<close>

lemma millis_positive:
  assumes q: "0 \<le> q" "q < 2 ^ 44" and r: "0 \<le> r" "r < 1000"
  shows "\<lfloor>dbl (of_int q + dbl (of_int r / 1000))\<rfloor> = q"
proof (cases "r = 0")
  case True
  then show ?thesis using q dbl_int [of q] by (simp add: dbl_def [of 0])
next
  case False
  have R: "1 / 1000 \<le> (of_int r / 1000 :: rat)" "(of_int r / 1000 :: rat) \<le> 999 / 1000"
    using r False by simp_all
  have Q: "of_int q + 1 \<le> (2 ^ 44 :: rat)" "0 \<le> (of_int q :: rat)" using q by simp_all
  let ?f = "dbl (of_int r / 1000)"
  have f: "\<bar>?f - of_int r / 1000\<bar> \<le> 2 powi (- 54)" using dbl_error [of "of_int r / 1000" 0] R by simp
  have small: "(2 powi (- 54) :: rat) = 1 / 2 ^ 54" "(2 powi (- 10) :: rat) = 1 / 1024" by (simp_all add: power_int_minus inverse_eq_divide)
  have F: "1 / 1000 - 1 / 2 ^ 54 \<le> ?f" "?f \<le> 999 / 1000 + 1 / 2 ^ 54"
    using f R unfolding small by linarith+
  have "\<bar>of_int q + ?f\<bar> < 2 powi 44"
    using Q F by (simp add: power_int_def)
  from dbl_error [OF this] have "\<bar>dbl (of_int q + ?f) - (of_int q + ?f)\<bar> \<le> 1 / 1024" by (simp add: small)
  then have "of_int q + ?f - 1 / 1024 \<le> dbl (of_int q + ?f)" "dbl (of_int q + ?f) \<le> of_int q + ?f + 1 / 1024"
    unfolding abs_le_iff by linarith+
  moreover have "1 / 1024 \<le> ?f" using F(1) by (rule order_trans [rotated]) simp
  moreover have "?f < 1 - 1 / 1024" using F(2) by (rule order_le_less_trans) simp
  ultimately have "of_int q \<le> dbl (of_int q + ?f)" "dbl (of_int q + ?f) < of_int q + 1" by linarith+
  then show ?thesis by (rule floor_unique)
qed

lemma round_even_minus: "round_even (- x) = - round_even x"
proof (cases "x = of_int \<lfloor>x\<rfloor>")
  case True
  then show ?thesis by (metis of_int_minus round_even_int)
next
  case False
  then have "\<lfloor>- x\<rfloor> = - \<lfloor>x\<rfloor> - 1" by (simp add: floor_minus ceiling_altdef)
  then show ?thesis unfolding round_even_def Let_def by (auto split: if_splits)
qed

lemma dbl_minus: "dbl (- x) = - dbl x"
  by (simp add: dbl_def Let_def dbl_exponent_def round_even_minus flip: minus_divide_left)

text \<open>The milliseconds of a time in microseconds, computed as the client does.\<close>

definition js_millis :: "int \<Rightarrow> rat" where
  "js_millis micros = dbl (of_int (js_Number (big_div micros 1000)) + dbl (of_int (js_Number (big_mod micros 1000)) / 1000))"

lemma js_Date_millis:
  assumes "\<bar>big_div micros 1000\<bar> < 2 ^ 44"
  shows "js_Date (js_millis micros) = Some (big_div micros 1000)"
proof -
  define q r where "q = \<bar>micros\<bar> div 1000" and "r = \<bar>micros\<bar> mod 1000"
  have q: "0 \<le> q" "q < 2 ^ 44" and r: "0 \<le> r" "r < 1000"
    using assms by (auto simp: q_def r_def big_div_def abs_mult sgn_if split: if_splits)
  have eq: "big_div micros 1000 = sgn micros * q" "big_mod micros 1000 = sgn micros * r"
    by (auto simp: big_div_def big_mod_def q_def r_def sgn_if minus_div_mult_eq_mod [symmetric] algebra_simps)
  let ?x = "dbl (of_int q + dbl (of_int r / 1000))"
  have num: "js_Number (sgn micros * q) = sgn micros * q" "js_Number (sgn micros * r) = sgn micros * r"
    using q r by (auto intro!: js_Number_exact simp: sgn_if abs_mult)
  have floor: "\<lfloor>?x\<rfloor> = q" by (rule millis_positive [OF q r])
  then have x: "0 \<le> ?x" "?x < of_int q + 1" using q by linarith+
  moreover have "(of_int q :: rat) + 1 \<le> 2 ^ 44" using q(2) by simp
  ultimately have top: "?x < 2 ^ 44" by linarith
  have zero: "micros = 0 \<Longrightarrow> q = 0 \<and> r = 0" by (simp add: q_def r_def)
  have "js_millis micros = of_int (sgn micros) * ?x"
    using dbl_minus [of "of_int r / 1000"] dbl_minus [of "of_int q + dbl (of_int r / 1000)"]
    using zero unfolding js_millis_def eq num by (auto simp: sgn_if dbl_def [of 0])
  then show ?thesis
    using floor x top by (auto simp: js_Date_def js_trunc_def eq sgn_if ceiling_minus)
qed

end
