(* ===== verification/Flex_Meta.thy ===== *)
theory Flex_Meta
  imports Cxx_Prelude Js_Number "HOL-Library.Countable" "HOL-Library.Char_ord" "HOL-Library.List_Lexorder"
begin

text \<open>
  The control metadata of \<open>src/src/codec/flex_meta.h\<close> and \<open>flex_meta.cpp\<close>, and the client's readers
  of it in \<open>src/integration/flatbuffers/result-meta-codec.js\<close>. FlexBuffers is third-party code: the
  calls made on a builder are the value tree they describe (\<open>flex\<close>), and serialisation
  (\<open>GetBuffer\<close>) and parsing (\<open>toObject\<close>) are parameters. What the code relies on is a hypothesis of the round
  trip (\<open>flex_codec\<close>): parsing a finished buffer gives back, up to the order of the entries of a map, every tree FlexBuffers can
  hold, that is one of 64-bit integers, strings of valid UTF-8 and maps of distinct keys.
\<close>

section \<open>Model\<close>

record FieldInfo =
  fi_name :: string
  fi_table_oid :: "32 word"
  fi_column_id :: "32 word"
  fi_data_type_oid :: "32 word"
  fi_format :: int

record ResultSchema =
  rs_command :: string
  rs_fields :: "FieldInfo list"

record ResultTrailer =
  rt_command_tag :: string
  rt_row_count :: int
  rt_oid :: "32 word"

record PgError =
  pe_sqlstate :: string
  pe_severity :: string
  pe_message :: string
  pe_detail :: string
  pe_position :: string

text \<open>The default member initialisers.\<close>

definition ResultTrailer_init :: ResultTrailer where
  "ResultTrailer_init = \<lparr>rt_command_tag = [], rt_row_count = 0, rt_oid = 0\<rparr>"

definition PgError_init :: PgError where
  "PgError_init = \<lparr>pe_sqlstate = [], pe_severity = ''ERROR'', pe_message = [], pe_detail = [],
     pe_position = []\<rparr>"

datatype flex =
    FString string | FUInt nat | FInt int | FMap "(string \<times> flex) list" | FVector "flex list"

instance flex :: countable
  by countable_datatype

definition AddFieldInfo :: "FieldInfo \<Rightarrow> flex" where
  "AddFieldInfo field = FMap
     [(''name'', FString (c_str (fi_name field))),
      (''table_oid'', FUInt (unat (fi_table_oid field))),
      (''column_id'', FUInt (unat (fi_column_id field))),
      (''data_type_oid'', FUInt (unat (fi_data_type_oid field))),
      (''format'', FInt (fi_format field))]"

definition schema_tree :: "ResultSchema \<Rightarrow> flex" where
  "schema_tree schema = FMap
     [(''command'', FString (c_str (rs_command schema))),
      (''fields'', FVector (map AddFieldInfo (rs_fields schema)))]"

definition EncodeResultSchema :: "(flex \<Rightarrow> string) \<Rightarrow> ResultSchema \<Rightarrow> string" where
  "EncodeResultSchema GetBuffer schema = GetBuffer (schema_tree schema)"

definition trailer_tree :: "ResultTrailer \<Rightarrow> flex" where
  "trailer_tree trailer = FMap
     [(''command_tag'', FString (c_str (rt_command_tag trailer))),
      (''row_count'', FInt (rt_row_count trailer)),
      (''oid'', FUInt (unat (rt_oid trailer)))]"

definition EncodeResultTrailer :: "(flex \<Rightarrow> string) \<Rightarrow> ResultTrailer \<Rightarrow> string" where
  "EncodeResultTrailer GetBuffer trailer = GetBuffer (trailer_tree trailer)"

definition error_tree :: "PgError \<Rightarrow> flex" where
  "error_tree error = FMap
     [(''sqlstate'', FString (c_str (pe_sqlstate error))),
      (''severity'', FString (c_str (pe_severity error))),
      (''message'', FString (c_str (pe_message error))),
      (''detail'', FString (c_str (pe_detail error))),
      (''position'', FString (c_str (pe_position error)))]"

definition EncodePgError :: "(flex \<Rightarrow> string) \<Rightarrow> PgError \<Rightarrow> string" where
  "EncodePgError GetBuffer error = GetBuffer (error_tree error)"

section \<open>The client's readers\<close>

text \<open>Property access on a parsed object: \<open>None\<close> is JavaScript's \<open>undefined\<close>.\<close>

fun flex_get :: "flex \<Rightarrow> string \<Rightarrow> flex option" where
  "flex_get (FMap kvs) k = map_of kvs k"
| "flex_get _ k = None"

definition js_string :: "string \<Rightarrow> flex option \<Rightarrow> string" where
  "js_string dflt v = (case v of Some (FString s) \<Rightarrow> s | _ \<Rightarrow> dflt)"

text \<open>\<open>Number(x ?? 0)\<close>: an integer of 64 bits is rounded to a double.\<close>

definition js_number :: "flex option \<Rightarrow> int" where
  "js_number v = (case v of Some (FInt i) \<Rightarrow> js_Number i | Some (FUInt n) \<Rightarrow> js_Number (int n) | _ \<Rightarrow> 0)"

text \<open>\<open>Number(x) >>> 0\<close>: the low 32 bits as an unsigned number.\<close>

definition js_uint32 :: "flex option \<Rightarrow> 32 word" where
  "js_uint32 v = word_of_int (js_number v)"

definition normalizeFieldInfo :: "flex \<Rightarrow> FieldInfo" where
  "normalizeFieldInfo f =
     \<lparr>fi_name = js_string [] (flex_get f ''name''),
      fi_table_oid = js_uint32 (flex_get f ''table_oid''),
      fi_column_id = js_uint32 (flex_get f ''column_id''),
      fi_data_type_oid = js_uint32 (flex_get f ''data_type_oid''),
      fi_format = js_number (flex_get f ''format'')\<rparr>"

definition decodeResultSchema :: "(string \<Rightarrow> flex) \<Rightarrow> string \<Rightarrow> ResultSchema" where
  "decodeResultSchema toObject buffer =
     (let m = toObject buffer
      in \<lparr>rs_command = js_string ''SELECT'' (flex_get m ''command''),
          rs_fields = (case flex_get m ''fields'' of
             Some (FVector fs) \<Rightarrow> map normalizeFieldInfo fs | _ \<Rightarrow> [])\<rparr>)"

text \<open>An object id of zero is reported as \<open>null\<close>.\<close>

definition decodeResultTrailer ::
  "(string \<Rightarrow> flex) \<Rightarrow> string \<Rightarrow> string \<times> int \<times> int option" where
  "decodeResultTrailer toObject buffer =
     (let m = toObject buffer; oid = js_number (flex_get m ''oid'')
      in (js_string [] (flex_get m ''command_tag''), js_number (flex_get m ''row_count''),
          if oid = 0 then None else Some oid))"

definition decodePgError :: "(string \<Rightarrow> flex) \<Rightarrow> string \<Rightarrow> PgError" where
  "decodePgError toObject buffer =
     (let m = toObject buffer
      in \<lparr>pe_sqlstate = js_string [] (flex_get m ''sqlstate''),
          pe_severity = js_string ''ERROR'' (flex_get m ''severity''),
          pe_message = js_string ''unknown error'' (flex_get m ''message''),
          pe_detail = js_string [] (flex_get m ''detail''),
          pe_position = js_string [] (flex_get m ''position'')\<rparr>)"

section \<open>Properties\<close>

text \<open>What of a value survives \<open>c_str()\<close>: everything up to the first NUL of each string.\<close>

definition c_str_schema :: "ResultSchema \<Rightarrow> ResultSchema" where
  "c_str_schema s =
     \<lparr>rs_command = c_str (rs_command s),
      rs_fields = map (\<lambda>f. f\<lparr>fi_name := c_str (fi_name f)\<rparr>) (rs_fields s)\<rparr>"

definition c_str_error :: "PgError \<Rightarrow> PgError" where
  "c_str_error e =
     \<lparr>pe_sqlstate = c_str (pe_sqlstate e), pe_severity = c_str (pe_severity e),
      pe_message = c_str (pe_message e), pe_detail = c_str (pe_detail e),
      pe_position = c_str (pe_position e)\<rparr>"

section \<open>FlexBuffers\<close>

text \<open>Trees up to the order of the entries of their maps: the entries sorted by their keys.\<close>

fun flex_norm :: "flex \<Rightarrow> flex" where
  "flex_norm (FMap kvs) = FMap (sort_key fst (map (\<lambda>(k, v). (k, flex_norm v)) kvs))"
| "flex_norm (FVector vs) = FVector (map flex_norm vs)"
| "flex_norm v = v"

text \<open>Valid UTF-8, as RFC 3629 has it.\<close>

definition in_bytes :: "nat \<Rightarrow> nat \<Rightarrow> char \<Rightarrow> bool" where
  "in_bytes lo hi c \<longleftrightarrow> lo \<le> of_char c \<and> of_char c \<le> hi"

text \<open>The ranges of the bytes that follow a first byte; \<open>None\<close> for a byte no character begins with.\<close>

definition utf8_tail :: "char \<Rightarrow> (nat \<times> nat) list option" where
  "utf8_tail c =
     (if in_bytes 0 0x7F c then Some []
      else if in_bytes 0xC2 0xDF c then Some [(0x80, 0xBF)]
      else if in_bytes 0xE0 0xE0 c then Some [(0xA0, 0xBF), (0x80, 0xBF)]
      else if in_bytes 0xED 0xED c then Some [(0x80, 0x9F), (0x80, 0xBF)]
      else if in_bytes 0xE1 0xEF c then Some [(0x80, 0xBF), (0x80, 0xBF)]
      else if in_bytes 0xF0 0xF0 c then Some [(0x90, 0xBF), (0x80, 0xBF), (0x80, 0xBF)]
      else if in_bytes 0xF1 0xF3 c then Some [(0x80, 0xBF), (0x80, 0xBF), (0x80, 0xBF)]
      else if in_bytes 0xF4 0xF4 c then Some [(0x80, 0x8F), (0x80, 0xBF), (0x80, 0xBF)]
      else None)"

function utf8_ok :: "string \<Rightarrow> bool" where
  "utf8_ok [] = True"
| "utf8_ok (c # s) =
     (case utf8_tail c of
        None \<Rightarrow> False
      | Some ranges \<Rightarrow> length ranges \<le> length s \<and> list_all2 (\<lambda>(lo, hi). in_bytes lo hi) ranges (take (length ranges) s) \<and>
          utf8_ok (drop (length ranges) s))"
  by pat_completeness auto
termination by (relation "measure length") auto

lemma utf8_ok_ascii: "\<forall>c \<in> set s. of_char c < (128 :: nat) \<Longrightarrow> utf8_ok s"
  by (induction s) (auto simp: utf8_tail_def in_bytes_def)

text \<open>The trees FlexBuffers holds.\<close>

fun flex_ok :: "flex \<Rightarrow> bool" where
  "flex_ok (FString s) = utf8_ok s"
| "flex_ok (FUInt n) = (n < 2 ^ 64)"
| "flex_ok (FInt i) = (- (2 ^ 63) \<le> i \<and> i < 2 ^ 63)"
| "flex_ok (FMap kvs) = (distinct (map fst kvs) \<and> (\<forall>(k, v) \<in> set kvs. utf8_ok k \<and> CHR 0x00 \<notin> set k \<and> flex_ok v))"
| "flex_ok (FVector vs) = (\<forall>v \<in> set vs. flex_ok v)"

text \<open>The parser gives a tree back.\<close>

definition reads_back :: "(flex \<Rightarrow> string) \<Rightarrow> (string \<Rightarrow> flex) \<Rightarrow> flex \<Rightarrow> bool" where
  "reads_back GetBuffer toObject v \<longleftrightarrow> flex_norm (toObject (GetBuffer v)) = flex_norm v"

definition flex_codec :: "(flex \<Rightarrow> string) \<Rightarrow> (string \<Rightarrow> flex) \<Rightarrow> bool" where
  "flex_codec GetBuffer toObject \<longleftrightarrow> (\<forall>v. flex_ok v \<longrightarrow> reads_back GetBuffer toObject v)"

text \<open>What the readers look at does not depend on the order of entries.\<close>

lemma map_of_filter: "map_of (filter (\<lambda>x. fst x = k) xs) k = map_of xs k"
  by (induction xs) auto

lemma map_of_sort [simp]: "map_of (sort_key fst xs) k = map_of xs k"
  by (metis map_of_filter sort_key_stable)

lemma flex_get_norm: "flex_get (flex_norm v) k = map_option flex_norm (flex_get v k)"
  by (cases v) (simp_all add: map_of_map)

lemma readers_norm [simp]:
  "js_string d (map_option flex_norm x) = js_string d x" "js_number (map_option flex_norm x) = js_number x"
  by (auto simp: js_string_def js_number_def split: option.split flex.split)

lemma js_uint32_norm [simp]: "js_uint32 (map_option flex_norm x) = js_uint32 x"
  by (simp add: js_uint32_def)

lemma normalizeFieldInfo_norm [simp]: "normalizeFieldInfo (flex_norm f) = normalizeFieldInfo f"
  by (simp add: normalizeFieldInfo_def flex_get_norm)

lemma readers_same:
  assumes "flex_norm w = flex_norm v"
  shows "js_string d (flex_get w k) = js_string d (flex_get v k)" "js_number (flex_get w k) = js_number (flex_get v k)"
    "(case flex_get w k of Some (FVector fs) \<Rightarrow> map normalizeFieldInfo fs | _ \<Rightarrow> []) =
     (case flex_get v k of Some (FVector fs) \<Rightarrow> map normalizeFieldInfo fs | _ \<Rightarrow> [])"
proof -
  have get: "map_option flex_norm (flex_get w k) = map_option flex_norm (flex_get v k)"
    using assms by (metis flex_get_norm)
  show "js_string d (flex_get w k) = js_string d (flex_get v k)" "js_number (flex_get w k) = js_number (flex_get v k)"
    using get by (metis readers_norm(1), metis readers_norm(2))
  have vec: "(case map_option flex_norm x of Some (FVector fs) \<Rightarrow> map normalizeFieldInfo fs | _ \<Rightarrow> []) =
      (case x of Some (FVector fs) \<Rightarrow> map normalizeFieldInfo fs | _ \<Rightarrow> [])" for x
    by (auto split: option.split flex.split)
  show "(case flex_get w k of Some (FVector fs) \<Rightarrow> map normalizeFieldInfo fs | _ \<Rightarrow> []) =
     (case flex_get v k of Some (FVector fs) \<Rightarrow> map normalizeFieldInfo fs | _ \<Rightarrow> [])"
    using vec [of "flex_get w k"] vec [of "flex_get v k"] get by simp
qed

section \<open>The round trip\<close>

text \<open>The members \<open>format\<close> are of type \<open>int32_t\<close>.\<close>

definition int32_fields :: "ResultSchema \<Rightarrow> bool" where
  "int32_fields schema \<longleftrightarrow> (\<forall>f \<in> set (rs_fields schema). \<bar>fi_format f\<bar> \<le> 2 ^ 31)"

lemma js_Number_0 [simp]: "js_Number 0 = 0"
  by (simp add: js_Number_exact)

lemma js_Number_uint [simp]: "js_Number (uint (w :: 32 word)) = uint w"
proof -
  have "uint w < 2 ^ 32" using uint_lt2p [of w] by simp
  then show ?thesis by (subst js_Number_exact) simp_all
qed

lemma normalizeFieldInfo_AddFieldInfo:
  "\<bar>fi_format f\<bar> \<le> 2 ^ 31 \<Longrightarrow> normalizeFieldInfo (AddFieldInfo f) = f\<lparr>fi_name := c_str (fi_name f)\<rparr>"
  by (simp add: normalizeFieldInfo_def AddFieldInfo_def js_string_def js_uint32_def js_number_def js_Number_exact)

lemma decode_encode_schema:
  assumes "reads_back GetBuffer toObject (schema_tree schema)" "int32_fields schema"
  shows "decodeResultSchema toObject (EncodeResultSchema GetBuffer schema) = c_str_schema schema"
  using assms(2) unfolding decodeResultSchema_def EncodeResultSchema_def Let_def readers_same [OF assms(1) [unfolded reads_back_def]]
  by (auto simp: schema_tree_def js_string_def c_str_schema_def int32_fields_def normalizeFieldInfo_AddFieldInfo)

lemma decode_encode_trailer:
  assumes "reads_back GetBuffer toObject (trailer_tree trailer)"
  shows "decodeResultTrailer toObject (EncodeResultTrailer GetBuffer trailer) =
    (c_str (rt_command_tag trailer), js_Number (rt_row_count trailer), if rt_oid trailer = 0 then None else Some (uint (rt_oid trailer)))"
  unfolding decodeResultTrailer_def EncodeResultTrailer_def Let_def readers_same [OF assms [unfolded reads_back_def]]
  by (simp add: trailer_tree_def js_string_def js_number_def unsigned_eq_0_iff)

lemma decode_encode_error:
  assumes "reads_back GetBuffer toObject (error_tree error)"
  shows "decodePgError toObject (EncodePgError GetBuffer error) = c_str_error error"
  unfolding decodePgError_def EncodePgError_def Let_def readers_same [OF assms [unfolded reads_back_def]]
  by (simp add: error_tree_def js_string_def c_str_error_def)

text \<open>C34: What the client reads from a schema, trailer or error the server encodes is that value, its strings cut at their
  first NUL byte, and a zero object id read as null; the row count is rounded to a double, so it is exact
  up to \<open>2 ^ 53\<close>. This holds for every FlexBuffers implementation that gives back, up to the order of map entries, the trees it can
  hold, and for values it can hold: strings of valid UTF-8 up to their first NUL, a row count of 64 bits and formats of 32 bits.\<close>

theorem flex_meta_round_trip:
  assumes "flex_codec GetBuffer toObject"
    and "flex_ok (schema_tree schema)" "int32_fields schema" "flex_ok (trailer_tree trailer)" "flex_ok (error_tree error)"
  shows "decodeResultSchema toObject (EncodeResultSchema GetBuffer schema) = c_str_schema schema
    \<and> decodeResultTrailer toObject (EncodeResultTrailer GetBuffer trailer) =
        (c_str (rt_command_tag trailer), js_Number (rt_row_count trailer),
         if rt_oid trailer = 0 then None else Some (uint (rt_oid trailer)))
    \<and> (\<bar>rt_row_count trailer\<bar> \<le> 2 ^ 53 \<longrightarrow> js_Number (rt_row_count trailer) = rt_row_count trailer)
    \<and> decodePgError toObject (EncodePgError GetBuffer error) = c_str_error error"
  using assms unfolding flex_codec_def
  by (simp add: decode_encode_schema decode_encode_trailer decode_encode_error js_Number_exact)

definition demo_schema :: ResultSchema where
  "demo_schema = \<lparr>rs_command = ''SELECT'', rs_fields =
     [\<lparr>fi_name = ''id'', fi_table_oid = 1, fi_column_id = 1, fi_data_type_oid = 23, fi_format = 0\<rparr>]\<rparr>"

theorem flex_meta_round_trip_witness:
  "\<exists>GetBuffer toObject. flex_codec GetBuffer toObject \<and>
     decodeResultSchema toObject (EncodeResultSchema GetBuffer demo_schema) = demo_schema \<and>
     decodeResultTrailer toObject (EncodeResultTrailer GetBuffer \<lparr>rt_command_tag = ''SELECT 2'', rt_row_count = 2, rt_oid = 0\<rparr>) = (''SELECT 2'', 2, None)"
proof -
  let ?get = "\<lambda>v :: flex. replicate (to_nat v) (CHR ''x'')"
  let ?obj = "\<lambda>s :: string. from_nat (length s) :: flex"
  let ?trailer = "\<lparr>rt_command_tag = ''SELECT 2'', rt_row_count = 2, rt_oid = 0\<rparr> :: ResultTrailer"
  have codec: "flex_codec ?get ?obj" by (simp add: flex_codec_def reads_back_def)
  have ok: "flex_ok (schema_tree demo_schema)" "int32_fields demo_schema" "flex_ok (trailer_tree ?trailer)" "flex_ok (error_tree PgError_init)"
    by (simp_all add: schema_tree_def AddFieldInfo_def trailer_tree_def error_tree_def PgError_init_def demo_schema_def c_str_def
        utf8_tail_def in_bytes_def int32_fields_def)
  have "c_str_schema demo_schema = demo_schema" by (simp add: c_str_schema_def demo_schema_def)
  with codec flex_meta_round_trip [OF codec ok] show ?thesis
    by (intro exI [of _ ?obj] exI [of _ ?get]) simp
qed

end
