(* ===== verification/Query_Meta.thy ===== *)
theory Query_Meta
  imports Libpq_Result Flex_Meta
begin

text \<open>
  \<open>src/src/codec/query_meta.cpp\<close>: which statements are streamed through a cursor, and the schema and
  trailer metadata built from a libpq result.
\<close>

section \<open>Model\<close>

definition upcase :: "string \<Rightarrow> string" where
  "upcase token = map toupper token"

definition CommandFromStatus :: "string option \<Rightarrow> string" where
  "CommandFromStatus status =
     (case status of
        None \<Rightarrow> ''SELECT''
      | Some tag \<Rightarrow>
          if tag = [] then ''SELECT''
          else
            let space = find_index (\<lambda>c. c \<in> {CHR '' '', CHR 0x09}) tag;
                token = (case space of None \<Rightarrow> tag | Some i \<Rightarrow> substr 0 i tag)
            in if token = [] then ''SELECT'' else upcase token)"

definition sql_space :: "char \<Rightarrow> bool" where
  "sql_space c \<longleftrightarrow> c \<in> {CHR '' '', CHR 0x09, CHR 0x0D, CHR 0x0A}"

definition TrimSql :: "string \<Rightarrow> string" where
  "TrimSql sql =
     (case find_index (\<lambda>c. \<not> sql_space c) sql of
        None \<Rightarrow> []
      | Some b \<Rightarrow>
          (case find_last_index (\<lambda>c. \<not> sql_space c) sql of
             None \<Rightarrow> []
           | Some e \<Rightarrow> substr b (e - b + 1) sql))"

definition UpperToken :: "string \<Rightarrow> string" where
  "UpperToken sql =
     (let trimmed = TrimSql sql;
          space = find_index (\<lambda>c. sql_space c \<or> c = CHR ''('') trimmed;
          token = (case space of None \<Rightarrow> trimmed | Some i \<Rightarrow> substr 0 i trimmed)
      in upcase token)"

definition IsTupleStreamingSql :: "string \<Rightarrow> bool" where
  "IsTupleStreamingSql sql =
     (let token = UpperToken sql
      in token = ''SELECT'' \<or> token = ''WITH'' \<or> token = ''TABLE'' \<or> token = ''VALUES'')"

definition build_field :: "PGresult \<Rightarrow> int \<Rightarrow> FieldInfo" where
  "build_field result col =
     \<lparr>fi_name = (case PQfname result col of None \<Rightarrow> [] | Some s \<Rightarrow> s),
      fi_table_oid = PQftable result col,
      fi_column_id = word_of_int (PQftablecol result col),
      fi_data_type_oid = PQftype result col,
      fi_format = PQfformat result col\<rparr>"

definition BuildSchemaMeta :: "PGresult \<Rightarrow> ResultSchema" where
  "BuildSchemaMeta result =
     \<lparr>rs_command = CommandFromStatus (PQcmdStatus result),
      rs_fields = map (build_field result) [0..PQnfields result - 1]\<rparr>"

definition BuildCommandTrailer :: "PGresult \<Rightarrow> ResultTrailer" where
  "BuildCommandTrailer result =
     (let cmd_status = PQcmdStatus result;
          tag = CommandFromStatus cmd_status
      in if PQresultStatus result = PGRES_COMMAND_OK
         then \<lparr>rt_command_tag = (case cmd_status of Some s \<Rightarrow> s | None \<Rightarrow> tag),
               rt_row_count = (case PQcmdTuples result of
                  Some tuples \<Rightarrow> fst (strtol 10 tuples) | None \<Rightarrow> 0),
               rt_oid = 0\<rparr>
         else
           let num_rows = PQntuples result;
               tag = tag @ '' '' @ to_string num_rows
           in \<lparr>rt_command_tag = (case cmd_status of Some s \<Rightarrow> s | None \<Rightarrow> tag),
               rt_row_count = num_rows,
               rt_oid = 0\<rparr>)"

section \<open>Properties\<close>

lemma TrimSql_split:
  "\<exists>w. (\<forall>c \<in> set w. sql_space c) \<and> dropWhile sql_space sql = TrimSql sql @ w"
proof (cases "find_index (\<lambda>c. \<not> sql_space c) sql")
  case None
  then have "dropWhile sql_space sql = []" by (simp add: find_index_None_iff)
  with None show ?thesis by (intro exI [of _ "[]"]) (simp add: TrimSql_def)
next
  case (Some b)
  then obtain e where e: "find_last_index (\<lambda>c. \<not> sql_space c) sql = Some e"
    by (metis find_index_None_iff find_last_index_None_iff not_Some_eq)
  let ?w = "drop (Suc e) sql"
  have "b \<le> e" using Some e by (rule find_index_le_find_last_index)
  then have "drop (e - b + 1) (drop b sql) = ?w" by simp
  then have "drop b sql = take (e - b + 1) (drop b sql) @ ?w"
    using append_take_drop_id [of "e - b + 1" "drop b sql"] by simp
  moreover have "dropWhile sql_space sql = drop b sql"
    using drop_find_index [OF Some] by simp
  moreover have "TrimSql sql = take (e - b + 1) (drop b sql)"
    using Some e by (simp add: TrimSql_def substr_def)
  ultimately have "dropWhile sql_space sql = TrimSql sql @ ?w" by (simp only:)
  moreover have "\<forall>c \<in> set ?w. sql_space c"
    using find_last_index_SomeD [OF e] by blast
  ultimately show ?thesis by blast
qed

lemma takeWhile_append_stop:
  "(\<forall>c \<in> set w. \<not> P c) \<Longrightarrow> takeWhile P (xs @ w) = takeWhile P xs"
proof (induction xs)
  case Nil
  then show ?case by (cases w) simp_all
qed simp

lemma take_to_find_index:
  "(case find_index P xs of None \<Rightarrow> xs | Some i \<Rightarrow> substr 0 i xs) = takeWhile (\<lambda>x. \<not> P x) xs"
proof (cases "find_index P xs")
  case None
  then have "takeWhile (\<lambda>x. \<not> P x) xs = xs" by (simp add: find_index_None_iff takeWhile_eq_all_conv)
  then show ?thesis by (simp only: None option.case)
next
  case (Some i)
  then show ?thesis by (simp add: substr_def take_find_index)
qed

lemma UpperToken_eq:
  "UpperToken sql =
     upcase (takeWhile (\<lambda>c. \<not> (sql_space c \<or> c = CHR ''('')) (dropWhile sql_space sql))"
proof -
  obtain w where w: "\<forall>c \<in> set w. sql_space c" and split: "dropWhile sql_space sql = TrimSql sql @ w"
    using TrimSql_split by blast
  have "takeWhile (\<lambda>c. \<not> (sql_space c \<or> c = CHR ''('')) (TrimSql sql @ w) =
        takeWhile (\<lambda>c. \<not> (sql_space c \<or> c = CHR ''('')) (TrimSql sql)"
    by (rule takeWhile_append_stop) (use w in blast)
  then show ?thesis by (simp only: UpperToken_def Let_def take_to_find_index split)
qed

text \<open>C35: A statement is streamed through a cursor exactly when its first word - after leading white
  space, up to white space or an opening parenthesis, in any mixture of cases - is SELECT, WITH,
  TABLE or VALUES; surrounding white space never matters.\<close>

theorem IsTupleStreamingSql_first_word:
  "IsTupleStreamingSql sql \<longleftrightarrow>
     upcase (takeWhile (\<lambda>c. \<not> (sql_space c \<or> c = CHR ''('')) (dropWhile sql_space sql))
       \<in> {''SELECT'', ''WITH'', ''TABLE'', ''VALUES''}"
  by (simp add: IsTupleStreamingSql_def Let_def UpperToken_eq)

lemma CommandFromStatus_tag:
  assumes "word \<noteq> []" "CHR '' '' \<notin> set word" "CHR 0x09 \<notin> set word"
  shows "CommandFromStatus (Some (word @ CHR '' '' # rest)) = upcase word"
proof -
  have "takeWhile (\<lambda>c. \<not> c \<in> {CHR '' '', CHR 0x09}) (word @ CHR '' '' # rest) = word"
    using assms(2,3) by (induction word) auto
  moreover have "(case find_index (\<lambda>c. c \<in> {CHR '' '', CHR 0x09}) (word @ CHR '' '' # rest) of
      None \<Rightarrow> word @ CHR '' '' # rest | Some i \<Rightarrow> substr 0 i (word @ CHR '' '' # rest)) =
      takeWhile (\<lambda>c. \<not> c \<in> {CHR '' '', CHR 0x09}) (word @ CHR '' '' # rest)"
    by (rule take_to_find_index)
  ultimately show ?thesis using assms(1) by (simp add: CommandFromStatus_def Let_def)
qed

lemma CommandFromStatus_nonempty: "CommandFromStatus status \<noteq> []"
  by (auto simp: CommandFromStatus_def Let_def upcase_def split: option.splits)

end
