(* ===== verification/Streaming_Query.thy ===== *)
theory Streaming_Query
  imports Query_Executor Query_Meta
begin

text \<open>
  \<open>src/src/pg/streaming_query.cpp\<close>: one query whose rows are fetched in portions, through a server-side
  cursor inside a transaction for a tuple-returning statement, and by a single execution otherwise.
  A method runs on the pair of the \<open>StreamingQuery\<close> object and the world; an \<open>error_out\<close> argument is
  passed in and returned. \<open>connection_->\<close> of a null pointer is not reached: the methods that
  dereference it run after \<open>AcquireConnection\<close> succeeded or test it first.
\<close>

section \<open>State\<close>

record stream_world = store_world +
  g_cursor_counter :: "64 word"

record StreamingQuery =
  sq_session_defaults :: ConnectParams
  sq_fetch_size :: int
  sq_connection :: "conn option"
  sq_pooled :: bool
  sq_use_session :: bool
  sq_use_cursor :: bool
  sq_started_local_txn :: bool
  sq_cursor_open :: bool
  sq_immediate_done :: bool
  sq_immediate_result :: "PGresult option"
  sq_cursor_name :: string
  sq_request :: "QueryRequest option"

definition StreamingQuery_init :: "ConnectParams \<Rightarrow> int \<Rightarrow> StreamingQuery" where
  "StreamingQuery_init session_defaults fetch_size =
     \<lparr>sq_session_defaults = session_defaults, sq_fetch_size = (if fetch_size > 0 then fetch_size else 10000),
      sq_connection = None, sq_pooled = False, sq_use_session = False, sq_use_cursor = False,
      sq_started_local_txn = False, sq_cursor_open = False, sq_immediate_done = False,
      sq_immediate_result = None, sq_cursor_name = [], sq_request = None\<rparr>"

type_synonym ('w, 'b) sq_proc = "(StreamingQuery \<times> 'w stream_world_scheme, 'b) proc"

definition get_q :: "(StreamingQuery \<Rightarrow> 'b) \<Rightarrow> ('w, 'b) sq_proc" where
  "get_q f = get_m (\<lambda>p. f (fst p))"

definition upd_q :: "(StreamingQuery \<Rightarrow> StreamingQuery) \<Rightarrow> ('w, unit) sq_proc" where
  "upd_q f = upd_m (\<lambda>p. (f (fst p), snd p))"

text \<open>\<open>error_out != nullptr && error_out->empty()\<close> guards an assignment.\<close>

definition set_error_if_empty :: "err_ptr \<Rightarrow> string \<Rightarrow> err_ptr" where
  "set_error_if_empty err msg = (if err = Some [] then Some msg else err)"

section \<open>Helpers\<close>

definition IsOkStatus :: "ExecStatusType \<Rightarrow> bool" where
  "IsOkStatus status \<longleftrightarrow> status = PGRES_TUPLES_OK \<or> status = PGRES_COMMAND_OK \<or> status = PGRES_EMPTY_QUERY"

definition Exec :: "libpq \<Rightarrow> conn \<Rightarrow> string \<Rightarrow> ('w, PGresult option) sq_proc" where
  "Exec L c sql = world_m (PQexec_m L c (c_str sql))"

definition ClearResult :: "PGresult option \<Rightarrow> ('w, unit) sq_proc" where
  "ClearResult result = world_m (PQclear_m result)"

definition ExecParams :: "libpq \<Rightarrow> conn \<Rightarrow> string \<Rightarrow> ParamBuffers \<Rightarrow> int \<Rightarrow> ('w, PGresult option) sq_proc" where
  "ExecParams L c sql params result_format = world_m (PQexecParams_m L c (c_str sql) params result_format)"

definition cursor_name :: "64 word \<Rightarrow> string" where
  "cursor_name n = ''mtdd_c_'' @ nat_to_string (unat n)"

definition declare_text :: "string \<Rightarrow> string \<Rightarrow> string" where
  "declare_text name text = ''DECLARE '' @ name @ '' NO SCROLL CURSOR FOR '' @ text"

definition fetch_text :: "int \<Rightarrow> string \<Rightarrow> string" where
  "fetch_text fetch_size name = ''FETCH FORWARD '' @ to_string fetch_size @ '' FROM '' @ name"

definition NextCursorName :: "('w, string) sq_proc" where
  "NextCursorName =
     bind_m (world_m (get_m g_cursor_counter)) (\<lambda>id.
     bind_m (world_m (upd_m (\<lambda>s. s\<lparr>g_cursor_counter := id + 1\<rparr>))) (\<lambda>_.
     ret_m (cursor_name id)))"

section \<open>Methods\<close>

definition AcquireConnection :: "libpq \<Rightarrow> QueryRequest \<Rightarrow> err_ptr \<Rightarrow> ('w, bool \<times> err_ptr) sq_proc" where
  "AcquireConnection L request error_out =
     bind_m (upd_q (\<lambda>q. q\<lparr>sq_use_session := (qr_session_id request \<noteq> [])\<rparr>)) (\<lambda>_.
     if qr_session_id request \<noteq> [] then
       bind_m (get_q sq_session_defaults) (\<lambda>defaults.
       bind_m (world_m (GetOrCreate L (qr_session_id request) defaults error_out)) (\<lambda>(conn, error_out').
       bind_m (upd_q (\<lambda>q. q\<lparr>sq_connection := conn\<rparr>)) (\<lambda>_.
       if conn = None then ret_m (False, error_out')
       else bind_m (upd_q (\<lambda>q. q\<lparr>sq_pooled := False\<rparr>)) (\<lambda>_. ret_m (True, error_out')))))
     else
       bind_m (world_m (Acquire L)) (\<lambda>conn.
       bind_m (upd_q (\<lambda>q. q\<lparr>sq_connection := conn\<rparr>)) (\<lambda>_.
       if conn = None then ret_m (False, set_error error_out ''failed to acquire database connection'')
       else bind_m (upd_q (\<lambda>q. q\<lparr>sq_pooled := True\<rparr>)) (\<lambda>_. ret_m (True, error_out)))))"

definition ReleaseConnection :: "libpq \<Rightarrow> bool \<Rightarrow> ('w, unit) sq_proc" where
  "ReleaseConnection L broken =
     bind_m (get_q sq_connection) (\<lambda>connection.
     case connection of
       None \<Rightarrow> ret_m ()
     | Some c \<Rightarrow>
         bind_m (get_q sq_pooled) (\<lambda>pooled.
         bind_m (if pooled then
                   bind_m (world_m (get_m (\<lambda>s. IsHealthy L (history s) c))) (\<lambda>healthy.
                   world_m (return_lease L c (broken \<or> \<not> healthy)))
                 else world_m (share_drop c)) (\<lambda>_.
         upd_q (\<lambda>q. q\<lparr>sq_connection := None, sq_pooled := False\<rparr>))))"

definition BeginIfNeeded :: "libpq \<Rightarrow> err_ptr \<Rightarrow> ('w, bool \<times> err_ptr) sq_proc" where
  "BeginIfNeeded L error_out =
     bind_m (get_q (\<lambda>q. the (sq_connection q))) (\<lambda>c.
     with_lock c (
       bind_m (world_m (get_m (\<lambda>s. PQtransactionStatus L (history s) c))) (\<lambda>txn.
       if txn = PQTRANS_IDLE then
         bind_m (Exec L c ''BEGIN'') (\<lambda>result.
         let ok = (result_status L result = PGRES_COMMAND_OK)
         in bind_m (if \<not> ok \<and> error_out \<noteq> None then ret_m (set_error error_out (result_error L result))
                    else bind_m (upd_q (\<lambda>q. q\<lparr>sq_started_local_txn := ok\<rparr>)) (\<lambda>_. ret_m error_out)) (\<lambda>error_out'.
            bind_m (ClearResult result) (\<lambda>_. ret_m (ok, error_out'))))
       else if txn = PQTRANS_INERROR then
         ret_m (False, set_error error_out ''connection is in failed transaction state'')
       else ret_m (True, error_out))))"

definition EndTransaction :: "libpq \<Rightarrow> bool \<Rightarrow> err_ptr \<Rightarrow> ('w, err_ptr) sq_proc" where
  "EndTransaction L commit error_out =
     bind_m (get_m fst) (\<lambda>q.
     case sq_connection q of
       None \<Rightarrow> ret_m error_out
     | Some c \<Rightarrow>
         if \<not> sq_started_local_txn q then ret_m error_out
         else with_lock c (
           bind_m (Exec L c (if commit then ''COMMIT'' else ''ROLLBACK'')) (\<lambda>result.
           let error_out' = (if result_status L result \<noteq> PGRES_COMMAND_OK
                             then set_error_if_empty error_out (result_error L result) else error_out)
           in bind_m (ClearResult result) (\<lambda>_.
              bind_m (upd_q (\<lambda>q. q\<lparr>sq_started_local_txn := False\<rparr>)) (\<lambda>_. ret_m error_out')))))"

text \<open>\<open>OpenCursor\<close> after \<open>BeginIfNeeded\<close>: the statement is declared under the lock, which is still held when
  the transaction is ended on a refusal.\<close>

definition DeclareCursor :: "libpq \<Rightarrow> QueryRequest \<Rightarrow> err_ptr \<Rightarrow> ('w, bool \<times> err_ptr) sq_proc" where
  "DeclareCursor L request error_out =
     bind_m NextCursorName (\<lambda>name.
     bind_m (upd_q (\<lambda>q. q\<lparr>sq_cursor_name := name\<rparr>)) (\<lambda>_.
     bind_m (get_q (\<lambda>q. the (sq_connection q))) (\<lambda>c.
     with_lock c (
       bind_m (ExecParams L c (declare_text name (qr_text request)) (BuildParams request) (result_format_of request)) (\<lambda>result.
       if result_status L result \<noteq> PGRES_COMMAND_OK then
         bind_m (ClearResult result) (\<lambda>_.
         bind_m (EndTransaction L False (set_error error_out (result_error L result))) (\<lambda>error_out.
         ret_m (False, error_out)))
       else
         bind_m (ClearResult result) (\<lambda>_.
         bind_m (upd_q (\<lambda>q. q\<lparr>sq_cursor_open := True\<rparr>)) (\<lambda>_. ret_m (True, error_out))))))))"

definition OpenCursor :: "libpq \<Rightarrow> QueryRequest \<Rightarrow> err_ptr \<Rightarrow> ('w, bool \<times> err_ptr) sq_proc" where
  "OpenCursor L request error_out =
     bind_m (BeginIfNeeded L error_out) (\<lambda>(begun, error_out).
     if \<not> begun then ret_m (False, error_out) else DeclareCursor L request error_out)"

definition CloseCursor :: "libpq \<Rightarrow> err_ptr \<Rightarrow> ('w, err_ptr) sq_proc" where
  "CloseCursor L error_out =
     bind_m (get_m fst) (\<lambda>q.
     case sq_connection q of
       None \<Rightarrow> ret_m error_out
     | Some c \<Rightarrow>
         if \<not> sq_cursor_open q then ret_m error_out
         else with_lock c (
           bind_m (Exec L c (''CLOSE '' @ sq_cursor_name q)) (\<lambda>result.
           let error_out' = (if result_status L result \<noteq> PGRES_COMMAND_OK
                             then set_error_if_empty error_out (result_error L result) else error_out)
           in bind_m (ClearResult result) (\<lambda>_.
              bind_m (upd_q (\<lambda>q. q\<lparr>sq_cursor_open := False\<rparr>)) (\<lambda>_. ret_m error_out')))))"

definition ExecuteImmediate :: "libpq \<Rightarrow> QueryRequest \<Rightarrow> err_ptr \<Rightarrow> ('w, PGresult option \<times> err_ptr) sq_proc" where
  "ExecuteImmediate L request error_out =
     bind_m (get_q (\<lambda>q. the (sq_connection q))) (\<lambda>c.
     with_lock c (
       bind_m (ExecParams L c (qr_text request) (BuildParams request) (result_format_of request)) (\<lambda>result.
       bind_m (world_m (get_m (\<lambda>s. ErrorMessage L (history s) c))) (\<lambda>conn_error.
       let status = (case result of Some r \<Rightarrow> PQresultStatus r | None \<Rightarrow> PGRES_FATAL_ERROR)
       in if status = PGRES_FATAL_ERROR \<or> status = PGRES_NONFATAL_ERROR then
            bind_m (ClearResult result) (\<lambda>_.
            ret_m (None, set_error error_out (case result of Some r \<Rightarrow> PQresultErrorMessage r | None \<Rightarrow> conn_error)))
          else if \<not> IsOkStatus status then
            bind_m (ClearResult result) (\<lambda>_. ret_m (None, set_error error_out (result_error L result)))
          else ret_m (result, error_out)))))"

definition FetchCursor :: "libpq \<Rightarrow> err_ptr \<Rightarrow> ('w, PGresult option \<times> err_ptr) sq_proc" where
  "FetchCursor L error_out =
     bind_m (get_m fst) (\<lambda>q.
     case sq_connection q of
       None \<Rightarrow> ret_m (None, error_out)
     | Some c \<Rightarrow>
         if \<not> sq_cursor_open q then ret_m (None, error_out)
         else with_lock c (
           bind_m (Exec L c (fetch_text (sq_fetch_size q) (sq_cursor_name q))) (\<lambda>result.
           bind_m (world_m (get_m (\<lambda>s. ErrorMessage L (history s) c))) (\<lambda>conn_error.
           let status = (case result of Some r \<Rightarrow> PQresultStatus r | None \<Rightarrow> PGRES_FATAL_ERROR)
           in if status \<noteq> PGRES_TUPLES_OK then
                bind_m (ClearResult result) (\<lambda>_.
                ret_m (None, set_error error_out (case result of Some r \<Rightarrow> PQresultErrorMessage r | None \<Rightarrow> conn_error)))
              else ret_m (result, error_out)))))"

text \<open>The part of \<open>Open\<close> for a statement that is executed at once.\<close>

definition OpenImmediate :: "libpq \<Rightarrow> QueryRequest \<Rightarrow> err_ptr \<Rightarrow> ('w, bool \<times> err_ptr) sq_proc" where
  "OpenImmediate L request error_out =
     bind_m (ExecuteImmediate L request error_out) (\<lambda>(result, error_out).
     bind_m (upd_q (\<lambda>q. q\<lparr>sq_immediate_result := result\<rparr>)) (\<lambda>_.
     if result = None then bind_m (ReleaseConnection L True) (\<lambda>_. ret_m (False, error_out))
     else bind_m (upd_q (\<lambda>q. q\<lparr>sq_immediate_done := False\<rparr>)) (\<lambda>_. ret_m (True, error_out))))"

definition Open :: "libpq \<Rightarrow> QueryRequest \<Rightarrow> err_ptr \<Rightarrow> ('w, bool \<times> err_ptr) sq_proc" where
  "Open L request error_out =
     bind_m (upd_q (\<lambda>q. q\<lparr>sq_request := Some request, sq_use_cursor := IsTupleStreamingSql (qr_text request)\<rparr>)) (\<lambda>_.
     bind_m (AcquireConnection L request error_out) (\<lambda>(acquired, error_out).
     if \<not> acquired then ret_m (False, error_out)
     else
       bind_m (get_q sq_use_cursor) (\<lambda>use_cursor.
       if use_cursor then OpenCursor L request error_out
       else
         OpenImmediate L request error_out)))"

definition Fetch :: "libpq \<Rightarrow> err_ptr \<Rightarrow> ('w, PGresult option \<times> err_ptr) sq_proc" where
  "Fetch L error_out =
     bind_m (get_m fst) (\<lambda>q.
     if sq_connection q = None then ret_m (None, error_out)
     else if sq_use_cursor q then FetchCursor L error_out
     else if sq_immediate_done q then ret_m (None, error_out)
     else bind_m (upd_q (\<lambda>q. q\<lparr>sq_immediate_done := True, sq_immediate_result := None\<rparr>)) (\<lambda>_.
          ret_m (sq_immediate_result q, error_out)))"

definition clear_immediate :: "('w, unit) sq_proc" where
  "clear_immediate =
     bind_m (get_q sq_immediate_result) (\<lambda>r.
     bind_m (ClearResult r) (\<lambda>_. upd_q (\<lambda>q. q\<lparr>sq_immediate_result := None\<rparr>)))"

definition Close :: "libpq \<Rightarrow> err_ptr \<Rightarrow> ('w, err_ptr) sq_proc" where
  "Close L error_out =
     bind_m clear_immediate (\<lambda>_.
     bind_m (get_q sq_use_cursor) (\<lambda>use_cursor.
     bind_m (if use_cursor then bind_m (CloseCursor L error_out) (\<lambda>error_out. EndTransaction L True error_out)
             else ret_m error_out) (\<lambda>error_out.
     bind_m (ReleaseConnection L False) (\<lambda>_. ret_m error_out))))"

definition Abort :: "libpq \<Rightarrow> ('w, unit) sq_proc" where
  "Abort L =
     bind_m clear_immediate (\<lambda>_.
     bind_m (get_m fst) (\<lambda>q.
     bind_m (if sq_use_cursor q \<and> sq_cursor_open q then CloseCursor L (Some []) else ret_m (Some [])) (\<lambda>ignored.
     bind_m (get_q sq_started_local_txn) (\<lambda>started.
     bind_m (if started then EndTransaction L False ignored else ret_m ignored) (\<lambda>_.
     ReleaseConnection L True)))))"

text \<open>The destructor of the object: its pointer, if still set, is dropped.\<close>

definition destroy_stream :: "('w, unit) sq_proc" where
  "destroy_stream =
     bind_m (get_q sq_connection) (\<lambda>connection.
     case connection of None \<Rightarrow> ret_m () | Some c \<Rightarrow> world_m (share_drop c))"

section \<open>Weakest preconditions of the methods\<close>

lemma wp_get_q [wp_simps]: "wp (get_q f) Q (q, s) = Q (f q) (q, s)"
  by (simp add: get_q_def wp_simps)

lemma wp_upd_q [wp_simps]: "wp (upd_q f) Q (q, s) = Q () (f q, s)"
  by (simp add: upd_q_def wp_simps)

lemma c_str_Nil [simp]: "c_str [] = []"
  by (simp add: c_str_def)

lemmas stream_calls = Exec_def ClearResult_def ExecParams_def

text \<open>One statement under the connection's lock: run, read, cleared.\<close>

definition ran :: "libpq \<Rightarrow> conn \<Rightarrow> string \<Rightarrow> history \<Rightarrow> history" where
  "ran L c sql h =
     (case PQexec L h c sql of
        None \<Rightarrow> EvExec c sql None # h
      | Some x \<Rightarrow> EvClear x # EvExec c sql (Some x) # h)"

lemma ran_facts [simp]:
  "length h \<le> length (ran L c sql h)"
  "length g \<le> length h \<Longrightarrow> statements c (events_since g (ran L c sql h)) = sql # statements c (events_since g h)"
  "length g \<le> length h \<Longrightarrow> finished (events_since g (ran L c sql h)) = finished (events_since g h)"
  "length g \<le> length h \<Longrightarrow> cleared (events_since g (ran L c sql h)) =
     set_option (PQexec L h c sql) \<union> cleared (events_since g h)"
  "finished (ran L c sql h) = finished h"
  by (auto simp: ran_def split: option.split)

lemma ran_length [simp]: "length g \<le> length h \<Longrightarrow> length g \<le> length (ran L c sql h)"
  by (rule order_trans, assumption, simp)

lemma extends_ran [simp, intro]: "extends g h \<Longrightarrow> extends g (ran L c sql h)"
  by (auto simp: ran_def split: option.split)

lemma wp_EndTransaction:
  assumes "sq_connection q = Some c" "c \<notin> held s"
  shows "wp (EndTransaction L commit err) Q (q, s) =
    (if \<not> sq_started_local_txn q then Q err (q, s)
     else let sql = (if commit then ''COMMIT'' else ''ROLLBACK'');
              r = PQexec L (history s) c sql
          in Q (if result_status L r \<noteq> PGRES_COMMAND_OK then set_error_if_empty err (result_error L r) else err)
               (q\<lparr>sq_started_local_txn := False\<rparr>, s\<lparr>history := ran L c sql (history s)\<rparr>))"
  using assms
  by (auto simp: EndTransaction_def wp_simps stream_calls Let_def ran_def split: option.splits)

lemma wp_CloseCursor:
  assumes "sq_connection q = Some c" "c \<notin> held s"
  shows "wp (CloseCursor L err) Q (q, s) =
    (if \<not> sq_cursor_open q then Q err (q, s)
     else let sql = c_str (''CLOSE '' @ sq_cursor_name q);
              r = PQexec L (history s) c sql
          in Q (if result_status L r \<noteq> PGRES_COMMAND_OK then set_error_if_empty err (result_error L r) else err)
               (q\<lparr>sq_cursor_open := False\<rparr>, s\<lparr>history := ran L c sql (history s)\<rparr>))"
  using assms
  by (auto simp: CloseCursor_def wp_simps stream_calls Let_def ran_def split: option.splits)

text \<open>
  The connection is given up: a pooled one goes back to the pool, another one loses an owner; on
  PostgreSQL's side at most the connection is closed.
\<close>

definition gives_up :: "conn \<Rightarrow> StreamingQuery \<Rightarrow> 'w stream_world_scheme \<Rightarrow> StreamingQuery \<Rightarrow> 'w stream_world_scheme \<Rightarrow> bool" where
  "gives_up c q s q' s' \<longleftrightarrow>
     q' = q\<lparr>sq_connection := None, sq_pooled := False\<rparr> \<and> held s' = held s \<and>
     cm_in_use (pool s') = cm_in_use (pool s) - (if sq_pooled q then 1 else 0) \<and>
     cm_pool_size (pool s') = cm_pool_size (pool s) \<and> session_store s' = session_store s \<and>
     (\<exists>xs. set xs \<subseteq> {EvFinish c} \<and> history s' = xs @ history s)"

lemma wp_ReleaseConnection:
  assumes "sq_connection q = Some c"
  shows "wp (ReleaseConnection L broken) (\<lambda>_ p. gives_up c q s (fst p) (snd p)) (q, s)"
proof -
  have [simp]: "\<exists>xs. set xs \<subseteq> {EvFinish c} \<and> h = xs @ h" "\<exists>xs. set xs \<subseteq> {EvFinish c} \<and> EvFinish c # h = xs @ h"
    "\<exists>xs. set xs \<subseteq> {EvFinish c} \<and> EvFinish c # EvFinish c # h = xs @ h" for h
    by (rule exI [of _ "[]"], simp) (rule exI [of _ "[EvFinish c]"], simp, rule exI [of _ "[EvFinish c, EvFinish c]"], simp)
  show ?thesis
    using assms
    by (auto simp: ReleaseConnection_def wp_simps return_lease_def wp_Release Let_def IsHealthy_def gives_up_def)
qed

lemma statements_only_finish [simp]: "set xs \<subseteq> {EvFinish c} \<Longrightarrow> statements d xs = [] \<and> results_of xs = {} \<and> cleared xs = {}"
proof (induction xs)
  case (Cons e xs)
  then show ?case by (cases e) auto
qed simp

lemma events_since_trans [simp]:
  "length g \<le> length h \<Longrightarrow> events_since g (xs @ h) = xs @ events_since g h"
  by (induction xs) (simp_all add: le_trans)

lemma wp_clear_immediate [wp_simps]:
  "wp clear_immediate Q (q, s) =
     Q () (q\<lparr>sq_immediate_result := None\<rparr>,
       case sq_immediate_result q of None \<Rightarrow> s | Some x \<Rightarrow> s\<lparr>history := EvClear x # history s\<rparr>)"
  by (simp add: clear_immediate_def wp_simps stream_calls)

text \<open>What every end of a stream achieves, with the statements it sends.\<close>

definition stream_ended ::
    "conn \<Rightarrow> StreamingQuery \<Rightarrow> 'w stream_world_scheme \<Rightarrow> string list \<Rightarrow> StreamingQuery \<Rightarrow> 'w stream_world_scheme \<Rightarrow> bool" where
  "stream_ended c q s sqls q' s' \<longleftrightarrow>
     sq_connection q' = None \<and> sq_immediate_result q' = None \<and> held s' = held s \<and>
     cm_in_use (pool s') = cm_in_use (pool s) - (if sq_pooled q then 1 else 0) \<and>
     cm_pool_size (pool s') = cm_pool_size (pool s) \<and> session_store s' = session_store s \<and>
     extends (history s) (history s') \<and>
     rev (statements c (events_since (history s) (history s'))) = sqls \<and>
     set_option (sq_immediate_result q) \<subseteq> cleared (events_since (history s) (history s'))"

definition end_statements :: "StreamingQuery \<Rightarrow> bool \<Rightarrow> string list" where
  "end_statements q commit =
     (if sq_cursor_open q then [c_str (''CLOSE '' @ sq_cursor_name q)] else []) @
     (if sq_started_local_txn q then [if commit then ''COMMIT'' else ''ROLLBACK''] else [])"

lemma gives_up_ended:
  assumes "gives_up c q1 s1 q' s'" "extends (history s) (history s1)" "held s1 = held s" "pool s1 = pool s"
    "session_store s1 = session_store s" "sq_pooled q1 = sq_pooled q" "sq_immediate_result q1 = None"
    "rev (statements c (events_since (history s) (history s1))) = sqls"
    "set_option (sq_immediate_result q) \<subseteq> cleared (events_since (history s) (history s1))"
  shows "stream_ended c q s sqls q' s'"
  using assms extends_length [OF assms(2)] by (auto simp: gives_up_def stream_ended_def)

lemma wp_ReleaseConnection_ended:
  assumes "sq_connection q1 = Some c" "extends (history s) (history s1)" "held s1 = held s" "pool s1 = pool s"
    "session_store s1 = session_store s" "sq_pooled q1 = sq_pooled q" "sq_immediate_result q1 = None"
    "rev (statements c (events_since (history s) (history s1))) = sqls"
    "set_option (sq_immediate_result q) \<subseteq> cleared (events_since (history s) (history s1))"
  shows "wp (ReleaseConnection L broken) (\<lambda>_ p. stream_ended c q s sqls (fst p) (snd p)) (q1, s1)"
  by (rule wp_mono [OF wp_ReleaseConnection [OF assms(1)]]) (use assms in \<open>blast intro: gives_up_ended\<close>)

lemma wp_Close:
  assumes "sq_connection q = Some c" "c \<notin> held s"
  shows "wp (Close L err) (\<lambda>_ p. stream_ended c q s (if sq_use_cursor q then end_statements q True else []) (fst p) (snd p)) (q, s)"
  using assms
  by (cases "sq_immediate_result q"; cases "sq_cursor_open q"; cases "sq_started_local_txn q"; cases "sq_use_cursor q")
    (auto simp: Close_def wp_simps wp_CloseCursor wp_EndTransaction end_statements_def Let_def
      intro!: wp_ReleaseConnection_ended)

lemma wp_Abort:
  assumes "sq_connection q = Some c" "c \<notin> held s" "sq_cursor_open q \<longrightarrow> sq_use_cursor q"
  shows "wp (Abort L) (\<lambda>_ p. stream_ended c q s (end_statements q False) (fst p) (snd p)) (q, s)"
  using assms
  by (cases "sq_immediate_result q"; cases "sq_cursor_open q"; cases "sq_started_local_txn q"; cases "sq_use_cursor q")
    (auto simp: Abort_def wp_simps wp_CloseCursor wp_EndTransaction end_statements_def Let_def
      intro!: wp_ReleaseConnection_ended)

lemma wp_BeginIfNeeded:
  assumes "sq_connection q = Some c" "c \<notin> held s"
  shows "wp (BeginIfNeeded L err) Q (q, s) =
    (case PQtransactionStatus L (history s) c of
       PQTRANS_IDLE \<Rightarrow>
         let r = PQexec L (history s) c ''BEGIN''; ok = (result_status L r = PGRES_COMMAND_OK) in
         Q (ok, if ok then err else set_error err (result_error L r))
           (if ok \<or> err = None then q\<lparr>sq_started_local_txn := ok\<rparr> else q, s\<lparr>history := ran L c ''BEGIN'' (history s)\<rparr>)
     | PQTRANS_INERROR \<Rightarrow> Q (False, set_error err ''connection is in failed transaction state'') (q, s)
     | _ \<Rightarrow> Q (True, err) (q, s))"
  using assms
  by (auto simp: BeginIfNeeded_def wp_simps stream_calls Let_def ran_def set_error_def
      split: option.splits PGTransactionStatusType.splits)

lemma wp_NextCursorName [wp_simps]:
  "wp NextCursorName Q (q, s) =
     Q (cursor_name (g_cursor_counter s)) (q, s\<lparr>g_cursor_counter := g_cursor_counter s + 1\<rparr>)"
  by (simp add: NextCursorName_def wp_simps)

lemma wp_FetchCursor:
  assumes "sq_connection q = Some c" "c \<notin> held s"
  shows "wp (FetchCursor L err) Q (q, s) =
    (if \<not> sq_cursor_open q then Q (None, err) (q, s)
     else let sql = c_str (fetch_text (sq_fetch_size q) (sq_cursor_name q)) in
       case PQexec L (history s) c sql of
         None \<Rightarrow> Q (None, set_error err (PQerrorMessage L (EvExec c sql None # history s) c))
                   (q, s\<lparr>history := EvExec c sql None # history s\<rparr>)
       | Some x \<Rightarrow>
           if PQresultStatus x = PGRES_TUPLES_OK
           then Q (Some x, err) (q, s\<lparr>history := EvExec c sql (Some x) # history s\<rparr>)
           else Q (None, set_error err (PQresultErrorMessage x)) (q, s\<lparr>history := EvClear x # EvExec c sql (Some x) # history s\<rparr>))"
  using assms
  by (auto simp: FetchCursor_def wp_simps stream_calls Let_def ErrorMessage_def split: option.splits)

text \<open>\<open>with_lock\<close> entered twice by one thread does not return.\<close>

lemma with_lock_held: "c \<in> held (snd p) \<Longrightarrow> with_lock c body p = Inl SelfDeadlock"
  by (simp add: with_lock_def)

lemma with_lock_body_blocks:
  "c \<notin> held (snd p) \<Longrightarrow> body (fst p, (snd p)\<lparr>held := insert c (held (snd p))\<rparr>) = Inl b \<Longrightarrow> with_lock c body p = Inl b"
  by (simp add: with_lock_def bind_m_Inl)

definition declare_sql :: "'w stream_world_scheme \<Rightarrow> QueryRequest \<Rightarrow> string" where
  "declare_sql s request =
     c_str (declare_text (cursor_name (g_cursor_counter s)) (qr_text request))"

definition declare_result :: "libpq \<Rightarrow> conn \<Rightarrow> QueryRequest \<Rightarrow> 'w stream_world_scheme \<Rightarrow> PGresult option" where
  "declare_result L c request s =
     PQexecParams L (history s) c (declare_sql s request) (BuildParams request) (result_format_of request)"

definition declared :: "libpq \<Rightarrow> conn \<Rightarrow> QueryRequest \<Rightarrow> 'w stream_world_scheme \<Rightarrow> 'w stream_world_scheme" where
  "declared L c request s =
     (let r = declare_result L c request s in
      s\<lparr>g_cursor_counter := g_cursor_counter s + 1,
        history := (case r of None \<Rightarrow> [] | Some x \<Rightarrow> [EvClear x]) @
          EvExecParams c (declare_sql s request) (BuildParams request) (result_format_of request) r # history s\<rparr>)"

lemma wp_EndTransaction_locked:
  assumes "sq_connection q = Some c" "c \<in> held s"
  shows "wp (EndTransaction L commit err) Q (q, s) \<longleftrightarrow> \<not> sq_started_local_txn q \<and> Q err (q, s)"
  using assms by (simp add: EndTransaction_def wp_simps)

lemma wp_DeclareCursor:
  assumes "sq_connection q = Some c" "c \<notin> held s"
  shows "wp (DeclareCursor L request err) Q (q, s) =
    (let q1 = q\<lparr>sq_cursor_name := cursor_name (g_cursor_counter s)\<rparr>;
         r = declare_result L c request s in
     if result_status L r = PGRES_COMMAND_OK
     then Q (True, err) (q1\<lparr>sq_cursor_open := True\<rparr>, declared L c request s)
     else \<not> sq_started_local_txn q \<and> Q (False, set_error err (result_error L r)) (q1, declared L c request s))"
  using assms
  by (cases "declare_result L c request s")
    (auto simp: DeclareCursor_def wp_simps stream_calls wp_EndTransaction_locked declared_def declare_result_def
      declare_sql_def Let_def)

lemma DeclareCursor_deadlock:
  assumes "sq_connection q = Some c" "c \<notin> held s" "sq_started_local_txn q"
    and "result_status L (declare_result L c request s) \<noteq> PGRES_COMMAND_OK"
  shows "DeclareCursor L request err (q, s) = Inl SelfDeadlock"
  using assms
  by (cases "declare_result L c request s")
    (auto simp: DeclareCursor_def bind_m_def get_q_def upd_q_def NextCursorName_def world_m_def with_lock_def
     stream_calls PQexecParams_m_def Let_def PQclear_m_def record_event_def EndTransaction_def declare_result_def declare_sql_def)

lemma AcquireConnection_eq:
  "AcquireConnection L request err (q, s) =
     (case Execute_acquire L (sq_session_defaults q) request err s of
        Inl b \<Rightarrow> Inl b
      | Inr ((r, err'), s') \<Rightarrow> Inr ((r \<noteq> None, err'),
          (q\<lparr>sq_use_session := (qr_session_id request \<noteq> []), sq_connection := r,
             sq_pooled := (if r = None then sq_pooled q else qr_session_id request = [])\<rparr>, s')))"
  by (auto simp: AcquireConnection_def Execute_acquire_def bind_m_def get_q_def upd_q_def world_m_def
      split: sum.splits option.splits)

text \<open>The state of the object when \<open>Open\<close> has a connection.\<close>

definition acquired :: "ConnectParams \<Rightarrow> int \<Rightarrow> QueryRequest \<Rightarrow> conn \<Rightarrow> StreamingQuery" where
  "acquired d n request c =
     (StreamingQuery_init d n)\<lparr>sq_request := Some request, sq_use_cursor := IsTupleStreamingSql (qr_text request),
        sq_use_session := (qr_session_id request \<noteq> []), sq_connection := Some c,
        sq_pooled := (qr_session_id request = [])\<rparr>"

lemma acquired_simps [simp]:
  "sq_connection (acquired d n request c) = Some c"
  "sq_use_cursor (acquired d n request c) = IsTupleStreamingSql (qr_text request)"
  "sq_pooled (acquired d n request c) = (qr_session_id request = [])"
  "\<not> sq_started_local_txn (acquired d n request c)"
  "\<not> sq_cursor_open (acquired d n request c)"
  "sq_immediate_result (acquired d n request c) = None"
  "sq_fetch_size (acquired d n request c) = (if n > 0 then n else 10000)"
  by (simp_all add: acquired_def StreamingQuery_init_def)

lemma Open_acquired:
  assumes "Execute_acquire L d request err s = Inr ((Some c, err1), s1)"
  shows "Open L request err (StreamingQuery_init d n, s) =
    (if IsTupleStreamingSql (qr_text request) then OpenCursor L request err1 (acquired d n request c, s1)
     else OpenImmediate L request err1 (acquired d n request c, s1))"
proof -
  let ?q = "(StreamingQuery_init d n)\<lparr>sq_request := Some request, sq_use_cursor := IsTupleStreamingSql (qr_text request)\<rparr>"
  have "AcquireConnection L request err (?q, s) = Inr ((True, err1), (acquired d n request c, s1))"
    using assms by (simp add: AcquireConnection_eq acquired_def StreamingQuery_init_def)
  then show ?thesis by (simp add: Open_def bind_m_def upd_q_def get_q_def)
qed

lemma Open_not_acquired:
  assumes "Execute_acquire L d request err s = Inr ((None, err1), s1)"
  shows "\<exists>q. Open L request err (StreamingQuery_init d n, s) = Inr ((False, err1), (q, s1)) \<and> sq_connection q = None"
  using assms by (simp add: Open_def bind_m_def upd_q_def AcquireConnection_eq StreamingQuery_init_def)

lemma wp_ExecuteImmediate:
  assumes "sq_connection q = Some c" "c \<notin> held s"
  shows "wp (ExecuteImmediate L request err) Q (q, s) =
    (let r = exec_result L request c (history s);
         h = EvExecParams c (c_str (qr_text request)) (BuildParams request) (result_format_of request) r # history s
     in case r of
          None \<Rightarrow> Q (None, set_error err (PQerrorMessage L h c)) (q, s\<lparr>history := h\<rparr>)
        | Some x \<Rightarrow>
            if IsOkStatus (PQresultStatus x) then Q (Some x, err) (q, s\<lparr>history := h\<rparr>)
            else Q (None, set_error err (PQresultErrorMessage x)) (q, s\<lparr>history := EvClear x # h\<rparr>))"
  using assms
  by (cases "exec_result L request c (history s)")
    (auto simp: ExecuteImmediate_def wp_simps stream_calls exec_result_def IsOkStatus_def ErrorMessage_def
      result_error_def Let_def)

section \<open>Transactions\<close>

lemma OpenCursor_spec:
  assumes c: "sq_connection q = Some c" "c \<notin> held s" "\<not> sq_started_local_txn q"
    and run: "OpenCursor L request err (q, s) = Inr ((True, err'), (q', s'))"
  shows "q' = q\<lparr>sq_started_local_txn := (PQtransactionStatus L (history s) c = PQTRANS_IDLE),
           sq_cursor_name := cursor_name (g_cursor_counter s), sq_cursor_open := True\<rparr> \<and>
    held s' = held s \<and> pool s' = pool s \<and> session_store s' = session_store s \<and> err' = err \<and>
    extends (history s) (history s') \<and>
    rev (statements c (events_since (history s) (history s'))) =
      (if sq_started_local_txn q' then [''BEGIN''] else []) @ [declare_sql s request] \<and>
    results_of (events_since (history s) (history s')) \<subseteq> cleared (events_since (history s) (history s'))"
proof (cases "PQtransactionStatus L (history s) c = PQTRANS_IDLE")
  case True
  with run c have ok: "result_status L (PQexec L (history s) c ''BEGIN'') = PGRES_COMMAND_OK"
    by (auto simp: run_wp OpenCursor_def wp_simps wp_BeginIfNeeded Let_def split: if_splits)
  let ?s = "s\<lparr>history := ran L c ''BEGIN'' (history s)\<rparr>"
  from run c True ok have "q' = q\<lparr>sq_started_local_txn := True, sq_cursor_name := cursor_name (g_cursor_counter s),
      sq_cursor_open := True\<rparr>" "s' = declared L c request ?s" "err' = err"
    by (auto simp: run_wp OpenCursor_def wp_simps wp_BeginIfNeeded wp_DeclareCursor Let_def split: if_splits)
  with True show ?thesis
    by (auto simp: declared_def Let_def declare_sql_def ran_def split: option.splits)
next
  case False
  from run c False have "q' = q\<lparr>sq_cursor_name := cursor_name (g_cursor_counter s), sq_cursor_open := True\<rparr>"
    "s' = declared L c request s" "err' = err"
    by (auto simp: run_wp OpenCursor_def wp_simps wp_BeginIfNeeded wp_DeclareCursor Let_def
        split: if_splits PGTransactionStatusType.splits)
  with False c(3) show ?thesis
    by (auto simp: declared_def Let_def declare_sql_def split: option.splits)
qed

text \<open>Any number of fetches; their results are left to the caller.\<close>

fun fetches :: "libpq \<Rightarrow> nat \<Rightarrow> ('w, unit) sq_proc" where
  "fetches L 0 = ret_m ()"
| "fetches L (Suc n) = bind_m (Fetch L (Some [])) (\<lambda>_. fetches L n)"

lemma wp_fetches:
  assumes "sq_connection q = Some c" "c \<notin> held s" "sq_use_cursor q" "sq_cursor_open q" "extends g (history s)"
  shows "wp (fetches L n) (\<lambda>_ p. fst p = q \<and> (\<exists>h. snd p = s\<lparr>history := h\<rparr> \<and> extends g h \<and>
      statements c (events_since g h) =
        replicate n (c_str (fetch_text (sq_fetch_size q) (sq_cursor_name q))) @ statements c (events_since g (history s)))) (q, s)"
  using assms
proof (induction n arbitrary: s)
  case 0
  then show ?case by (auto simp: wp_simps intro!: exI [of _ "history s"])
next
  case (Suc n)
  let ?f = "c_str (fetch_text (sq_fetch_size q) (sq_cursor_name q))"
  let ?Q = "\<lambda>p. fst p = q \<and> (\<exists>h. snd p = s\<lparr>history := h\<rparr> \<and> extends g h \<and>
      statements c (events_since g h) = replicate (Suc n) ?f @ statements c (events_since g (history s)))"
  have step: "wp (fetches L n) (\<lambda>_. ?Q) (q, s\<lparr>history := h\<rparr>)"
    if "extends g h" "statements c (events_since g h) = ?f # statements c (events_since g (history s))" for h
  proof (rule wp_mono [OF Suc.IH])
    fix a p assume "fst p = q \<and> (\<exists>h'. snd p = s\<lparr>history := h, history := h'\<rparr> \<and> extends g h' \<and>
      statements c (events_since g h') = replicate n ?f @ statements c (events_since g (history (s\<lparr>history := h\<rparr>))))"
    with that show "?Q p" by (auto simp: replicate_app_Cons_same)
  qed (use Suc.prems that in auto)
  show ?case
    using Suc.prems extends_length [OF Suc.prems(5)] by (auto simp: wp_simps Fetch_def wp_FetchCursor Let_def split: option.split
        intro!: step [unfolded replicate_Suc append_Cons])
qed

section \<open>Correctness of the streaming query\<close>

text \<open>The statements of one cursor query that is fetched from \<open>n\<close> times.\<close>

definition cursor_script ::
    "QueryRequest \<Rightarrow> 'w stream_world_scheme \<Rightarrow> int \<Rightarrow> nat \<Rightarrow> bool \<Rightarrow> bool \<Rightarrow> string list" where
  "cursor_script request s fetch_size n local_txn commit =
     (let name = cursor_name (g_cursor_counter s) in
      (if local_txn then [''BEGIN''] else []) @ [c_str (declare_text name (qr_text request))]
      @ replicate n (c_str (fetch_text fetch_size name)) @ [c_str (''CLOSE '' @ name)]
      @ (if local_txn then [if commit then ''COMMIT'' else ''ROLLBACK''] else []))"

lemma stream_ended_after:
  assumes ended: "stream_ended c q2 s2 sqls q' s'" and ext: "extends (history s) (history s2)"
    and same: "held s2 = held s" "pool s2 = pool s" "session_store s2 = session_store s" "sq_pooled q2 = sq_pooled q"
      "sq_immediate_result q = None"
  shows "stream_ended c q s (rev (statements c (events_since (history s) (history s2))) @ sqls) q' s'"
proof -
  have ext': "extends (history s2) (history s')" using ended by (simp add: stream_ended_def)
  show ?thesis
    using ended same extends_split [OF ext ext'] extends_trans [OF ext ext'] by (simp add: stream_ended_def)
qed

lemma cursor_run:
  assumes c: "sq_connection q = Some c" "c \<notin> held s" "\<not> sq_started_local_txn q" "sq_use_cursor q" "sq_immediate_result q = None"
    and run: "OpenCursor L request err (q, s) = Inr ((True, err'), (q1, s1))"
    and fin: "\<And>q2 s2. sq_connection q2 = Some c \<Longrightarrow> c \<notin> held s2 \<Longrightarrow> sq_use_cursor q2 \<Longrightarrow>
      wp finish (\<lambda>_ p. stream_ended c q2 s2 (end_statements q2 commit) (fst p) (snd p)) (q2, s2)"
  shows "wp (bind_m (fetches L n) (\<lambda>_. finish)) (\<lambda>_ p. stream_ended c q s
     (cursor_script request s (sq_fetch_size q) n (sq_started_local_txn q1) commit) (fst p) (snd p)) (q1, s1)"
proof -
  note O = OpenCursor_spec [OF c(1,2,3) run]
  have q1: "sq_connection q1 = Some c" "c \<notin> held s1" "sq_use_cursor q1" "sq_cursor_open q1" "sq_pooled q1 = sq_pooled q"
    "sq_fetch_size q1 = sq_fetch_size q" "sq_cursor_name q1 = cursor_name (g_cursor_counter s)"
    using O c by simp_all
  have ext: "extends (history s) (history s1)" using O by simp
  show ?thesis unfolding wp_basic
  proof (rule wp_mono [OF wp_fetches [OF q1(1-4) ext]])
    fix a p
    assume "fst p = q1 \<and> (\<exists>h. snd p = s1\<lparr>history := h\<rparr> \<and> extends (history s) h \<and>
      statements c (events_since (history s) h) =
        replicate n (c_str (fetch_text (sq_fetch_size q1) (sq_cursor_name q1))) @
        statements c (events_since (history s) (history s1)))"
    then obtain h where p: "p = (q1, s1\<lparr>history := h\<rparr>)" and h: "extends (history s) h"
      "statements c (events_since (history s) h) = replicate n (c_str (fetch_text (sq_fetch_size q1) (sq_cursor_name q1)))
        @ statements c (events_since (history s) (history s1))"
      by (metis prod.collapse)
    have "wp finish (\<lambda>_ r. stream_ended c q1 (s1\<lparr>history := h\<rparr>) (end_statements q1 commit) (fst r) (snd r)) p"
      unfolding p by (rule fin) (use q1 in simp_all)
    then show "wp finish (\<lambda>_ r. stream_ended c q s
     (cursor_script request s (sq_fetch_size q) n (sq_started_local_txn q1) commit) (fst r) (snd r)) p"
    proof (rule wp_mono)
      fix b r
      assume "stream_ended c q1 (s1\<lparr>history := h\<rparr>) (end_statements q1 commit) (fst r) (snd r)"
      from stream_ended_after [OF this, of s q] show "stream_ended c q s
     (cursor_script request s (sq_fetch_size q) n (sq_started_local_txn q1) commit) (fst r) (snd r)"
        using O h q1 c(5) by (simp add: end_statements_def cursor_script_def declare_sql_def Let_def)
    qed
  qed
qed

lemma OpenCursor_frame:
  assumes c: "sq_connection q = Some c" "c \<notin> held s" and run: "OpenCursor L request err (q, s) = Inr (r, (q', s'))"
  shows "pool s' = pool s \<and> held s' = held s \<and> sq_connection q' = Some c"
  using run c
  by (auto simp: run_wp OpenCursor_def wp_simps wp_BeginIfNeeded wp_DeclareCursor Let_def declared_def
      split: if_splits PGTransactionStatusType.splits)

lemma Open_cursor_acquired:
  assumes "Execute_acquire L d request err s = Inr ((Some c, err0), s0)" "IsTupleStreamingSql (qr_text request)"
  shows "Open L request err (StreamingQuery_init d k, s) = OpenCursor L request err0 (acquired d k request c, s0)"
  using Open_acquired [OF assms(1), of k] assms(2) by simp

definition demo_stream :: stream_world where
  "demo_stream = \<lparr>history = [], next_conn = 0, refs = (\<lambda>_. 0), held = {}, pool = ConnectionManager_init, pool_cv = CondVar_init,
     session_store = SessionStore_init 4, g_cursor_counter = 41\<rparr>"

lemma accepting_Execute_acquire:
  assumes "accepts_connections L"
  obtains s0 where "Execute_acquire L d demo_request err demo_stream = Inr ((Some 0, err), s0)"
proof -
  obtain s0 where "Acquire L demo_stream = Inr (Some 0, s0)"
    using accepting_Acquire [OF assms, of demo_stream]
    by (auto simp: demo_stream_def ConnectionManager_init_def ConnectParams_init_def)
  then show thesis by (intro that [of s0]) (simp add: Execute_acquire_def demo_request_def bind_m_def)
qed

lemma demo_request_streams [simp]: "IsTupleStreamingSql (qr_text demo_request)"
  by (simp add: demo_request_def IsTupleStreamingSql_def UpperToken_def TrimSql_def upcase_def substr_def sql_space_def
      find_last_index_def toupper_def Let_def)

lemma demo_Open:
  obtains s0 q1 s1 where
    "Execute_acquire (demo_libpq rows) ConnectParams_init demo_request (Some []) demo_stream = Inr ((Some 0, Some []), s0)"
    "Open (demo_libpq rows) demo_request (Some []) (StreamingQuery_init ConnectParams_init 10, demo_stream)
       = Inr ((True, Some []), (q1, s1))"
proof -
  let ?L = "demo_libpq rows"
  obtain s0 where acq: "Execute_acquire ?L ConnectParams_init demo_request (Some []) demo_stream = Inr ((Some 0, Some []), s0)"
    by (rule accepting_Execute_acquire [OF accepts_demo_libpq])
  then have free: "held s0 = {}" using Execute_acquire_frame [OF acq] by (simp add: demo_stream_def)
  have "PQexec ?L h c ''BEGIN'' = Some (command_result PGRES_COMMAND_OK ''BEGIN'' [])"
    "PQexecParams ?L h c sql ps f = Some (command_result PGRES_COMMAND_OK sql [])" for h c sql ps f
    by (simp_all add: demo_libpq_def demo_exec_def starts_with_def)
  then have "wp (OpenCursor ?L demo_request (Some [])) (\<lambda>r _. r = (True, Some [])) (acquired ConnectParams_init 10 demo_request 0, s0)"
    using free by (simp add: OpenCursor_def wp_simps wp_BeginIfNeeded wp_DeclareCursor declare_result_def
        result_status_def command_result_def Let_def)
  then obtain q1 s1 where "OpenCursor ?L demo_request (Some []) (acquired ConnectParams_init 10 demo_request 0, s0)
      = Inr ((True, Some []), (q1, s1))" by (auto simp: wp_iff)
  with acq show thesis by (intro that [of s0 q1 s1]) (simp_all add: Open_cursor_acquired)
qed

section \<open>What a stream holds\<close>

text \<open>
  An open stream holds a connection, locks nothing, and accounts for the slots in use; an ended one
  has given its slot back.
\<close>

definition live :: "conn \<Rightarrow> bool \<Rightarrow> int \<Rightarrow> StreamingQuery \<times> 'w stream_world_scheme \<Rightarrow> bool" where
  "live c pooled n p \<longleftrightarrow>
     sq_connection (fst p) = Some c \<and> sq_pooled (fst p) = pooled \<and> (sq_cursor_open (fst p) \<longrightarrow> sq_use_cursor (fst p)) \<and>
     held (snd p) = {} \<and> cm_in_use (pool (snd p)) = n + (if pooled then 1 else 0)"

definition ended :: "int \<Rightarrow> StreamingQuery \<times> 'w stream_world_scheme \<Rightarrow> bool" where
  "ended n p \<longleftrightarrow> sq_connection (fst p) = None \<and> held (snd p) = {} \<and> cm_in_use (pool (snd p)) = n"

lemma live_history [simp]: "live c P n (q, s\<lparr>history := h\<rparr>) = live c P n (q, s)"
  by (simp add: live_def)

lemma ended_history [simp]: "ended n (q, s\<lparr>history := h\<rparr>) = ended n (q, s)"
  by (simp add: ended_def)

lemma live_Abort: "live c P n p \<Longrightarrow> wp (Abort L) (\<lambda>_. ended n) p"
  by (cases p) (auto simp: live_def stream_ended_def ended_def intro!: wp_mono [OF wp_Abort])

lemma live_Close: "live c P n p \<Longrightarrow> wp (Close L err) (\<lambda>_. ended n) p"
  by (cases p) (auto simp: live_def stream_ended_def ended_def intro!: wp_mono [OF wp_Close])

lemma live_Release: "live c P n p \<Longrightarrow> wp (ReleaseConnection L b) (\<lambda>_. ended n) p"
  by (cases p) (auto simp: live_def gives_up_def ended_def intro!: wp_mono [OF wp_ReleaseConnection])

lemma live_Fetch: "live c P n p \<Longrightarrow> wp (Fetch L err) (\<lambda>_. live c P n) p"
  by (cases p) (auto simp: live_def Fetch_def wp_simps wp_FetchCursor Let_def split: option.splits)

lemma Open_holds:
  assumes free: "held s = {}"
    and run: "Open L request err (StreamingQuery_init d k, s) = Inr ((ok, err'), p)"
  shows "(ok \<longrightarrow> (\<exists>c. live c (qr_session_id request = []) (cm_in_use (pool s)) p)) \<and>
    (\<not> ok \<and> sq_connection (fst p) = None \<longrightarrow> ended (cm_in_use (pool s)) p) \<and>
    (\<not> ok \<and> sq_connection (fst p) \<noteq> None \<longrightarrow>
      held (snd p) = {} \<and> cm_in_use (pool (snd p)) = cm_in_use (pool s) + (if qr_session_id request = [] then 1 else 0))"
proof (cases "Execute_acquire L d request err s")
  case (Inl b)
  with run show ?thesis by (simp add: Open_def bind_m_def upd_q_def AcquireConnection_eq StreamingQuery_init_def)
next
  case (Inr x)
  obtain r err0 s0 where x: "x = ((r, err0), s0)" by (cases x) auto
  with Inr have acq: "Execute_acquire L d request err s = Inr ((r, err0), s0)" by simp
  note A = Execute_acquire_frame [OF acq]
  show ?thesis
  proof (cases r)
    case None
    with Open_not_acquired [of L d request err s err0 s0 k] acq run A free show ?thesis
      by (auto simp: ended_def)
  next
    case (Some c)
    note acq = acq [unfolded Some]
    have c: "c \<notin> held s0" using A free by simp
    let ?q = "acquired d k request c"
    show ?thesis
    proof (cases "IsTupleStreamingSql (qr_text request)")
      case True
      obtain q1 s1 where p: "p = (q1, s1)" by (cases p)
      with run have oc: "OpenCursor L request err0 (?q, s0) = Inr ((ok, err'), (q1, s1))"
        by (simp add: Open_cursor_acquired [OF acq True])
      have F: "pool s1 = pool s0 \<and> held s1 = held s0 \<and> sq_connection q1 = Some c" by (rule OpenCursor_frame [OF _ c oc]) simp
      have "live c (qr_session_id request = []) (cm_in_use (pool s)) p" if ok
      proof -
        from that oc have "OpenCursor L request err0 (?q, s0) = Inr ((True, err'), (q1, s1))" by simp
        from OpenCursor_spec [OF _ c _ this] F A free p Some True show ?thesis by (auto simp: live_def)
      qed
      with F A free Some p show ?thesis by auto
    next
      case False
      have "wp (OpenImmediate L request err0) (\<lambda>(ok, _) p. if ok then live c (qr_session_id request = []) (cm_in_use (pool s)) p
          else ended (cm_in_use (pool s)) p) (?q, s0)"
        using c A free Some False
        by (auto simp: OpenImmediate_def wp_simps wp_ExecuteImmediate Let_def split: option.splits
            intro!: live_Release [of c "qr_session_id request = []"]) (auto simp: live_def)
      with run show ?thesis by (auto simp: Open_acquired [OF acq] False wp_def ended_def split: if_splits)
    qed
  qed
qed

text \<open>C8: A query that returns rows runs in a transaction of its own unless the connection is already in
  one. However many portions are fetched, and whether a fetch fails or not, the statements PostgreSQL
  receives on the connection are \<open>BEGIN\<close> (if the connection was idle), the \<open>DECLARE\<close> of the cursor with the
  query, one \<open>FETCH\<close> per portion, \<open>CLOSE\<close>, and \<open>COMMIT\<close> exactly if \<open>BEGIN\<close> was sent; \<open>Close\<close> always
  returns, unlocks the connection and gives the slot back to the pool.\<close>

theorem cursor_query_commits:
  assumes free: "held s = {}" and sql: "IsTupleStreamingSql (qr_text request)"
    and acq: "Execute_acquire L d request err s = Inr ((Some c, err0), s0)"
    and opened: "Open L request err (StreamingQuery_init d k, s) = Inr ((True, err'), (q1, s1))"
  shows "\<exists>err2 q' s'. bind_m (fetches L n) (\<lambda>_. Close L err') (q1, s1) = Inr (err2, (q', s')) \<and>
    rev (statements c (events_since (history s0) (history s'))) =
      cursor_script request s0 (if k > 0 then k else 10000) n (PQtransactionStatus L (history s0) c = PQTRANS_IDLE) True \<and>
    sq_connection q' = None \<and> held s' = {} \<and> cm_in_use (pool s') = cm_in_use (pool s)"
proof -
  note A = Execute_acquire_frame [OF acq]
  from opened have run: "OpenCursor L request err0 (acquired d k request c, s0) = Inr ((True, err'), (q1, s1))"
    by (simp add: Open_cursor_acquired [OF acq sql])
  have c: "c \<notin> held s0" using A free by simp
  have "wp (bind_m (fetches L n) (\<lambda>_. Close L err')) (\<lambda>_ p. stream_ended c (acquired d k request c) s0
      (cursor_script request s0 (sq_fetch_size (acquired d k request c)) n (sq_started_local_txn q1) True) (fst p) (snd p)) (q1, s1)"
  proof (rule cursor_run [OF _ c _ _ _ run])
    fix q2 :: StreamingQuery and s2 :: "'a stream_world_scheme"
    assume "sq_connection q2 = Some c" "c \<notin> held s2" "sq_use_cursor q2"
    with wp_Close [of q2 c s2 L err']
    show "wp (Close L err') (\<lambda>_ p. stream_ended c q2 s2 (end_statements q2 True) (fst p) (snd p)) (q2, s2)" by simp
  qed (use sql in simp_all)
  moreover have "sq_started_local_txn q1 \<longleftrightarrow> PQtransactionStatus L (history s0) c = PQTRANS_IDLE"
    using OpenCursor_spec [OF _ c _ run] by simp
  ultimately show ?thesis using A free by (auto simp: wp_iff stream_ended_def)
qed

theorem cursor_query_commits_witness:
  "\<exists>(s0 :: stream_world) q1 s1 r q' s'. Open (demo_libpq []) demo_request (Some []) (StreamingQuery_init ConnectParams_init 10, demo_stream)
       = Inr ((True, Some []), (q1, s1)) \<and>
     bind_m (fetches (demo_libpq []) 2) (\<lambda>_. Close (demo_libpq []) (Some [])) (q1, s1) = Inr (r, (q', s')) \<and>
     rev (statements 0 (events_since (history s0) (history s'))) = cursor_script demo_request s0 10 2 True True \<and>
     cm_in_use (pool s') = 0"
proof (rule demo_Open [of "[]"])
  fix s0 q1 s1
  assume acq: "Execute_acquire (demo_libpq []) ConnectParams_init demo_request (Some []) demo_stream = Inr ((Some 0, Some []), s0)"
    and opened: "Open (demo_libpq []) demo_request (Some []) (StreamingQuery_init ConnectParams_init 10, demo_stream)
       = Inr ((True, Some []), (q1, s1))"
  have free: "held demo_stream = {}" by (simp add: demo_stream_def)
  have zero: "cm_in_use (pool demo_stream) = 0" by (simp add: demo_stream_def ConnectionManager_init_def)
  from cursor_query_commits [OF free demo_request_streams acq opened, of 2] opened show ?thesis
    unfolding zero by (intro exI [of _ s0]) auto
qed

text \<open>C9: A query that is abandoned (cancelled, refused by the client, or failed) ends the same way, with
  \<open>ROLLBACK\<close> in the place of \<open>COMMIT\<close>: no transaction the query opened stays open and no slot of the
  pool is lost.\<close>

theorem cursor_query_rolls_back:
  assumes free: "held s = {}" and sql: "IsTupleStreamingSql (qr_text request)"
    and acq: "Execute_acquire L d request err s = Inr ((Some c, err0), s0)"
    and opened: "Open L request err (StreamingQuery_init d k, s) = Inr ((True, err'), (q1, s1))"
  shows "\<exists>q' s'. bind_m (fetches L n) (\<lambda>_. Abort L) (q1, s1) = Inr ((), (q', s')) \<and>
    rev (statements c (events_since (history s0) (history s'))) =
      cursor_script request s0 (if k > 0 then k else 10000) n (PQtransactionStatus L (history s0) c = PQTRANS_IDLE) False \<and>
    sq_connection q' = None \<and> held s' = {} \<and> cm_in_use (pool s') = cm_in_use (pool s)"
proof -
  note A = Execute_acquire_frame [OF acq]
  from opened have run: "OpenCursor L request err0 (acquired d k request c, s0) = Inr ((True, err'), (q1, s1))"
    by (simp add: Open_cursor_acquired [OF acq sql])
  have c: "c \<notin> held s0" using A free by simp
  have "wp (bind_m (fetches L n) (\<lambda>_. Abort L)) (\<lambda>_ p. stream_ended c (acquired d k request c) s0
      (cursor_script request s0 (sq_fetch_size (acquired d k request c)) n (sq_started_local_txn q1) False) (fst p) (snd p)) (q1, s1)"
    by (rule cursor_run [OF _ c _ _ _ run]) (use sql in \<open>simp_all add: wp_Abort\<close>)
  moreover have "sq_started_local_txn q1 \<longleftrightarrow> PQtransactionStatus L (history s0) c = PQTRANS_IDLE"
    using OpenCursor_spec [OF _ c _ run] by simp
  ultimately show ?thesis using A free by (auto simp: wp_iff stream_ended_def)
qed

theorem cursor_query_rolls_back_witness:
  "\<exists>(s0 :: stream_world) q1 s1 r q' s'. Open (demo_libpq []) demo_request (Some []) (StreamingQuery_init ConnectParams_init 10, demo_stream)
       = Inr ((True, Some []), (q1, s1)) \<and>
     bind_m (fetches (demo_libpq []) 2) (\<lambda>_. Abort (demo_libpq [])) (q1, s1) = Inr (r, (q', s')) \<and>
     rev (statements 0 (events_since (history s0) (history s'))) = cursor_script demo_request s0 10 2 True False \<and>
     cm_in_use (pool s') = 0"
proof (rule demo_Open [of "[]"])
  fix s0 q1 s1
  assume acq: "Execute_acquire (demo_libpq []) ConnectParams_init demo_request (Some []) demo_stream = Inr ((Some 0, Some []), s0)"
    and opened: "Open (demo_libpq []) demo_request (Some []) (StreamingQuery_init ConnectParams_init 10, demo_stream)
       = Inr ((True, Some []), (q1, s1))"
  have free: "held demo_stream = {}" by (simp add: demo_stream_def)
  have zero: "cm_in_use (pool demo_stream) = 0" by (simp add: demo_stream_def ConnectionManager_init_def)
  from cursor_query_rolls_back [OF free demo_request_streams acq opened, of 2] opened show ?thesis
    unfolding zero by (intro exI [of _ s0]) auto
qed

text \<open>C27: If PostgreSQL refuses the \<open>DECLARE\<close> (a syntax error in a \<open>SELECT\<close>, a missing table, a \<open>WITH\<close>
  that modifies data) after the query has opened its transaction, \<open>Open\<close> never returns: \<open>OpenCursor\<close>
  holds the connection's mutex when it calls \<open>EndTransaction\<close>, which locks the same mutex.\<close>

theorem refused_declare_deadlocks:
  assumes free: "held s = {}" and sql: "IsTupleStreamingSql (qr_text request)"
    and acq: "Execute_acquire L d request err s = Inr ((Some c, err0), s0)"
    and idle: "PQtransactionStatus L (history s0) c = PQTRANS_IDLE"
    and begun: "result_status L (PQexec L (history s0) c ''BEGIN'') = PGRES_COMMAND_OK"
    and refused: "\<forall>h. result_status L (PQexecParams L h c (declare_sql s0 request) (BuildParams request) (result_format_of request))
      \<noteq> PGRES_COMMAND_OK"
  shows "Open L request err (StreamingQuery_init d k, s) = Inl SelfDeadlock"
proof -
  let ?q = "acquired d k request c" and ?s = "s0\<lparr>history := ran L c ''BEGIN'' (history s0)\<rparr>"
  have c: "c \<notin> held s0" using Execute_acquire_frame [OF acq] free by simp
  have "BeginIfNeeded L err0 (?q, s0) = Inr ((True, err0), (?q\<lparr>sq_started_local_txn := True\<rparr>, ?s))"
    using c idle begun by (simp add: run_wp wp_BeginIfNeeded Let_def)
  moreover have "DeclareCursor L request err0 (?q\<lparr>sq_started_local_txn := True\<rparr>, ?s) = Inl SelfDeadlock"
    by (rule DeclareCursor_deadlock) (use c refused in \<open>auto simp: declare_result_def declare_sql_def\<close>)
  ultimately show ?thesis by (simp add: Open_cursor_acquired [OF acq sql] OpenCursor_def bind_m_def)
qed

definition refusing_libpq :: libpq where
  "refusing_libpq = (demo_libpq [])\<lparr>PQexecParams :=
     (\<lambda>_ _ _ _ _. Some (command_result PGRES_FATAL_ERROR [] ''relation t does not exist''))\<rparr>"

lemma accepts_refusing_libpq: "accepts_connections refusing_libpq"
  by (simp add: accepts_connections_def refusing_libpq_def demo_libpq_def demo_exec_def)

theorem refused_declare_deadlocks_witness:
  "Open refusing_libpq demo_request (Some []) (StreamingQuery_init ConnectParams_init 10, demo_stream) = Inl SelfDeadlock"
proof -
  obtain s0 where acq: "Execute_acquire refusing_libpq ConnectParams_init demo_request (Some []) demo_stream =
      Inr ((Some 0, Some []), s0)"
    by (rule accepting_Execute_acquire [OF accepts_refusing_libpq])
  show ?thesis
    by (rule refused_declare_deadlocks [OF _ demo_request_streams acq])
      (simp_all add: demo_stream_def refusing_libpq_def demo_eval)
qed

text \<open>C28: A failure to open a cursor query that does return loses a slot of the pool: \<open>Open\<close> reports the
  error without \<open>ReleaseConnection\<close>, its caller does not abort the stream, and the destructor closes the
  connection but leaves it counted as in use for ever.\<close>

theorem failed_cursor_open_leaks_slot:
  assumes free: "held s = {}" and sql: "IsTupleStreamingSql (qr_text request)" and pooled: "qr_session_id request = []"
    and acq: "Execute_acquire L d request err s = Inr ((Some c, err0), s0)"
    and failed: "Open L request err (StreamingQuery_init d k, s) = Inr ((False, err'), (q1, s1))"
  shows "\<exists>s2. destroy_stream (q1, s1) = Inr ((), (q1, s2)) \<and> cm_in_use (pool s2) = cm_in_use (pool s) + 1"
proof -
  note A = Execute_acquire_frame [OF acq]
  have c: "c \<notin> held s0" using A free by simp
  have "OpenCursor L request err0 (acquired d k request c, s0) = Inr ((False, err'), (q1, s1))"
    using failed by (simp add: Open_cursor_acquired [OF acq sql])
  from OpenCursor_frame [OF _ c this] have F: "pool s1 = pool s0" "sq_connection q1 = Some c" by simp_all
  have "wp destroy_stream (\<lambda>_ p. fst p = q1 \<and> pool (snd p) = pool s1) (q1, s1)"
    by (simp add: destroy_stream_def wp_simps F(2))
  then show ?thesis using A F pooled by (auto simp: wp_iff)
qed

definition lost_libpq :: libpq where
  "lost_libpq = (demo_libpq [])\<lparr>PQexec := (\<lambda>h c sql. if sql = ''BEGIN'' then None else demo_exec [] h c sql)\<rparr>"

theorem failed_cursor_open_leaks_slot_witness:
  "\<exists>err' q1 s1 s2. Open lost_libpq demo_request (Some []) (StreamingQuery_init ConnectParams_init 10, demo_stream) =
       Inr ((False, err'), (q1, s1)) \<and>
     destroy_stream (q1, s1) = Inr ((), (q1, s2)) \<and> cm_in_use (pool s2) = 1"
proof -
  have "accepts_connections lost_libpq"
    by (simp add: accepts_connections_def lost_libpq_def demo_libpq_def demo_exec_def)
  then obtain s0 where acq: "Execute_acquire lost_libpq ConnectParams_init demo_request (Some []) demo_stream =
      Inr ((Some 0, Some []), s0)"
    by (rule accepting_Execute_acquire)
  have free: "held demo_stream = {}" by (simp add: demo_stream_def)
  then have "0 \<notin> held s0" using Execute_acquire_frame [OF acq] by simp
  then have "wp (OpenCursor lost_libpq demo_request (Some [])) (\<lambda>r _. \<not> fst r) (acquired ConnectParams_init 10 demo_request 0, s0)"
    by (simp add: OpenCursor_def wp_simps wp_BeginIfNeeded lost_libpq_def demo_libpq_def result_status_def Let_def)
  then obtain err' q1 s1 where "Open lost_libpq demo_request (Some []) (StreamingQuery_init ConnectParams_init 10, demo_stream) =
       Inr ((False, err'), (q1, s1))"
    unfolding Open_cursor_acquired [OF acq demo_request_streams] by (auto simp: wp_iff)
  with failed_cursor_open_leaks_slot [OF free demo_request_streams _ acq this] show ?thesis
    by (auto simp: demo_request_def demo_stream_def ConnectionManager_init_def)
qed

text \<open>A statement that returns no tuples is executed once. If PostgreSQL accepts it, the first \<open>Fetch\<close>
  hands over its result and the second reports the end; if not, \<open>Open\<close> fails with the error and the
  connection has gone back to the pool, its slot free again.\<close>

theorem immediate_query_once:
  assumes free: "held s = {}" and sql: "\<not> IsTupleStreamingSql (qr_text request)"
    and acq: "Execute_acquire L d request err s = Inr ((Some c, err0), s0)"
  defines "r \<equiv> exec_result L request c (history s0)"
  shows "\<exists>ok err' q1 s1. Open L request err (StreamingQuery_init d k, s) = Inr ((ok, err'), (q1, s1)) \<and>
    (ok \<longleftrightarrow> (\<exists>x. r = Some x \<and> IsOkStatus (PQresultStatus x))) \<and>
    (\<not> ok \<longrightarrow> sq_connection q1 = None \<and> cm_in_use (pool s1) = cm_in_use (pool s)) \<and>
    (ok \<longrightarrow> (\<exists>q2. Fetch L err' (q1, s1) = Inr ((r, err'), (q2, s1)) \<and> Fetch L err' (q2, s1) = Inr ((None, err'), (q2, s1))))"
proof -
  note A = Execute_acquire_frame [OF acq]
  let ?q = "acquired d k request c"
  have c: "c \<notin> held s0" using A free by simp
  let ?P = "\<lambda>(ok, err') p. (ok \<longleftrightarrow> (\<exists>x. r = Some x \<and> IsOkStatus (PQresultStatus x))) \<and>
    (\<not> ok \<longrightarrow> sq_connection (fst p) = None \<and> cm_in_use (pool (snd p)) = cm_in_use (pool s)) \<and>
    (ok \<longrightarrow> (\<exists>q2. Fetch L err' p = Inr ((r, err'), (q2, snd p)) \<and> Fetch L err' (q2, snd p) = Inr ((None, err'), (q2, snd p))))"
  have rel: "wp (ReleaseConnection L True) (\<lambda>_ p. sq_connection (fst p) = None \<and> cm_in_use (pool (snd p)) = cm_in_use (pool s))
      (q1, s0\<lparr>history := h\<rparr>)" if "sq_connection q1 = Some c" "sq_pooled q1 \<longleftrightarrow> qr_session_id request = []" for q1 h
    by (rule wp_mono [OF wp_ReleaseConnection [OF that(1)]]) (use A that in \<open>auto simp: gives_up_def\<close>)
  have "wp (OpenImmediate L request err0) ?P (?q, s0)"
  proof (cases "\<exists>x. r = Some x \<and> IsOkStatus (PQresultStatus x)")
    case True
    then obtain x where x: "r = Some x" "IsOkStatus (PQresultStatus x)" by blast
    let ?q1 = "?q\<lparr>sq_immediate_result := Some x, sq_immediate_done := False\<rparr>"
    let ?s1 = "s0\<lparr>history := EvExecParams c (c_str (qr_text request)) (BuildParams request) (result_format_of request) (Some x) # history s0\<rparr>"
    have "wp (OpenImmediate L request err0) Q (?q, s0) = Q (True, err0) (?q1, ?s1)" for Q
      using c x by (simp add: OpenImmediate_def wp_simps wp_ExecuteImmediate Let_def r_def [symmetric])
    moreover have "Fetch L err0 (?q1, ?s1) = Inr ((r, err0), (?q1\<lparr>sq_immediate_done := True, sq_immediate_result := None\<rparr>, ?s1))"
      "Fetch L err0 (?q1\<lparr>sq_immediate_done := True, sq_immediate_result := None\<rparr>, ?s1) =
        Inr ((None, err0), (?q1\<lparr>sq_immediate_done := True, sq_immediate_result := None\<rparr>, ?s1))"
      using sql x by (simp_all add: Fetch_def bind_m_def upd_q_def)
    ultimately show ?thesis using True by (simp only: split_conv snd_conv) blast
  next
    case False
    have "wp (ReleaseConnection L True) (\<lambda>_. ?P (False, e)) (q1, s0\<lparr>history := h\<rparr>)"
      if "sq_connection q1 = Some c" "sq_pooled q1 \<longleftrightarrow> qr_session_id request = []" for q1 h e
      by (rule wp_mono [OF rel [OF that]]) (use False in auto)
    with False show ?thesis
      using c sql unfolding OpenImmediate_def
      by (auto simp: wp_simps wp_ExecuteImmediate Let_def r_def [symmetric] split: option.splits)
  qed
  then show ?thesis by (auto simp: wp_iff Open_acquired [OF acq] sql)
qed

theorem immediate_query_once_witness:
  "\<exists>err' q1 q2 s1. Open (demo_libpq []) (demo_request\<lparr>qr_text := ''VACUUM''\<rparr>) (Some [])
       (StreamingQuery_init ConnectParams_init 10, demo_stream) = Inr ((True, err'), (q1, s1)) \<and>
     Fetch (demo_libpq []) err' (q1, s1) =
       Inr ((Some (command_result PGRES_COMMAND_OK ''VACUUM'' []), err'), (q2, s1)) \<and>
     Fetch (demo_libpq []) err' (q2, s1) = Inr ((None, err'), (q2, s1))"
proof -
  let ?r = "demo_request\<lparr>qr_text := ''VACUUM''\<rparr>"
  obtain s0 where "Acquire (demo_libpq []) demo_stream = Inr (Some 0, s0)"
    using accepting_Acquire [OF accepts_demo_libpq, of demo_stream]
    by (auto simp: demo_stream_def ConnectionManager_init_def ConnectParams_init_def)
  then have acq: "Execute_acquire (demo_libpq []) ConnectParams_init ?r (Some []) demo_stream = Inr ((Some 0, Some []), s0)"
    by (simp add: Execute_acquire_def demo_request_def bind_m_def)
  have sql: "\<not> IsTupleStreamingSql (qr_text ?r)"
    by (simp add: IsTupleStreamingSql_def UpperToken_def TrimSql_def upcase_def substr_def sql_space_def
        find_last_index_def toupper_def Let_def)
  have res: "exec_result (demo_libpq []) ?r 0 (history s0) = Some (command_result PGRES_COMMAND_OK ''VACUUM'' [])"
    by (simp add: exec_result_def demo_libpq_def)
  have "held demo_stream = {}" by (simp add: demo_stream_def)
  from immediate_query_once [OF this sql acq, of 10, unfolded res] obtain ok err' q1 s1 where
    run: "Open (demo_libpq []) ?r (Some []) (StreamingQuery_init ConnectParams_init 10, demo_stream) = Inr ((ok, err'), (q1, s1))"
    and ok: "ok \<longleftrightarrow> (\<exists>x. Some (command_result PGRES_COMMAND_OK ''VACUUM'' []) = Some x \<and> IsOkStatus (PQresultStatus x))"
    and fetch: "ok \<longrightarrow> (\<exists>q2. Fetch (demo_libpq []) err' (q1, s1) =
      Inr ((Some (command_result PGRES_COMMAND_OK ''VACUUM'' []), err'), (q2, s1)) \<and>
      Fetch (demo_libpq []) err' (q2, s1) = Inr ((None, err'), (q2, s1)))"
    by blast
  from ok have ok by (simp add: command_result_def IsOkStatus_def)
  with run fetch show ?thesis by auto
qed

text \<open>No two of 2^64 consecutive cursors of the process have the same name, whichever queries they
  belong to.\<close>

theorem cursor_names_distinct:
  assumes "0 < k" and "k < 2 ^ 64"
  shows "cursor_name (n + word_of_nat k) \<noteq> cursor_name n"
proof
  assume "cursor_name (n + word_of_nat k) = cursor_name n"
  then have "unat (n + word_of_nat k) = unat n"
    unfolding cursor_name_def by (intro nat_to_string_inj) simp
  then have "n + word_of_nat k = n" by (simp only: word_unat_eq_iff)
  then have "(word_of_nat k :: 64 word) = 0" by (metis add_cancel_right_right)
  then have "2 ^ 64 dvd k" by (simp add: word_of_nat_eq_0_iff)
  with assms show False by (auto dest: dvd_imp_le)
qed

theorem cursor_names_distinct_witness: "cursor_name (42 :: 64 word) \<noteq> cursor_name 41"
  using cursor_names_distinct [of 1 41] by simp

end
