(* ===== verification/Json_Log.thy ===== *)
theory Json_Log
  imports Cxx_Prelude "HOL-Library.Monad_Syntax"
begin

text \<open>
  The structured log of \<open>src/src/logging.h\<close>: one JSON object per line on \<open>std::cerr\<close>. A log
  function is modelled by the text it writes; the mutex makes each write atomic. The specification
  side is a reader of JSON strings and of whole log lines.
\<close>

section \<open>Model\<close>

definition json_escape_char :: "char \<Rightarrow> string" where
  "json_escape_char ch =
     (if ch = CHR 0x5C then [CHR 0x5C, CHR 0x5C]
      else if ch = CHR 0x22 then [CHR 0x5C, CHR 0x22]
      else if ch = CHR 0x0A then [CHR 0x5C, CHR ''n'']
      else if ch = CHR 0x0D then [CHR 0x5C, CHR ''r'']
      else if ch = CHR 0x09 then [CHR 0x5C, CHR ''t'']
      else [ch])"

definition JsonEscape :: "string \<Rightarrow> string" where
  "JsonEscape value = concat (map json_escape_char value)"

definition log_suffix :: "string \<Rightarrow> string" where
  "log_suffix detail =
     (if detail \<noteq> [] then '',\"detail\":\"'' @ JsonEscape detail @ [CHR 0x22] else [])
     @ ''}'' @ [CHR 0x0A]"

definition Info :: "string \<Rightarrow> string \<Rightarrow> string" where
  "Info event detail =
     ''{\"level\":\"info\",\"event\":\"'' @ JsonEscape event @ [CHR 0x22] @ log_suffix detail"

definition Warn :: "string \<Rightarrow> string \<Rightarrow> string" where
  "Warn event detail =
     ''{\"level\":\"warn\",\"event\":\"'' @ JsonEscape event @ [CHR 0x22] @ log_suffix detail"

definition Error :: "string \<Rightarrow> string \<Rightarrow> string" where
  "Error event detail =
     ''{\"level\":\"error\",\"event\":\"'' @ JsonEscape event @ [CHR 0x22] @ log_suffix detail"

text \<open>The destructor of \<open>ScopedTimer\<close>; \<open>ms\<close> is the measured duration.\<close>

definition ScopedTimer_end :: "string \<Rightarrow> int \<Rightarrow> string" where
  "ScopedTimer_end event ms =
     ''{\"level\":\"info\",\"event\":\"'' @ JsonEscape event @ ''\",\"duration_ms\":''
     @ to_string ms @ ''}'' @ [CHR 0x0A]"

section \<open>Specification: reading JSON\<close>

text \<open>
  The body of a JSON string up to its closing quote (RFC 8259): two-character escapes are decoded,
  an unescaped control character is an error. The \<open>\u\<close> escape is left out: the server never
  writes one.
\<close>

definition json_unescape :: "char \<Rightarrow> char option" where
  "json_unescape e =
     (if e = CHR 0x22 then Some (CHR 0x22)
      else if e = CHR 0x5C then Some (CHR 0x5C)
      else if e = CHR ''/'' then Some (CHR ''/'')
      else if e = CHR ''b'' then Some (CHR 0x08)
      else if e = CHR ''f'' then Some (CHR 0x0C)
      else if e = CHR ''n'' then Some (CHR 0x0A)
      else if e = CHR ''r'' then Some (CHR 0x0D)
      else if e = CHR ''t'' then Some (CHR 0x09)
      else None)"

fun json_string :: "string \<Rightarrow> (string \<times> string) option" where
  "json_string [] = None"
| "json_string (c # cs) =
     (if c = CHR 0x22 then Some ([], cs)
      else if c = CHR 0x5C then
        (case cs of [] \<Rightarrow> None
         | e # r \<Rightarrow>
             (case json_unescape e of None \<Rightarrow> None
              | Some d \<Rightarrow> map_option (\<lambda>(t, r'). (d # t, r')) (json_string r)))
      else if (of_char c :: nat) < 32 then None
      else map_option (\<lambda>(t, r'). (c # t, r')) (json_string cs))"

definition strip_prefix :: "string \<Rightarrow> string \<Rightarrow> string option" where
  "strip_prefix p s = (if starts_with p s then Some (drop (length p) s) else None)"

definition read_log_line :: "string \<Rightarrow> (string \<times> string \<times> string) option" where
  "read_log_line s = do {
     a \<leftarrow> strip_prefix ''{\"level\":\"'' s;
     (level, b) \<leftarrow> json_string a;
     c \<leftarrow> strip_prefix '',\"event\":\"'' b;
     (event, d) \<leftarrow> json_string c;
     if d = ''}'' @ [CHR 0x0A] then Some (level, event, [])
     else do {
       e \<leftarrow> strip_prefix '',\"detail\":\"'' d;
       (detail, f) \<leftarrow> json_string e;
       if f = ''}'' @ [CHR 0x0A] then Some (level, event, detail) else None
     }
   }"

definition loggable :: "string \<Rightarrow> bool" where
  "loggable s \<longleftrightarrow>
     list_all (\<lambda>c. 32 \<le> (of_char c :: nat) \<or> c = CHR 0x0A \<or> c = CHR 0x0D \<or> c = CHR 0x09) s"

text \<open>The line all three log functions write, with the level as an argument.\<close>

definition log_line :: "string \<Rightarrow> string \<Rightarrow> string \<Rightarrow> string" where
  "log_line level event detail =
     ''{\"level\":\"'' @ level @ ''\",\"event\":\"'' @ JsonEscape event @ [CHR 0x22]
     @ log_suffix detail"

section \<open>Properties\<close>

lemma JsonEscape_simps [simp]:
  "JsonEscape [] = []"
  "JsonEscape (c # s) = json_escape_char c @ JsonEscape s"
  by (simp_all add: JsonEscape_def)

lemma json_string_escape_char:
  "json_string (json_escape_char c @ r) =
     (if 32 \<le> (of_char c :: nat) \<or> c = CHR 0x0A \<or> c = CHR 0x0D \<or> c = CHR 0x09
      then map_option (\<lambda>(t, r'). (c # t, r')) (json_string r) else None)"
  by (auto simp: json_escape_char_def json_unescape_def)

text \<open>
  The escaped text is read back exactly when it has no control character beyond the three the code
  escapes; with any other control character the line is not JSON.
\<close>

lemma json_string_JsonEscape:
  "json_string (JsonEscape s @ CHR 0x22 # rest) =
     (if loggable s then Some (s, rest) else None)"
proof (induction s)
  case Nil
  then show ?case by (simp add: loggable_def)
next
  case (Cons c s)
  then show ?case
    by (simp add: json_string_escape_char loggable_def del: json_string.simps)
qed

lemma no_newline_JsonEscape: "CHR 0x0A \<notin> set (JsonEscape s)"
  by (induction s) (auto simp: json_escape_char_def)

lemma strip_prefix_append [simp]: "strip_prefix p (p @ s) = Some s"
  by (simp add: strip_prefix_def starts_with_def)

lemma log_functions_line:
  "Info event detail = log_line ''info'' event detail"
  "Warn event detail = log_line ''warn'' event detail"
  "Error event detail = log_line ''error'' event detail"
  by (simp_all add: Info_def Warn_def Error_def log_line_def)

lemma read_log_suffix:
  "(if log_suffix detail = ''}'' @ [CHR 0x0A] then Some (level, event, [])
    else do {
      e \<leftarrow> strip_prefix '',\"detail\":\"'' (log_suffix detail);
      (detail, f) \<leftarrow> json_string e;
      if f = ''}'' @ [CHR 0x0A] then Some (level, event, detail) else None
    }) = (if loggable detail then Some (level, event, detail) else None)"
proof (cases "detail = []")
  case True
  then show ?thesis by (simp add: log_suffix_def loggable_def)
next
  case False
  then have suf: "log_suffix detail =
      '',\"detail\":\"'' @ (JsonEscape detail @ CHR 0x22 # ''}'' @ [CHR 0x0A])"
    by (simp add: log_suffix_def)
  then have "log_suffix detail \<noteq> ''}'' @ [CHR 0x0A]" by simp
  moreover have "strip_prefix '',\"detail\":\"'' (log_suffix detail) =
      Some (JsonEscape detail @ CHR 0x22 # ''}'' @ [CHR 0x0A])"
    unfolding suf by (rule strip_prefix_append)
  ultimately show ?thesis by (simp add: json_string_JsonEscape del: json_string.simps)
qed

lemma read_log_line_log_line:
  assumes "loggable level" and "JsonEscape level = level"
  shows "read_log_line (log_line level event detail) =
    (if loggable event \<and> loggable detail then Some (level, event, detail) else None)"
proof -
  let ?d = "log_suffix detail"
  let ?c = "JsonEscape event @ CHR 0x22 # ?d"
  let ?a = "JsonEscape level @ CHR 0x22 # '',\"event\":\"'' @ ?c"
  have line: "log_line level event detail = ''{\"level\":\"'' @ ?a"
    by (simp add: log_line_def assms(2))
  have "strip_prefix ''{\"level\":\"'' (log_line level event detail) = Some ?a"
    unfolding line by (rule strip_prefix_append)
  moreover have "json_string ?a = Some (level, '',\"event\":\"'' @ ?c)"
    using assms(1) by (simp only: json_string_JsonEscape if_True)
  moreover have "strip_prefix '',\"event\":\"'' ('',\"event\":\"'' @ ?c) = Some ?c"
    by (rule strip_prefix_append)
  moreover have "json_string ?c = (if loggable event then Some (event, ?d) else None)"
    by (rule json_string_JsonEscape)
  ultimately show ?thesis
    unfolding read_log_line_def using read_log_suffix [of detail level event]
    by (simp del: json_string.simps)
qed

text \<open>C40: Every log line is one JSON object that gives back its level, event and detail, exactly
  when event and detail hold no control character other than newline, carriage return and tab;
  otherwise the line is rejected by a JSON reader.\<close>

theorem log_line_round_trip:
  "read_log_line (Info event detail) =
     (if loggable event \<and> loggable detail then Some (''info'', event, detail) else None)
   \<and> read_log_line (Warn event detail) =
     (if loggable event \<and> loggable detail then Some (''warn'', event, detail) else None)
   \<and> read_log_line (Error event detail) =
     (if loggable event \<and> loggable detail then Some (''error'', event, detail) else None)"
  by (simp only: log_functions_line)
     (simp add: read_log_line_log_line loggable_def json_escape_char_def)

text \<open>A log call writes exactly one line, whatever its arguments: client data in an event or a
  detail cannot start a second record.\<close>

theorem log_one_record_per_line:
  "line \<in> {Info event detail, Warn event detail, Error event detail, ScopedTimer_end event ms} \<Longrightarrow>
     last line = CHR 0x0A \<and> CHR 0x0A \<notin> set (butlast line)"
proof -
  have digits: "CHR 0x0A \<notin> set (to_string ms)"
  proof -
    have "CHR 0x0A \<notin> set (nat_to_string n)" for n
      using nat_to_string_digits [of n] by (auto simp: is_digit_def)
    then show ?thesis by (simp add: to_string_def)
  qed
  have suffix: "last (log_suffix d) = CHR 0x0A" "CHR 0x0A \<notin> set (butlast (log_suffix d))"
    "log_suffix d \<noteq> []" for d
    by (simp_all add: log_suffix_def butlast_append no_newline_JsonEscape)
  assume "line \<in> {Info event detail, Warn event detail, Error event detail, ScopedTimer_end event ms}"
  then show ?thesis
    using digits suffix [of detail] no_newline_JsonEscape [of event]
    by (auto simp: Info_def Warn_def Error_def ScopedTimer_end_def butlast_append)
qed

theorem log_one_record_per_line_witness:
  "last (Info ''notify_watch'' [CHR 0x0A]) = CHR 0x0A
   \<and> CHR 0x0A \<notin> set (butlast (Info ''notify_watch'' [CHR 0x0A]))"
  by (rule log_one_record_per_line [where event = "''notify_watch''" and detail = "[CHR 0x0A]" and ms = 0])
     simp

end
