(* ===== verification/Health_Monitor.thy ===== *)
theory Health_Monitor
  imports Pq_Conn Json_Log
begin

text \<open>
  \<open>src/src/health/pg_health_monitor.cpp\<close>: the gRPC health status of the server. The gRPC server and its
  health service are outside the program: attaching tells whether a server with a health service is
  there, and the calls of \<open>SetServingStatus\<close> are recorded in order, newest first; so are the lines the probe thread logs, oldest first. The
  probe thread's loop reads \<open>stop_\<close>, which other threads write, so the values it reads, by the test of the loop and during the pause, are arguments.
\<close>

section \<open>The monitor\<close>

record PgHealthMonitor =
  hm_server :: bool
  hm_health_service :: bool
  hm_probe_interval_sec :: int
  hm_stop :: bool
  hm_has_params :: bool
  hm_probe_thread :: bool
  hm_params :: ConnectParams
  hm_statement_timeout_ms :: int
  hm_calls :: "(string \<times> bool) list"
  hm_log :: "string list"

definition PgHealthMonitor_init :: "int \<Rightarrow> PgHealthMonitor" where
  "PgHealthMonitor_init probe_interval_sec =
     \<lparr>hm_server = False, hm_health_service = False,
      hm_probe_interval_sec = (if probe_interval_sec > 0 then probe_interval_sec else 30),
      hm_stop = False, hm_has_params = False, hm_probe_thread = False, hm_params = ConnectParams_init,
      hm_statement_timeout_ms = 0, hm_calls = [], hm_log = []\<rparr>"

type_synonym ('w, 'b) hm_proc = "(PgHealthMonitor \<times> 'w pg_world_scheme, 'b) proc"

definition upd_h :: "(PgHealthMonitor \<Rightarrow> PgHealthMonitor) \<Rightarrow> ('w, unit) hm_proc" where
  "upd_h f = upd_m (\<lambda>p. (f (fst p), snd p))"

definition SetServing :: "bool \<Rightarrow> ('w, unit) hm_proc" where
  "SetServing serving =
     bind_m (get_m fst) (\<lambda>h.
     if \<not> hm_server h then ret_m ()
     else if \<not> hm_health_service h then ret_m ()
     else upd_h (\<lambda>h. h\<lparr>hm_calls := (''mtdd.MtddNotify'', serving) # (''mtdd.MtddShard'', serving)
                                   # ([], serving) # hm_calls h\<rparr>))"

definition AttachServer :: "bool \<Rightarrow> bool \<Rightarrow> ('w, unit) hm_proc" where
  "AttachServer server health_service =
     bind_m (upd_h (\<lambda>h. h\<lparr>hm_server := server, hm_health_service := health_service\<rparr>)) (\<lambda>_. SetServing False)"

text \<open>The connection of a probe is destroyed when \<open>ProbeOnce\<close> returns.\<close>

definition ProbeOnce :: "libpq \<Rightarrow> ('w, bool) hm_proc" where
  "ProbeOnce L =
     bind_m (get_m fst) (\<lambda>h.
     if \<not> hm_has_params h then ret_m False
     else
       bind_m (world_m (PqConnection_Connect L (hm_params h) (Some []) (hm_statement_timeout_ms h))) (\<lambda>(conn, error).
       case conn of
         None \<Rightarrow> ret_m False
       | Some c \<Rightarrow> bind_m (world_m (PQfinish_m c)) (\<lambda>_. ret_m True)))"

definition OnConnectSuccess :: "libpq \<Rightarrow> ConnectParams \<Rightarrow> int \<Rightarrow> ('w, unit) hm_proc" where
  "OnConnectSuccess L params statement_timeout_ms =
     bind_m (upd_h (\<lambda>h. h\<lparr>hm_params := params, hm_statement_timeout_ms := statement_timeout_ms, hm_has_params := True\<rparr>)) (\<lambda>_.
     bind_m (ProbeOnce L) (\<lambda>healthy.
     bind_m (SetServing healthy) (\<lambda>_.
     bind_m (get_m (\<lambda>p. hm_probe_thread (fst p))) (\<lambda>joinable.
     if \<not> joinable then upd_h (\<lambda>h. h\<lparr>hm_stop := False, hm_probe_thread := True\<rparr>) else ret_m ()))))"

definition OnConnectFailure :: "('w, unit) hm_proc" where
  "OnConnectFailure = SetServing False"

definition SetServingWithoutPg :: "('w, unit) hm_proc" where
  "SetServingWithoutPg = SetServing True"

text \<open>\<open>join\<close> waits for the probe thread, which sees \<open>stop_\<close> and ends.\<close>

definition Stop :: "('w, unit) hm_proc" where
  "Stop = bind_m (upd_h (\<lambda>h. h\<lparr>hm_stop := True\<rparr>)) (\<lambda>_. upd_h (\<lambda>h. h\<lparr>hm_probe_thread := False\<rparr>))"

text \<open>
  The pause between two probes reads \<open>stop_\<close> before each tenth of a second, at most \<open>n\<close> times, and ends at once if it is set; the sleeps themselves
  have no effect on the state. The product that counts them is an \<open>int\<close>.
\<close>

fun pause :: "nat \<Rightarrow> bool list \<Rightarrow> ('w, unit) hm_proc" where
  "pause 0 reads = ret_m ()"
| "pause (Suc n) [] = (\<lambda>p. Inl OutOfFuel)"
| "pause (Suc n) (stop # reads) = (if stop then ret_m () else pause n reads)"

definition pauses :: "int \<Rightarrow> bool list \<Rightarrow> ('w, unit) hm_proc" where
  "pauses interval reads p = (if interval * 10 > INT_MAX then Inl Undefined else pause (nat (interval * 10)) reads p)"

definition ProbeLoop_body :: "libpq \<Rightarrow> bool list \<Rightarrow> ('w, unit) hm_proc" where
  "ProbeLoop_body L reads =
     bind_m (get_m fst) (\<lambda>h.
     bind_m (if hm_has_params h then
               bind_m (ProbeOnce L) (\<lambda>healthy.
               bind_m (SetServing healthy) (\<lambda>_.
               if \<not> healthy then upd_h (\<lambda>h. h\<lparr>hm_log := hm_log h @ [Warn ''health_probe_failed'' ''PostgreSQL probe failed'']\<rparr>)
               else ret_m ()))
             else ret_m ()) (\<lambda>_.
     pauses (hm_probe_interval_sec h) reads))"

text \<open>One entry for each round: the value the test of the loop reads, and those the pause may read.\<close>

fun ProbeLoop :: "libpq \<Rightarrow> (bool \<times> bool list) list \<Rightarrow> ('w, unit) hm_proc" where
  "ProbeLoop L [] = (\<lambda>p. Inl OutOfFuel)"
| "ProbeLoop L ((stop, reads) # rounds) =
     (if stop then ret_m () else bind_m (ProbeLoop_body L reads) (\<lambda>_. ProbeLoop L rounds))"

section \<open>Correctness of the monitor\<close>

text \<open>The status last reported for a service.\<close>

definition reported :: "PgHealthMonitor \<Rightarrow> string \<Rightarrow> bool option" where
  "reported h service = map_of (hm_calls h) service"

definition health_services :: "string list" where
  "health_services = [[], ''mtdd.MtddShard'', ''mtdd.MtddNotify'']"

lemma wp_upd_h [wp_simps]: "wp (upd_h f) Q (h, s) = Q () (f h, s)"
  by (simp add: upd_h_def wp_simps)

text \<open>The values are enough for a pause: one of them stops it, or there are as many as it reads.\<close>

definition pause_ends :: "int \<Rightarrow> bool list \<Rightarrow> bool" where
  "pause_ends interval reads \<longleftrightarrow> True \<in> set (take (nat (interval * 10)) reads) \<or> nat (interval * 10) \<le> length reads"

lemma pause_returns: "True \<in> set (take n reads) \<or> n \<le> length reads \<Longrightarrow> pause n reads p = Inr ((), p)"
  by (induction n reads rule: pause.induct) auto

lemma wp_pauses: "i * 10 \<le> INT_MAX \<Longrightarrow> pause_ends i reads \<Longrightarrow> wp (pauses i reads) Q = Q ()"
  by (simp add: wp_def pauses_def fun_eq_iff pause_returns pause_ends_def)

lemma wp_SetServing:
  "wp (SetServing b) Q (h, s) =
     (if hm_server h \<and> hm_health_service h
      then Q () (h\<lparr>hm_calls := (''mtdd.MtddNotify'', b) # (''mtdd.MtddShard'', b) # ([], b) # hm_calls h\<rparr>, s)
      else Q () (h, s))"
  by (simp add: SetServing_def wp_simps)

text \<open>A probe leaves no connection open and changes nothing of the monitor.\<close>

definition probe_effect :: "'w pg_world_scheme \<Rightarrow> 'w pg_world_scheme \<Rightarrow> bool" where
  "probe_effect s s' \<longleftrightarrow>
     (let new = events_since (history s) (history s') in
      extends (history s) (history s') \<and> s' = s\<lparr>history := history s', next_conn := next_conn s'\<rparr> \<and>
      opened new \<subseteq> finished new \<and> results_of new \<subseteq> cleared new)"

lemma wp_ProbeOnce:
  "wp (ProbeOnce L) (\<lambda>ok p. fst p = h \<and> (ok \<longrightarrow> hm_has_params h) \<and> probe_effect s (snd p)) (h, s)"
proof (cases "hm_has_params h")
  case False
  then show ?thesis by (simp add: ProbeOnce_def wp_simps probe_effect_def)
next
  case True
  obtain r e t where run: "PqConnection_Connect L (hm_params h) (Some []) (hm_statement_timeout_ms h) s = Inr ((r, e), t)"
    and eff: "connect_effect s t r"
    by (rule PqConnection_Connect_runs)
  have eq: "t = s\<lparr>history := history t, next_conn := next_conn t\<rparr>" by (rule connect_effect_eq [OF eff])
  have ext: "extends (history s) (history t)"
    by (rule connect_effect_frame [OF eff]) (auto simp: extends_def)
  have new: "opened (events_since (history s) (history t)) \<subseteq> finished (events_since (history s) (history t)) \<union> set_option r"
    "results_of (events_since (history s) (history t)) \<subseteq> cleared (events_since (history s) (history t))"
    using eff by (auto simp: connect_effect_def Let_def)
  show ?thesis
  proof (cases r)
    case None
    with new ext eq have "probe_effect s t" by (simp add: probe_effect_def Let_def)
    with True None run show ?thesis
      by (simp add: ProbeOnce_def wp_simps wp_def [of "PqConnection_Connect _ _ _ _"])
  next
    case (Some c)
    have "t\<lparr>history := EvFinish c # history t\<rparr> = s\<lparr>history := EvFinish c # history t, next_conn := next_conn t\<rparr>"
      using arg_cong [where f = "\<lambda>t. t\<lparr>history := EvFinish c # history t\<rparr>", OF eq] by simp
    with new ext Some have "probe_effect s (t\<lparr>history := EvFinish c # history t\<rparr>)"
      by (auto simp: probe_effect_def Let_def extends_length)
    with True Some run show ?thesis
      by (simp add: ProbeOnce_def wp_simps wp_def [of "PqConnection_Connect _ _ _ _"])
  qed
qed

lemma probe_effect_refl: "probe_effect s s"
  by (simp add: probe_effect_def)

lemma probe_effect_trans:
  assumes "probe_effect s t" "probe_effect t u"
  shows "probe_effect s u"
proof -
  have ext: "extends (history s) (history t)" "extends (history t) (history u)"
    using assms by (simp_all add: probe_effect_def Let_def)
  have eq: "t = s\<lparr>history := history t, next_conn := next_conn t\<rparr>" "u = t\<lparr>history := history u, next_conn := next_conn u\<rparr>"
    using assms unfolding probe_effect_def Let_def by blast+
  have "u = s\<lparr>history := history u, next_conn := next_conn u\<rparr>"
    by (subst eq(2), subst eq(1)) simp
  moreover have "opened (events_since (history s) (history u)) \<subseteq> finished (events_since (history s) (history u))"
    "results_of (events_since (history s) (history u)) \<subseteq> cleared (events_since (history s) (history u))"
    using assms unfolding extends_split [OF ext] probe_effect_def Let_def by auto
  ultimately show ?thesis using extends_trans [OF ext] by (simp add: probe_effect_def)
qed

text \<open>All three services are always reported alike.\<close>

definition uniform :: "PgHealthMonitor \<Rightarrow> bool" where
  "uniform h \<longleftrightarrow> (\<forall>v \<in> set health_services. reported h v = reported h [])"

lemma wp_SetServing_reports:
  assumes "uniform h"
  shows "wp (SetServing b) (\<lambda>_ p. snd p = s \<and> uniform (fst p) \<and>
      (hm_server h \<and> hm_health_service h \<longrightarrow> (\<forall>v \<in> set health_services. reported (fst p) v = Some b)) \<and>
      (\<exists>calls. fst p = h\<lparr>hm_calls := calls\<rparr>)) (h, s)"
proof -
  have "\<exists>calls. h = h\<lparr>hm_calls := calls\<rparr>" by (rule exI [of _ "hm_calls h"]) simp
  moreover have "\<exists>calls'. h\<lparr>hm_calls := calls\<rparr> = h\<lparr>hm_calls := calls'\<rparr>" for calls by blast
  ultimately show ?thesis using assms by (auto simp: wp_SetServing uniform_def health_services_def reported_def)
qed

text \<open>What a round, and any number of them, leaves of the monitor and the world: only reports of the status and warnings are added.\<close>

definition probed :: "PgHealthMonitor \<Rightarrow> 'w pg_world_scheme \<Rightarrow> PgHealthMonitor \<times> 'w pg_world_scheme \<Rightarrow> bool" where
  "probed h s p \<longleftrightarrow> uniform (fst p) \<and> probe_effect s (snd p) \<and>
     (\<exists>calls n. fst p = h\<lparr>hm_calls := calls, hm_log := hm_log h @ replicate n (Warn ''health_probe_failed'' ''PostgreSQL probe failed'')\<rparr>)"

lemma probed_refl: "uniform h \<Longrightarrow> probed h s (h, s)"
  by (auto simp: probed_def probe_effect_refl intro!: exI [of _ "hm_calls h"] exI [of _ 0])

lemma probed_trans:
  assumes "probed h s p" "probed (fst p) (snd p) r"
  shows "probed h s r"
proof -
  obtain calls n calls' m where p: "fst p = h\<lparr>hm_calls := calls, hm_log := hm_log h @ replicate n (Warn ''health_probe_failed'' ''PostgreSQL probe failed'')\<rparr>"
    and r: "fst r = (fst p)\<lparr>hm_calls := calls', hm_log := hm_log (fst p) @ replicate m (Warn ''health_probe_failed'' ''PostgreSQL probe failed'')\<rparr>"
    using assms unfolding probed_def by blast
  have "fst r = h\<lparr>hm_calls := calls', hm_log := hm_log h @ replicate (n + m) (Warn ''health_probe_failed'' ''PostgreSQL probe failed'')\<rparr>"
    unfolding r p by (simp add: replicate_add)
  with assms probe_effect_trans show ?thesis unfolding probed_def by blast
qed

lemma probed_interval: "probed h s p \<Longrightarrow> hm_probe_interval_sec (fst p) = hm_probe_interval_sec h"
  by (auto simp: probed_def)

lemma wp_ProbeLoop_body:
  assumes "uniform h" "hm_probe_interval_sec h * 10 \<le> INT_MAX" "pause_ends (hm_probe_interval_sec h) reads"
  shows "wp (ProbeLoop_body L reads) (\<lambda>_. probed h s) (h, s)"
proof (cases "hm_has_params h")
  case False
  with assms show ?thesis by (simp add: ProbeLoop_body_def wp_simps probed_refl wp_pauses)
next
  case True
  have log: "probed h s (h1\<lparr>hm_log := hm_log h1 @ (if b then [] else [Warn ''health_probe_failed'' ''PostgreSQL probe failed''])\<rparr>, t)"
    if "uniform h1" "h1 = h\<lparr>hm_calls := calls\<rparr>" "probe_effect s t" for h1 calls b t
    using that by (auto simp: probed_def uniform_def reported_def intro!: exI [of _ calls] exI [of _ "if b then 0 else 1"])
  have "wp (bind_m (ProbeOnce L) (\<lambda>healthy. bind_m (SetServing healthy) (\<lambda>_. if \<not> healthy then
      upd_h (\<lambda>h. h\<lparr>hm_log := hm_log h @ [Warn ''health_probe_failed'' ''PostgreSQL probe failed'']\<rparr>) else ret_m ()))) (\<lambda>_. probed h s) (h, s)"
    unfolding wp_basic
  proof (rule wp_mono [OF wp_ProbeOnce])
    fix ok p
    assume p: "fst p = h \<and> (ok \<longrightarrow> hm_has_params h) \<and> probe_effect s (snd p)"
    then have hp: "p = (h, snd p)" by (simp add: prod_eq_iff)
    show "wp (SetServing ok) (\<lambda>_. wp (if \<not> ok then
      upd_h (\<lambda>h. h\<lparr>hm_log := hm_log h @ [Warn ''health_probe_failed'' ''PostgreSQL probe failed'']\<rparr>) else ret_m ()) (\<lambda>_. probed h s)) p"
      by (subst hp, rule wp_mono [OF wp_SetServing_reports [OF assms(1), of ok "snd p"]])
        (use log [of _ _ _ ok] p in \<open>cases ok; auto simp: wp_simps\<close>)
  qed
  with True assms(2,3) show ?thesis by (simp add: ProbeLoop_body_def wp_simps wp_pauses)
qed

text \<open>C6: After a successful \<open>Connect\<close> of a client, with the server attached, the status reported for the
  server as a whole and for both of its services is exactly whether a fresh connection with the new
  parameters could be opened and probed; the probe's connection is closed again and its results are
  freed; and the probe thread is running.\<close>

theorem OnConnectSuccess_reports_probe:
  assumes "hm_server h" and "hm_health_service h"
  shows "\<exists>h' s' ok. OnConnectSuccess L params ms (h, s) = Inr ((), (h', s')) \<and>
    (\<forall>v \<in> set health_services. reported h' v = Some ok) \<and>
    (ok \<longleftrightarrow> (\<exists>c e t. PqConnection_Connect L params (Some []) ms s = Inr ((Some c, e), t))) \<and>
    hm_probe_thread h' \<and> probe_effect s s'"
proof -
  let ?h = "h\<lparr>hm_params := params, hm_statement_timeout_ms := ms, hm_has_params := True\<rparr>"
  obtain r e t where run: "PqConnection_Connect L params (Some []) ms s = Inr ((r, e), t)"
    using PqConnection_Connect_runs by metis
  obtain ok s1 where probe: "ProbeOnce L (?h, s) = Inr (ok, (?h, s1))" and eff: "probe_effect s s1"
    using wp_ProbeOnce [of L ?h s] by (auto simp: wp_iff)
  have ok: "ok \<longleftrightarrow> r \<noteq> None"
    using probe run
    by (auto simp: ProbeOnce_def bind_m_def world_m_def PQfinish_m_def record_event_def split: option.splits)
  have "wp (OnConnectSuccess L params ms) (\<lambda>_ p. (\<forall>v \<in> set health_services. reported (fst p) v = Some ok) \<and>
      hm_probe_thread (fst p) \<and> snd p = s1) (h, s)"
    using assms
    by (simp add: OnConnectSuccess_def wp_simps wp_def [of "ProbeOnce L"] probe wp_SetServing reported_def health_services_def)
  with ok run eff show ?thesis by (auto simp: wp_iff)
qed

theorem OnConnectSuccess_reports_probe_witness:
  "\<exists>h' s'. OnConnectSuccess (demo_libpq []) ConnectParams_init 250
      ((PgHealthMonitor_init 30)\<lparr>hm_server := True, hm_health_service := True\<rparr>, empty_world) = Inr ((), (h', s')) \<and>
     reported h' ''mtdd.MtddShard'' = Some True"
proof -
  let ?h = "(PgHealthMonitor_init 30)\<lparr>hm_server := True, hm_health_service := True\<rparr>"
  have "wp (PqConnection_Connect (demo_libpq []) ConnectParams_init (Some []) 250) (\<lambda>(r, _) _. r = Some 0) empty_world"
    by (simp add: PqConnection_Connect_def wp_ApplyStatementTimeout wp_simps demo_eval)
  then have "\<exists>c e t. PqConnection_Connect (demo_libpq []) ConnectParams_init (Some []) 250 empty_world = Inr ((Some c, e), t)"
    by (auto simp: wp_iff)
  with OnConnectSuccess_reports_probe [of ?h "demo_libpq []" ConnectParams_init 250 empty_world] show ?thesis
    by (auto simp: health_services_def)
qed

text \<open>C33: The probe loop ends as soon as its test reads the stop flag, however many rounds it ran before and whether their pauses were cut short by
  the flag or ran to their end. It leaves no connection open and no result unfreed, never changes anything of the monitor but the reported status
  and the log, to which it adds only its warning, and reports the same status for all services at any time, provided the interval in tenths of a
  second fits an \<open>int\<close>.\<close>

theorem ProbeLoop_stops_cleanly:
  assumes "uniform h" and "hm_probe_interval_sec h * 10 \<le> INT_MAX"
    and "\<forall>(stop, reads) \<in> set rounds. \<not> stop \<and> pause_ends (hm_probe_interval_sec h) reads"
  shows "\<exists>h' s'. ProbeLoop L (rounds @ [(True, reads)]) (h, s) = Inr ((), (h', s')) \<and>
    uniform h' \<and> probe_effect s s' \<and>
    (\<exists>calls n. h' = h\<lparr>hm_calls := calls, hm_log := hm_log h @ replicate n (Warn ''health_probe_failed'' ''PostgreSQL probe failed'')\<rparr>)"
proof -
  have "wp (ProbeLoop L (rounds @ [(True, reads)])) (\<lambda>_. probed h s) (h, s)"
    using assms
  proof (induction rounds arbitrary: h s)
    case Nil
    then show ?case by (simp add: wp_simps probed_refl)
  next
    case (Cons round rounds)
    obtain stop rs where round: "round = (stop, rs)" by (cases round)
    have "wp (ProbeLoop_body L rs) (\<lambda>_. wp (ProbeLoop L (rounds @ [(True, reads)])) (\<lambda>_. probed h s)) (h, s)"
    proof (rule wp_mono [OF wp_ProbeLoop_body])
      fix a p
      assume p: "probed h s p"
      have "wp (ProbeLoop L (rounds @ [(True, reads)])) (\<lambda>_. probed (fst p) (snd p)) (fst p, snd p)"
        by (rule Cons.IH) (use p probed_interval [OF p] Cons.prems in \<open>auto simp: probed_def\<close>)
      then show "wp (ProbeLoop L (rounds @ [(True, reads)])) (\<lambda>_. probed h s) p"
        unfolding prod.collapse by (rule wp_mono) (rule probed_trans [OF p])
    qed (use Cons.prems round in auto)
    with Cons.prems round show ?case by (simp add: wp_simps)
  qed
  then show ?thesis by (auto simp: wp_iff probed_def)
qed

theorem ProbeLoop_stops_cleanly_witness:
  "\<exists>h' s'. ProbeLoop (demo_libpq []) [(False, replicate 300 False), (False, [False, True]), (True, [])] (PgHealthMonitor_init 30, empty_world) =
       Inr ((), (h', s')) \<and> probe_effect empty_world s'"
  using ProbeLoop_stops_cleanly [of "PgHealthMonitor_init 30" "[(False, replicate 300 False), (False, [False, True])]" "demo_libpq []" "[]" empty_world]
  by (auto simp: uniform_def reported_def PgHealthMonitor_init_def INT_MAX_def pause_ends_def)

end
