(* ===== verification/Raw_Batch.thy ===== *)
theory Raw_Batch
  imports Libpq_Result
begin

text \<open>
  The RPGB v1 batch encoder of \<open>src/src/codec/raw_batch_encoder.cpp\<close>, and the reader of the same
  format in \<open>src/integration/lib/pg-binary-decode.js\<close>, with the round trip between them. The
  conversion of a cell by its type (\<open>decodePgCell\<close>), which may throw, is a parameter of the reader: the encoder does
  not depend on it, and it has a theory of its own, \<open>Pg_Cell\<close>.
\<close>

section \<open>The encoder\<close>

definition kRawPgBatchMagic :: "32 word" where "kRawPgBatchMagic = 0x42504752"
definition kRawPgBatchVersion :: "32 word" where "kRawPgBatchVersion = 1"

definition AppendU32 :: "string \<Rightarrow> 32 word \<Rightarrow> string" where
  "AppendU32 out value =
     out @ [char_of (unat (value AND 0xFF)),
            char_of (unat (drop_bit 8 value AND 0xFF)),
            char_of (unat (drop_bit 16 value AND 0xFF)),
            char_of (unat (drop_bit 24 value AND 0xFF))]"

definition AppendBytes :: "string \<Rightarrow> string option \<Rightarrow> nat \<Rightarrow> string" where
  "AppendBytes out data len =
     (case data of Some d \<Rightarrow> if len > 0 then out @ take len d else out | None \<Rightarrow> out)"

definition encode_cell :: "PGresult \<Rightarrow> int \<Rightarrow> int \<Rightarrow> string \<Rightarrow> string cxx" where
  "encode_cell result col row out =
     (if PQgetisnull result row col then Inr (out @ [CHR 0x01])
      else
        let out = out @ [CHR 0x00];
            val = PQgetvalue result row col;
            len = PQgetlength result row col
        in if len < 0 then Inl (RuntimeError ''EncodeRawPgBatch negative cell length'')
           else Inr (AppendBytes (AppendU32 out (word_of_int len)) val (nat len)))"

text \<open>
  The sum passed to \<open>reserve\<close> is computed in \<open>int\<close>; the loops run columns outermost. The
  null-pointer argument is \<open>None\<close>.
\<close>

definition EncodeRawPgBatch :: "PGresult option \<Rightarrow> int \<Rightarrow> int \<Rightarrow> string cxx" where
  "EncodeRawPgBatch result row_begin row_end =
     (case result of
        None \<Rightarrow> Inl (RuntimeError ''EncodeRawPgBatch result is null'')
      | Some r \<Rightarrow>
          if row_begin < 0 \<or> row_end < row_begin
          then Inl (RuntimeError ''EncodeRawPgBatch invalid row range'')
          else
            let num_cols = PQnfields r;
                num_rows = row_end - row_begin
            in if 16 + num_rows * num_cols * 8 > INT_MAX then Inl SignedOverflow
               else
                 let out = AppendU32 [] kRawPgBatchMagic;
                     out = AppendU32 out kRawPgBatchVersion;
                     out = AppendU32 out (word_of_int num_rows);
                     out = AppendU32 out (word_of_int num_cols)
                 in for_each
                      (\<lambda>col. for_each (\<lambda>row. encode_cell r col row) [row_begin..row_end - 1])
                      [0..num_cols - 1] out)"

section \<open>The client's reader\<close>

text \<open>\<open>Buffer.readUInt32LE\<close> at the front of the bytes not yet read.\<close>

fun readU32 :: "string \<Rightarrow> nat" where
  "readU32 (a # b # c # d # _) =
     of_char a + 256 * of_char b + 65536 * of_char c + 16777216 * of_char d"
| "readU32 _ = 0"

definition hex_digit :: "nat \<Rightarrow> char" where
  "hex_digit n = (if n < 10 then char_of (48 + n) else char_of (87 + n))"

fun to_hex :: "nat \<Rightarrow> string" where
  "to_hex n = (if n < 16 then [hex_digit n] else to_hex (n div 16) @ [hex_digit (n mod 16)])"

declare to_hex.simps [simp del]

text \<open>
  One round of the inner loop: \<open>rows\<close> are the row objects built so far (JavaScript's \<open>null\<close> is
  \<open>None\<close>), \<open>rest\<close> the bytes from \<open>offset\<close> on, \<open>name\<close> and \<open>conv\<close> the column's name and conversion.
\<close>

definition decode_cell ::
  "string \<Rightarrow> (string \<Rightarrow> 'v cxx) \<Rightarrow> nat \<Rightarrow> (string \<rightharpoonup> 'v option) list \<times> string
   \<Rightarrow> ((string \<rightharpoonup> 'v option) list \<times> string) cxx" where
  "decode_cell name conv row st =
     (case st of (rows, rest) \<Rightarrow>
        case rest of
          [] \<Rightarrow> Inl (RuntimeError ''raw PG batch truncated'')
        | flag # rest1 \<Rightarrow>
            if flag \<noteq> CHR 0x00 then Inr (rows[row := (rows ! row)(name \<mapsto> None)], rest1)
            else if length rest1 < 4 then Inl (RuntimeError ''raw PG batch truncated at length'')
            else
              let valueLen = readU32 rest1;
                  rest2 = drop 4 rest1
              in if length rest2 < valueLen
                 then Inl (RuntimeError ''raw PG batch truncated at value'')
                 else cxx_bind (conv (take valueLen rest2)) (\<lambda>value.
                      Inr (rows[row := (rows ! row)(name \<mapsto> Some value)], drop valueLen rest2)))"

definition decodeRawPgBatch ::
  "(nat \<Rightarrow> string \<Rightarrow> 'v cxx) \<Rightarrow> string \<Rightarrow> string list \<Rightarrow> (string \<rightharpoonup> 'v option) list cxx" where
  "decodeRawPgBatch conv payload names =
     (if payload = [] then Inr []
      else if length payload < 16 then Inl (RuntimeError ''raw PG batch too short'')
      else
        let magic = readU32 payload in
        if magic \<noteq> 0x42504752
        then Inl (RuntimeError (''invalid raw PG batch magic: '' @ to_hex magic))
        else
          let version = readU32 (drop 4 payload) in
          if version \<noteq> 1
          then Inl (RuntimeError (''unsupported raw PG batch version: '' @ nat_to_string version))
          else
            let numRows = readU32 (drop 8 payload);
                numCols = readU32 (drop 12 payload)
            in if numCols \<noteq> length names
               then Inl (RuntimeError (''column count mismatch: batch='' @ nat_to_string numCols
                       @ '' schema='' @ nat_to_string (length names)))
               else
                 cxx_bind
                   (for_each
                      (\<lambda>col. for_each (decode_cell (names ! col) (conv col)) [0..<numRows])
                      [0..<numCols] (replicate numRows Map.empty, drop 16 payload))
                   (\<lambda>(rows, rest). Inr rows))"

section \<open>Words on the wire\<close>

definition u32_le :: "nat \<Rightarrow> string" where
  "u32_le n = [char_of n, char_of (n div 256), char_of (n div 65536), char_of (n div 16777216)]"

lemma unat_byte_32: "unat (drop_bit k (w :: 32 word) AND 0xFF) = unat w div 2 ^ k mod 256"
proof -
  have mask: "(0xFF :: 32 word) = mask 8" by (simp add: mask_eq_exp_minus_1)
  have "unat (drop_bit k w AND 0xFF) = take_bit 8 (drop_bit k (unat w))"
    unfolding mask take_bit_eq_mask [symmetric]
    by (simp only: unsigned_take_bit_eq unat_drop_bit_eq)
  then show ?thesis by (simp add: take_bit_eq_mod drop_bit_eq_div)
qed

lemma AppendU32_eq: "AppendU32 out w = out @ u32_le (unat w)"
  using unat_byte_32 [of 0 w] unat_byte_32 [of 8 w] unat_byte_32 [of 16 w] unat_byte_32 [of 24 w]
  unfolding AppendU32_def u32_le_def by simp

lemma length_u32_le [simp]: "length (u32_le n) = 4"
  by (simp add: u32_le_def)

lemma u32_le_not_Nil [simp]: "u32_le n \<noteq> []"
  by (simp add: u32_le_def)

lemma readU32_u32_le [simp]:
  assumes "n < 4294967296"
  shows "readU32 (u32_le n @ rest) = n"
proof -
  define a b c where "a = n div 256" and "b = a div 256" and "c = b div 256"
  have d: "n div 65536 = b" "n div 16777216 = c"
    by (simp_all add: a_def b_def c_def div_mult2_eq [symmetric])
  have "c < 256" using assms by (simp flip: d)
  moreover have "n = n mod 256 + 256 * a" "a = a mod 256 + 256 * b" "b = b mod 256 + 256 * c"
    by (simp_all add: a_def b_def c_def)
  ultimately have "n mod 256 + 256 * (n div 256 mod 256) + 65536 * (n div 65536 mod 256)
        + 16777216 * (n div 16777216 mod 256) = n"
    unfolding d a_def [symmetric] by simp
  then show ?thesis by (simp only: u32_le_def append.simps readU32.simps of_char_of)
qed

section \<open>Encoding and reading a batch\<close>

text \<open>The bytes of one cell, and what the reader builds from one row of cells.\<close>

fun cell_bytes :: "string option \<Rightarrow> string" where
  "cell_bytes None = [CHR 0x01]"
| "cell_bytes (Some v) = CHR 0x00 # u32_le (length v) @ v"

definition row_object ::
  "(nat \<Rightarrow> string \<Rightarrow> 'v) \<Rightarrow> string list \<Rightarrow> (nat \<Rightarrow> string option) \<Rightarrow> (string \<rightharpoonup> 'v option)" where
  "row_object conv names cell =
     foldl (\<lambda>m col. m(names ! col \<mapsto> map_option (conv col) (cell col))) Map.empty [0..<length names]"

definition batch_fits :: "PGresult \<Rightarrow> int \<Rightarrow> int \<Rightarrow> bool" where
  "batch_fits r row_begin row_end \<longleftrightarrow>
     0 \<le> row_begin \<and> row_begin \<le> row_end \<and> row_end \<le> PQntuples r
     \<and> 16 + (row_end - row_begin) * PQnfields r * 8 \<le> INT_MAX"

definition cell_fits :: "string option \<Rightarrow> bool" where
  "cell_fits c \<longleftrightarrow> (\<forall>v. c = Some v \<longrightarrow> int (length v) \<le> INT_MAX)"

lemma unat_word_of_int_32:
  "0 \<le> i \<Longrightarrow> i \<le> INT_MAX \<Longrightarrow> unat (word_of_int i :: 32 word) = nat i"
  by (simp add: INT_MAX_def unat_eq_nat_uint uint_word_of_int)

lemma unat_word_of_nat_32:
  "int n \<le> INT_MAX \<Longrightarrow> unat (word_of_nat n :: 32 word) = n"
  using unat_word_of_int_32 [of "int n"] by simp

lemma encode_cell_eq:
  assumes "pgresult_wf r" "0 \<le> row" "row < PQntuples r" "0 \<le> col" "col < PQnfields r"
  shows "encode_cell r col row out = Inr (out @ cell_bytes (pg_cell r row col))"
  using pgresult_wf_cell [OF assms]
  by (auto simp: encode_cell_def pg_cell_def AppendBytes_def AppendU32_eq unat_word_of_nat_32 Let_def)

lemma pg_cell_fits:
  assumes "pgresult_wf r" "0 \<le> row" "row < PQntuples r" "0 \<le> col" "col < PQnfields r"
  shows "cell_fits (pg_cell r row col)"
  using pgresult_wf_cell [OF assms] by (auto simp: pg_cell_def cell_fits_def)

lemma EncodeRawPgBatch_eq:
  assumes "pgresult_wf r" "batch_fits r b e"
  shows "EncodeRawPgBatch (Some r) b e =
    Inr (u32_le 0x42504752 @ u32_le 1 @ u32_le (nat (e - b)) @ u32_le (nat (PQnfields r))
      @ concat (map (\<lambda>col. concat (map (\<lambda>row. cell_bytes (pg_cell r row col)) [b..e - 1]))
          [0..PQnfields r - 1]))"
proof -
  have wf: "0 \<le> PQnfields r" "PQnfields r \<le> INT_MAX" "PQntuples r \<le> INT_MAX"
    using assms(1) by (auto simp: pgresult_wf_def)
  have range: "0 \<le> b" "b \<le> e" "e \<le> PQntuples r" "16 + (e - b) * PQnfields r * 8 \<le> INT_MAX"
    using assms(2) by (auto simp: batch_fits_def)
  have inner: "for_each (\<lambda>row. encode_cell r col row) [b..e - 1] out =
      Inr (out @ concat (map (\<lambda>row. cell_bytes (pg_cell r row col)) [b..e - 1]))"
    if "col \<in> set [0..PQnfields r - 1]" for col out
    by (rule for_each_appends, rule encode_cell_eq) (use that assms(1) range in auto)
  have outer: "for_each (\<lambda>col. for_each (\<lambda>row. encode_cell r col row) [b..e - 1])
      [0..PQnfields r - 1] out =
      Inr (out @ concat (map (\<lambda>col. concat (map (\<lambda>row. cell_bytes (pg_cell r row col)) [b..e - 1]))
          [0..PQnfields r - 1]))" for out
    by (rule for_each_appends) (rule inner)
  have hdr: "unat (word_of_int (e - b) :: 32 word) = nat (e - b)"
    "unat (word_of_int (PQnfields r) :: 32 word) = nat (PQnfields r)"
    "unat kRawPgBatchMagic = 0x42504752" "unat kRawPgBatchVersion = 1"
    using range wf
    by (auto simp: kRawPgBatchMagic_def kRawPgBatchVersion_def simp del: of_int_diff
        intro!: unat_word_of_int_32)
  show ?thesis
    using range by (simp add: EncodeRawPgBatch_def Let_def AppendU32_eq outer hdr del: of_int_diff)
qed

text \<open>The conversion of a cell, if it has a value, gives \<open>val\<close> of it.\<close>

definition converts :: "(string \<Rightarrow> 'v cxx) \<Rightarrow> (string \<Rightarrow> 'v) \<Rightarrow> string option \<Rightarrow> bool" where
  "converts conv val c \<longleftrightarrow> (\<forall>bytes. c = Some bytes \<longrightarrow> conv bytes = Inr (val bytes))"

lemma decode_cell_step:
  assumes "cell_fits c" "converts conv val c"
  shows "decode_cell name conv row (rows, cell_bytes c @ rest) =
    Inr (rows[row := (rows ! row)(name \<mapsto> map_option val c)], rest)"
  using assms by (cases c) (simp_all add: decode_cell_def cell_fits_def converts_def INT_MAX_def Let_def)

lemma decode_column:
  assumes "length rows = n" "m \<le> n" "\<And>i. i < m \<Longrightarrow> cell_fits (g i) \<and> converts conv val (g i)"
  shows "for_each (decode_cell name conv) [0..<m]
      (rows, concat (map (\<lambda>i. cell_bytes (g i)) [0..<m]) @ rest) =
    Inr (map (\<lambda>i. if i < m then (rows ! i)(name \<mapsto> map_option val (g i)) else rows ! i) [0..<n], rest)"
  using assms(2,3)
proof (induction m arbitrary: rest)
  case 0
  then show ?case using assms(1) map_nth [of rows] by simp
next
  case (Suc m)
  let ?f = "\<lambda>m i. if i < m then (rows ! i)(name \<mapsto> map_option val (g i)) else rows ! i"
  have IH: "for_each (decode_cell name conv) [0..<m]
      (rows, concat (map (\<lambda>i. cell_bytes (g i)) [0..<m]) @ (cell_bytes (g m) @ rest)) =
      Inr (map (?f m) [0..<n], cell_bytes (g m) @ rest)"
    using Suc by simp
  have "(map (?f m) [0..<n])[m := (rows ! m)(name \<mapsto> map_option val (g m))] = map (?f (Suc m)) [0..<n]"
    using Suc.prems(1) by (auto simp: list_eq_iff_nth_eq nth_list_update)
  with IH Suc.prems show ?case by (simp add: decode_cell_step [of "g m" conv val])
qed

lemma decode_columns:
  assumes "length rows = n"
    "\<And>i col. i < n \<Longrightarrow> col < k \<Longrightarrow> cell_fits (cell i col) \<and> converts (conv col) (val col) (cell i col)"
  shows "for_each (\<lambda>col. for_each (decode_cell (names ! col) (conv col)) [0..<n]) [0..<k]
      (rows, concat (map (\<lambda>col. concat (map (\<lambda>i. cell_bytes (cell i col)) [0..<n])) [0..<k]) @ rest) =
    Inr (map (\<lambda>i. foldl (\<lambda>m col. m(names ! col \<mapsto> map_option (val col) (cell i col))) (rows ! i) [0..<k])
          [0..<n], rest)"
  using assms(2)
proof (induction k arbitrary: rest)
  case 0
  then show ?case using assms(1) map_nth [of rows] by simp
next
  case (Suc k)
  let ?rows = "map (\<lambda>i. foldl (\<lambda>m col. m(names ! col \<mapsto> map_option (val col) (cell i col))) (rows ! i) [0..<k])
      [0..<n]"
  have "for_each (decode_cell (names ! k) (conv k)) [0..<n]
      (?rows, concat (map (\<lambda>i. cell_bytes (cell i k)) [0..<n]) @ rest) =
      Inr (map (\<lambda>i. if i < n then (?rows ! i)(names ! k \<mapsto> map_option (val k) (cell i k)) else ?rows ! i)
        [0..<n], rest)"
    by (rule decode_column) (use Suc.prems in simp_all)
  with Suc.IH [of "concat (map (\<lambda>i. cell_bytes (cell i k)) [0..<n]) @ rest"] Suc.prems
  show ?case by (simp del: fun_upd_apply cong: map_cong)
qed

lemma upto_eq_map_int: "0 \<le> n \<Longrightarrow> [a..a + n - 1] = map (\<lambda>i. a + int i) [0..<nat n]"
  by (rule nth_equalityI) (auto simp: nth_upto)

lemma batch_body_by_index:
  assumes "0 \<le> nf" "b \<le> e"
  shows "concat (map (\<lambda>col. concat (map (\<lambda>row. cell_bytes (f row col)) [b..e - 1])) [0..nf - 1]) =
    concat (map (\<lambda>col. concat (map (\<lambda>i. cell_bytes (f (b + int i) (int col))) [0..<nat (e - b)]))
      [0..<nat nf])"
proof -
  have "[b..e - 1] = map (\<lambda>i. b + int i) [0..<nat (e - b)]"
    using upto_eq_map_int [of "e - b" b] assms(2) by simp
  moreover have "[0..nf - 1] = map int [0..<nat nf]"
    using upto_eq_map_int [of nf 0] assms(1) by simp
  ultimately show ?thesis by (simp add: comp_def)
qed

lemma decode_EncodeRawPgBatch:
  assumes "pgresult_wf r" and "batch_fits r row_begin row_end"
    and "EncodeRawPgBatch (Some r) row_begin row_end = Inr payload"
    and "int (length names) = PQnfields r"
    and conv: "\<forall>row col. row_begin \<le> row \<and> row < row_end \<and> col < length names \<longrightarrow> converts (conv col) (val col) (pg_cell r row (int col))"
  shows "decodeRawPgBatch conv payload names =
    Inr (map (\<lambda>row. row_object val names (\<lambda>col. pg_cell r row (int col))) [row_begin..row_end - 1])"
proof -
  let ?n = "nat (row_end - row_begin)" and ?k = "length names"
  let ?cell = "\<lambda>i col. pg_cell r (row_begin + int i) (int col)"
  let ?body = "concat (map (\<lambda>col. concat (map (\<lambda>i. cell_bytes (?cell i col)) [0..<?n])) [0..<?k])"
  have range: "0 \<le> row_begin" "row_begin \<le> row_end" "row_end \<le> PQntuples r"
    using assms(2) by (auto simp: batch_fits_def)
  have wf: "0 \<le> PQnfields r" "PQnfields r \<le> INT_MAX" "PQntuples r \<le> INT_MAX"
    using assms(1) by (auto simp: pgresult_wf_def)
  have k: "nat (PQnfields r) = ?k" using assms(4) by linarith
  have small: "?n < 4294967296" "?k < 4294967296"
    using range wf assms(4) by (simp_all add: INT_MAX_def)
  have payload: "payload = u32_le 0x42504752 @ u32_le 1 @ u32_le ?n @ u32_le ?k @ ?body"
    using assms(3) range wf
    by (simp add: EncodeRawPgBatch_eq [OF assms(1,2)] batch_body_by_index k)
  have fits: "cell_fits (?cell i col)" if "i < ?n" "col < ?k" for i col
    by (rule pg_cell_fits) (use that assms(1,4) range in auto)
  have rows: "for_each (\<lambda>col. for_each (decode_cell (names ! col) (conv col)) [0..<?n]) [0..<?k]
      (replicate ?n Map.empty, ?body @ []) =
      Inr (map (\<lambda>i. foldl (\<lambda>m col. m(names ! col \<mapsto> map_option (val col) (?cell i col)))
            (replicate ?n Map.empty ! i) [0..<?k]) [0..<?n], [])"
    by (rule decode_columns) (use fits conv in simp_all)
  have upto: "[row_begin..row_end - 1] = map (\<lambda>i. row_begin + int i) [0..<?n]"
    using upto_eq_map_int [of "row_end - row_begin" row_begin] range by simp
  have header: "readU32 payload = 0x42504752" "readU32 (drop 4 payload) = 1"
    "readU32 (drop 8 payload) = ?n" "readU32 (drop 12 payload) = ?k" "drop 16 payload = ?body"
    "\<not> length payload < 16" "payload \<noteq> []"
    using small unfolding payload by simp_all
  show ?thesis
    using rows header(6,7) unfolding decodeRawPgBatch_def upto header(1-5)
    by (simp add: row_object_def Let_def del: fun_upd_apply cong: map_cong)
qed

text \<open>C12: the client's reader recovers, from the payload the server encodes for rows
  \<open>[row_begin, row_end)\<close>, one object per row with every cell of the libpq result under its column
  name: SQL null as null, any other cell converted from its exact bytes, whenever the conversion of
  these cells does not throw.\<close>

theorem EncodeRawPgBatch_round_trip:
  assumes "pgresult_wf r" and "batch_fits r row_begin row_end"
    and "EncodeRawPgBatch (Some r) row_begin row_end = Inr payload"
    and "int (length names) = PQnfields r"
    and "\<forall>row col. row_begin \<le> row \<and> row < row_end \<and> col < length names \<longrightarrow> converts (conv col) (val col) (pg_cell r row (int col))"
  shows "decodeRawPgBatch conv payload names =
    Inr (map (\<lambda>row. row_object val names (\<lambda>col. pg_cell r row (int col))) [row_begin..row_end - 1])"
  using assms by (rule decode_EncodeRawPgBatch)

theorem EncodeRawPgBatch_round_trip_witness:
  "\<exists>payload.
     EncodeRawPgBatch (Some (tuples_result ''SELECT 2'' [''id'', ''name'']
        [[Some ''1'', None], [Some ''2'', Some ''b'']])) 0 2 = Inr payload
     \<and> decodeRawPgBatch (\<lambda>_ b. Inr b) payload [''id'', ''name''] =
       Inr [[''id'' \<mapsto> Some ''1'', ''name'' \<mapsto> None], [''id'' \<mapsto> Some ''2'', ''name'' \<mapsto> Some ''b'']]"
proof -
  let ?rows = "[[Some ''1'', None], [Some ''2'', Some ''b'']]"
  let ?r = "tuples_result ''SELECT 2'' [''id'', ''name''] ?rows"
  have wf: "pgresult_wf ?r"
    by (rule tuples_result_wf) (auto simp: INT_MAX_def)
  have fits: "batch_fits ?r 0 2" by (simp add: batch_fits_def INT_MAX_def)
  obtain payload where enc: "EncodeRawPgBatch (Some ?r) 0 2 = Inr payload"
    using EncodeRawPgBatch_eq [OF wf fits] by simp
  have "decodeRawPgBatch (\<lambda>_ b. Inr b) payload [''id'', ''name''] =
      Inr (map (\<lambda>row. row_object (\<lambda>_ b. b) [''id'', ''name''] (\<lambda>col. pg_cell ?r row (int col))) [0..2 - 1])"
    by (rule EncodeRawPgBatch_round_trip [OF wf fits enc]) (simp_all add: converts_def)
  also have "\<dots> = Inr [[''id'' \<mapsto> Some ''1'', ''name'' \<mapsto> None],
      [''id'' \<mapsto> Some ''2'', ''name'' \<mapsto> Some ''b'']]"
    by (simp add: row_object_def pg_cell_def tuples_result_def upto_rec1 upt_rec)
  finally show ?thesis using enc by blast
qed

lemma AppendU32_prefix [simp]: "take (length out) (AppendU32 out w) = out"
  by (simp add: AppendU32_eq)

lemma encode_cell_length:
  "encode_cell r col row out = Inr out' \<Longrightarrow> length out < length out'"
  by (auto simp: encode_cell_def AppendBytes_def AppendU32_eq Let_def split: if_splits option.splits)

text \<open>A batch is never empty, even one of no rows: the service may use emptiness as "no payload".\<close>

lemma EncodeRawPgBatch_length:
  assumes "EncodeRawPgBatch r row_begin row_end = Inr payload"
  shows "16 \<le> length payload"
proof -
  obtain p where r: "r = Some p"
    using assms by (cases r) (simp_all add: EncodeRawPgBatch_def)
  let ?hdr = "AppendU32 (AppendU32 (AppendU32 (AppendU32 [] kRawPgBatchMagic) kRawPgBatchVersion)
      (word_of_int (row_end - row_begin))) (word_of_int (PQnfields p))"
  have "for_each (\<lambda>col. for_each (\<lambda>row. encode_cell p col row) [row_begin..row_end - 1])
      [0..PQnfields p - 1] ?hdr = Inr payload"
    using assms r by (simp add: EncodeRawPgBatch_def Let_def split: if_splits)
  then show ?thesis
  proof (rule for_each_invariant [where P = "\<lambda>out. 16 \<le> length out"])
    show "16 \<le> length ?hdr" by (simp add: AppendU32_eq)
  next
    fix col s s'
    assume long: "16 \<le> length s"
      and loop: "for_each (\<lambda>row. encode_cell p col row) [row_begin..row_end - 1] s = Inr s'"
    show "16 \<le> length s'"
      by (rule for_each_invariant [where P = "\<lambda>out. 16 \<le> length out", OF loop long])
         (auto dest: encode_cell_length)
  qed
qed

end
