(* ===== verification/Unix_Path.thy ===== *)
theory Unix_Path
  imports Cxx_Prelude
begin

text \<open>
  The static path rules of \<open>src/src/unix/unix_socket.cpp\<close>: no file system access. The specification
  speaks of the components of a path, the pieces between its slashes.
\<close>

section \<open>Model\<close>

definition kMaxUnixPathLength :: nat where "kMaxUnixPathLength = 107"

definition ParentDirectory :: "string \<Rightarrow> string" where
  "ParentDirectory path =
     (case find_last_index (\<lambda>c. c = CHR ''/'') path of
        None \<Rightarrow> ''/''
      | Some pos \<Rightarrow> if pos = 0 then ''/'' else substr 0 pos path)"

definition PathContainsDotDot :: "string \<Rightarrow> bool" where
  "PathContainsDotDot path =
     (if path = ''..'' then True
      else if starts_with ''../'' path then True
      else str_contains ''/../'' path \<or>
           (length path \<ge> 3 \<and> drop (length path - 3) path = ''/..''))"

definition ValidateUnixSocketPath :: "string \<Rightarrow> unit cxx" where
  "ValidateUnixSocketPath path =
     (if path = [] then Inl (RuntimeError ''unix socket path must not be empty'')
      else if path ! 0 \<noteq> CHR ''/'' then Inl (RuntimeError ''unix socket path must be absolute'')
      else if length path > kMaxUnixPathLength then
        Inl (RuntimeError (''unix socket path exceeds '' @ nat_to_string kMaxUnixPathLength
          @ '' bytes (Linux sockaddr_un limit): '' @ path))
      else if last path = CHR ''/'' then
        Inl (RuntimeError (''unix socket path must not end with '' @ [CHR 0x27, CHR ''/'', CHR 0x27]
          @ '': '' @ path))
      else if path = ''/'' then
        Inl (RuntimeError ''unix socket path must name a socket file, not the filesystem root'')
      else if PathContainsDotDot path then
        Inl (RuntimeError (''unix socket path must not contain '' @ [CHR 0x27] @ ''..'' @ [CHR 0x27]
          @ '' components: '' @ path))
      else Inr ())"

section \<open>Specification: path components\<close>

fun path_components :: "string \<Rightarrow> string list" where
  "path_components [] = [[]]"
| "path_components (c # cs) =
     (if c = CHR ''/'' then [] # path_components cs
      else (case path_components cs of [] \<Rightarrow> [[c]] | p # ps \<Rightarrow> (c # p) # ps))"

lemma path_components_not_Nil [simp]: "path_components s \<noteq> []"
  by (cases s) (auto split: list.splits)

lemma path_components_slash_free:
  "CHR ''/'' \<notin> set s \<Longrightarrow> path_components s = [s]"
  by (induction s) auto

lemma path_components_append:
  "path_components (a @ CHR ''/'' # b) = path_components a @ path_components b"
proof (induction a)
  case Nil
  then show ?case by simp
next
  case (Cons c a)
  then show ?case by (auto split: list.splits)
qed

lemma component_iff:
  assumes "CHR ''/'' \<notin> set x"
  shows "x \<in> set (path_components s) \<longleftrightarrow>
    s = x \<or> (\<exists>b. s = x @ CHR ''/'' # b) \<or> (\<exists>a. s = a @ CHR ''/'' # x)
    \<or> (\<exists>a b. s = a @ CHR ''/'' # x @ CHR ''/'' # b)" (is "?L s \<longleftrightarrow> ?R s")
proof
  show "?L s \<Longrightarrow> ?R s"
  proof (induction s rule: length_induct)
    case (1 s)
    show ?case
    proof (cases "CHR ''/'' \<in> set s")
      case False
      then show ?thesis using "1.prems" by (simp add: path_components_slash_free)
    next
      case True
      then obtain a b where s: "s = a @ CHR ''/'' # b" and a: "CHR ''/'' \<notin> set a"
        using split_list_first by fastforce
      have "path_components s = a # path_components b"
        by (simp add: s path_components_append path_components_slash_free [OF a])
      then consider "x = a" | "x \<in> set (path_components b)" using "1.prems" by auto
      then show ?thesis
      proof cases
        case 1
        then show ?thesis using s by blast
      next
        case 2
        then have "?R b" using "1.IH" s by simp
        then show ?thesis
          unfolding s by (metis append.assoc append_Cons)
      qed
    qed
  qed
next
  show "?R s \<Longrightarrow> ?L s"
    using path_components_slash_free [OF assms]
    by (auto simp: path_components_append)
qed

lemma ends_with_iff:
  "(length p \<le> length s \<and> drop (length s - length p) s = p) \<longleftrightarrow> (\<exists>a. s = a @ p)"
proof
  assume "length p \<le> length s \<and> drop (length s - length p) s = p"
  then have "s = take (length s - length p) s @ p" by (metis append_take_drop_id)
  then show "\<exists>a. s = a @ p" by blast
qed auto

text \<open>
  The textual tests for \<open>..\<close> recognise exactly the paths with a \<open>..\<close> component: names that merely
  contain two dots pass.
\<close>

lemma dotdot_component:
  "PathContainsDotDot path \<longleftrightarrow> ''..'' \<in> set (path_components path)"
proof -
  have "PathContainsDotDot path \<longleftrightarrow>
      path = ''..'' \<or> (\<exists>b. path = ''../'' @ b) \<or> (\<exists>a b. path = a @ ''/../'' @ b) \<or> (\<exists>a. path = a @ ''/..'')"
    using ends_with_iff [of "''/..''" path]
    by (simp add: PathContainsDotDot_def starts_with_iff str_contains_iff numeral_3_eq_3)
  then show ?thesis
    using component_iff [of "''..''" path] by auto
qed

lemma socket_path_ok_iff:
  "ValidateUnixSocketPath path = Inr () \<longleftrightarrow>
     path \<noteq> [] \<and> hd path = CHR ''/'' \<and> length path \<le> 107 \<and> last path \<noteq> CHR ''/''
     \<and> ''..'' \<notin> set (path_components path)"
  by (auto simp: ValidateUnixSocketPath_def dotdot_component kMaxUnixPathLength_def hd_conv_nth)

text \<open>A socket path is accepted exactly when it is absolute, at most 107 bytes long, does not end
  in a slash and has no \<open>..\<close> component.\<close>

theorem ValidateUnixSocketPath_accepts:
  "ValidateUnixSocketPath path = Inr () \<longleftrightarrow>
     path \<noteq> [] \<and> hd path = CHR ''/'' \<and> length path \<le> 107 \<and> last path \<noteq> CHR ''/''
     \<and> ''..'' \<notin> set (path_components path)"
  by (auto simp: ValidateUnixSocketPath_def dotdot_component kMaxUnixPathLength_def hd_conv_nth)

text \<open>
  The parent of a path is its prefix before the last slash, or the root; taking parents ends at the
  root.
\<close>

lemma ParentDirectory_root [simp]: "ParentDirectory ''/'' = ''/''"
  by (simp add: ParentDirectory_def find_last_index_def)

lemma ParentDirectory_cases:
  "ParentDirectory path = ''/'' \<or>
   (\<exists>base. path = ParentDirectory path @ CHR ''/'' # base \<and> CHR ''/'' \<notin> set base)"
proof (cases "find_last_index (\<lambda>c. c = CHR ''/'') path")
  case None
  then show ?thesis by (simp add: ParentDirectory_def)
next
  case (Some pos)
  from find_last_index_SomeD [OF Some]
  have pos: "pos < length path" "path ! pos = CHR ''/''" "CHR ''/'' \<notin> set (drop (Suc pos) path)"
    by auto
  have "path = take pos path @ path ! pos # drop (Suc pos) path"
    using pos(1) by (rule id_take_nth_drop)
  with pos Some show ?thesis
    by (cases "pos = 0") (auto simp: ParentDirectory_def substr_def)
qed

lemma length_ParentDirectory:
  "ParentDirectory path \<noteq> ''/'' \<Longrightarrow> length (ParentDirectory path) < length path"
proof -
  assume "ParentDirectory path \<noteq> ''/''"
  then obtain base where "path = ParentDirectory path @ CHR ''/'' # base"
    using ParentDirectory_cases [of path] by blast
  then have "length path = length (ParentDirectory path @ CHR ''/'' # base)" by (rule arg_cong)
  then show ?thesis by simp
qed

end
