(* ===== verification/Server_Config.thy ===== *)
theory Server_Config
  imports Unix_Path
begin

text \<open>
  The server's configuration: \<open>src/src/config.h\<close> and \<open>src/src/config.cpp\<close>, as compiled on Linux
  (the \<open>_WIN32\<close> branches are in \<open>Config_Windows\<close>). The environment is a map from names to values, the number
  of processors a parameter. \<open>static_cast<int>\<close> of a parsed \<open>long\<close> is kept as the 32-bit wrap it is.
\<close>

section \<open>Model\<close>

datatype ListenMode = Unix | Tcp

record ServerConfig =
  listen_mode :: ListenMode
  unix_socket_path :: string
  listen_address :: string
  listen_port :: int
  unix_socket_mode :: int
  unix_socket_dir_mode :: int
  unix_socket_create_dir :: bool
  host_index :: "int option"
  pg_host :: string
  pool_size :: int
  pg_fetch_rows :: int
  pg_wire_batch_rows :: int
  pg_connect_timeout_sec :: int
  max_sessions :: int
  grpc_max_threads :: int
  production_mode :: bool
  grpc_reflection :: bool
  notify_enabled :: bool
  statement_timeout_ms :: int
  max_query_text_bytes :: int
  max_notify_payload_bytes :: int
  max_notify_channel_bytes :: int
  health_probe_interval_sec :: int
  health_require_pg :: bool

type_synonym environ = "string \<Rightarrow> string option"

text \<open>The default member initialisers; modes are octal 0660 and 0750.\<close>

definition ServerConfig_init :: ServerConfig where
  "ServerConfig_init =
     \<lparr>listen_mode = Unix, unix_socket_path = ''/run/mtdd/grpc.sock'',
      listen_address = ''127.0.0.1'', listen_port = 50051,
      unix_socket_mode = 432, unix_socket_dir_mode = 488, unix_socket_create_dir = False,
      host_index = None, pg_host = ''127.0.0.1'', pool_size = 8, pg_fetch_rows = 10000,
      pg_wire_batch_rows = 1000, pg_connect_timeout_sec = 5, max_sessions = 512,
      grpc_max_threads = 0, production_mode = False, grpc_reflection = False,
      notify_enabled = True, statement_timeout_ms = 0, max_query_text_bytes = 1048576,
      max_notify_payload_bytes = 65535, max_notify_channel_bytes = 63,
      health_probe_interval_sec = 30, health_require_pg = True\<rparr>"

text \<open>\<open>value == nullptr || *value == 0\<close>\<close>

definition env_unset :: "string option \<Rightarrow> bool" where
  "env_unset v \<longleftrightarrow> v = None \<or> v = Some []"

definition parse_number :: "nat \<Rightarrow> (int \<Rightarrow> bool) \<Rightarrow> string \<Rightarrow> string option \<Rightarrow> int \<Rightarrow> int cxx" where
  "parse_number base bad message val default_value =
     (if env_unset val then Inr default_value
      else
        let v = the val; (parsed, rest) = strtol base v
        in if rest = v \<or> rest \<noteq> [] \<or> bad parsed then Inl (RuntimeError message)
           else Inr (cast_int32 parsed))"

definition ParsePositiveInt :: "string \<Rightarrow> string option \<Rightarrow> int \<Rightarrow> int cxx" where
  "ParsePositiveInt name val default_value =
     parse_number 10 (\<lambda>parsed. parsed \<le> 0) (name @ '' must be a positive integer'') val default_value"

definition ParseNonNegativeInt :: "string \<Rightarrow> string option \<Rightarrow> int \<Rightarrow> int cxx" where
  "ParseNonNegativeInt name val default_value =
     parse_number 10 (\<lambda>parsed. parsed < 0) (name @ '' must be a non-negative integer'') val default_value"

definition ParseOctalMode :: "string \<Rightarrow> string option \<Rightarrow> int \<Rightarrow> int cxx" where
  "ParseOctalMode name val default_value =
     parse_number 8 (\<lambda>parsed. parsed < 0 \<or> parsed > 511)
       (name @ '' must be a unix socket mode (octal, e.g. 660)'') val default_value"

definition ParseOptionalHostIndex :: "string option \<Rightarrow> int option cxx" where
  "ParseOptionalHostIndex val =
     (if env_unset val then Inr None
      else
        let v = the val; (parsed, rest) = strtol 10 v
        in if rest = v \<or> rest \<noteq> [] \<or> parsed < 0
           then Inl (RuntimeError ''MTDD_HOST_INDEX must be a non-negative integer'')
           else Inr (Some (cast_int32 parsed)))"

text \<open>The loop that erases a leading slash while the path starts with two.\<close>

fun erase_double_slash :: "string \<Rightarrow> string" where
  "erase_double_slash (a # b # cs) =
     (if a = CHR ''/'' \<and> b = CHR ''/'' then erase_double_slash (b # cs) else a # b # cs)"
| "erase_double_slash s = s"

definition NormalizeUnixPath :: "string \<Rightarrow> string cxx" where
  "NormalizeUnixPath path =
     (if path = [] then Inl (RuntimeError ''MTDD_LISTEN unix path must not be empty'')
      else
        let path = erase_double_slash path
        in if path ! 0 \<noteq> CHR ''/'' then Inl (RuntimeError ''MTDD_LISTEN unix path must be absolute'')
           else Inr path)"

definition ParseListen :: "string option \<Rightarrow> ServerConfig \<Rightarrow> ServerConfig cxx" where
  "ParseListen val config =
     (if env_unset val
      then Inr (config\<lparr>listen_mode := Unix, unix_socket_path := ''/run/mtdd/grpc.sock''\<rparr>)
      else
        let listen = the val in
        if starts_with ''unix:'' listen then
          cxx_bind (NormalizeUnixPath (drop 5 listen))
            (\<lambda>path. Inr (config\<lparr>listen_mode := Unix, unix_socket_path := path\<rparr>))
        else
          (case find_last_index (\<lambda>c. c = CHR '':'') listen of
             None \<Rightarrow> Inl (RuntimeError ''MTDD_LISTEN must be unix:/path or host:port'')
           | Some colon \<Rightarrow>
               cxx_bind (ParsePositiveInt ''MTDD_LISTEN port'' (Some (c_str (drop (colon + 1) listen)))
                           (listen_port config))
                 (\<lambda>port. Inr (config\<lparr>listen_mode := Tcp, listen_address := substr 0 colon listen,
                                    listen_port := port\<rparr>))))"

definition ParseBoolEnv :: "string option \<Rightarrow> bool \<Rightarrow> bool cxx" where
  "ParseBoolEnv val default_value =
     (if env_unset val then Inr default_value
      else
        let v = the val in
        if v \<in> {''1'', ''true'', ''TRUE'', ''yes'', ''YES''} then Inr True
        else if v \<in> {''0'', ''false'', ''FALSE'', ''no'', ''NO''} then Inr False
        else Inl (RuntimeError (''invalid boolean env value: '' @ v)))"

definition IsProductionEnv :: "string option \<Rightarrow> bool" where
  "IsProductionEnv val =
     (if env_unset val then False else the val = ''production'' \<or> the val = ''prod'')"

definition kTlsVars :: "string list" where
  "kTlsVars = [''MTDD_GRPC_TLS'', ''MTDD_GRPC_TLS_CERT_FILE'', ''MTDD_GRPC_TLS_KEY_FILE'',
               ''MTDD_GRPC_TLS_CLIENT_CA_FILE'']"

definition RejectServerTlsEnv :: "environ \<Rightarrow> unit cxx" where
  "RejectServerTlsEnv getenv =
     for_each (\<lambda>name _. if \<not> env_unset (getenv name)
        then Inl (RuntimeError (name
          @ '' is not supported: mtdd_server uses plain gRPC over a unix domain socket; ''
          @ ''terminate TLS and compression at nginx''))
        else Inr ()) kTlsVars ()"

definition ValidateProductionConfig :: "environ \<Rightarrow> ServerConfig \<Rightarrow> unit cxx" where
  "ValidateProductionConfig getenv config =
     (if \<not> production_mode config then Inr ()
      else if host_index config = None
      then Inl (RuntimeError ''MTDD_HOST_INDEX is required when MTDD_ENV=production'')
      else if listen_mode config \<noteq> Unix then
        cxx_bind (ParseBoolEnv (getenv ''MTDD_ALLOW_TCP_LISTEN'') False)
          (\<lambda>allow. if \<not> allow
             then Inl (RuntimeError (''MTDD_LISTEN must be a unix: path in production ''
                @ ''(set MTDD_ALLOW_TCP_LISTEN=1 for dev-only TCP)''))
             else Inr ())
      else Inr ())"

definition IsLoopbackAddress :: "string \<Rightarrow> bool" where
  "IsLoopbackAddress address \<longleftrightarrow> address = ''127.0.0.1'' \<or> address = ''::1'' \<or> address = ''localhost''"

definition FormatListenTarget :: "ServerConfig \<Rightarrow> string" where
  "FormatListenTarget config =
     (if listen_mode config = Unix then ''unix:'' @ unix_socket_path config
      else listen_address config @ '':'' @ to_string (listen_port config))"

definition FormatListenLogLabel :: "ServerConfig \<Rightarrow> string" where
  "FormatListenLogLabel config =
     (if listen_mode config = Unix then ''unix:'' @ unix_socket_path config
      else listen_address config @ '':'' @ to_string (listen_port config))"

text \<open>
  \<open>LoadConfigFromEnv\<close> in three stretches: listening and the database, the limits and switches, the
  socket modes and the final validation. \<open>hw\<close> is \<open>std::thread::hardware_concurrency()\<close> as an \<open>int\<close>.
\<close>

definition load_pg :: "environ \<Rightarrow> int \<Rightarrow> ServerConfig \<Rightarrow> ServerConfig cxx" where
  "load_pg getenv hw config =
     (let config = (if env_unset (getenv ''MTDD_PG_HOST'') then config
                   else config\<lparr>pg_host := the (getenv ''MTDD_PG_HOST'')\<rparr>) in
     cxx_bind (ParseOptionalHostIndex (getenv ''MTDD_HOST_INDEX'')) (\<lambda>hi.
     let config = config\<lparr>host_index := hi\<rparr> in
     cxx_bind (ParsePositiveInt ''MTDD_POOL_SIZE'' (getenv ''MTDD_POOL_SIZE'') (pool_size config)) (\<lambda>n.
     let config = config\<lparr>pool_size := n\<rparr> in
     cxx_bind (ParsePositiveInt ''MTDD_PG_FETCH_ROWS'' (getenv ''MTDD_PG_FETCH_ROWS'')
       (pg_fetch_rows config)) (\<lambda>n.
     let config = config\<lparr>pg_fetch_rows := n\<rparr> in
     cxx_bind (ParsePositiveInt ''MTDD_PG_WIRE_BATCH_ROWS'' (getenv ''MTDD_PG_WIRE_BATCH_ROWS'')
       (pg_wire_batch_rows config)) (\<lambda>n.
     let config = config\<lparr>pg_wire_batch_rows := n\<rparr> in
     cxx_bind (ParsePositiveInt ''MTDD_PG_CONNECT_TIMEOUT_SEC'' (getenv ''MTDD_PG_CONNECT_TIMEOUT_SEC'')
       (pg_connect_timeout_sec config)) (\<lambda>n.
     let config = config\<lparr>pg_connect_timeout_sec := n\<rparr> in
     cxx_bind (ParsePositiveInt ''MTDD_MAX_SESSIONS'' (getenv ''MTDD_MAX_SESSIONS'')
       (max_sessions config)) (\<lambda>n.
     let config = config\<lparr>max_sessions := n\<rparr> in
     cxx_bind (ParsePositiveInt ''MTDD_GRPC_MAX_THREADS'' (getenv ''MTDD_GRPC_MAX_THREADS'')
       (if hw > 0 then hw else 4)) (\<lambda>n.
     Inr (config\<lparr>grpc_max_threads := n\<rparr>)))))))))"

definition load_listen_and_pg :: "environ \<Rightarrow> int \<Rightarrow> ServerConfig \<Rightarrow> ServerConfig cxx" where
  "load_listen_and_pg getenv hw config = cxx_bind (ParseListen (getenv ''MTDD_LISTEN'') config) (load_pg getenv hw)"

definition load_limits :: "environ \<Rightarrow> ServerConfig \<Rightarrow> ServerConfig cxx" where
  "load_limits getenv config =
     (let config = config\<lparr>production_mode := IsProductionEnv (getenv ''MTDD_ENV'')\<rparr> in
     cxx_bind (ParseBoolEnv (getenv ''MTDD_GRPC_REFLECTION'') (\<not> production_mode config)) (\<lambda>b.
     let config = config\<lparr>grpc_reflection := b\<rparr> in
     cxx_bind (ParseBoolEnv (getenv ''MTDD_NOTIFY_ENABLED'') True) (\<lambda>b.
     let config = config\<lparr>notify_enabled := b\<rparr> in
     cxx_bind (ParseNonNegativeInt ''MTDD_STATEMENT_TIMEOUT_MS'' (getenv ''MTDD_STATEMENT_TIMEOUT_MS'') 0) (\<lambda>n.
     let config = config\<lparr>statement_timeout_ms := n\<rparr> in
     cxx_bind (ParsePositiveInt ''MTDD_MAX_QUERY_TEXT_BYTES'' (getenv ''MTDD_MAX_QUERY_TEXT_BYTES'')
       (max_query_text_bytes config)) (\<lambda>n.
     let config = config\<lparr>max_query_text_bytes := n\<rparr> in
     cxx_bind (ParsePositiveInt ''MTDD_MAX_NOTIFY_PAYLOAD_BYTES'' (getenv ''MTDD_MAX_NOTIFY_PAYLOAD_BYTES'')
       (max_notify_payload_bytes config)) (\<lambda>n.
     let config = config\<lparr>max_notify_payload_bytes := n\<rparr> in
     cxx_bind (ParsePositiveInt ''MTDD_MAX_NOTIFY_CHANNEL_BYTES'' (getenv ''MTDD_MAX_NOTIFY_CHANNEL_BYTES'')
       (max_notify_channel_bytes config)) (\<lambda>n.
     let config = config\<lparr>max_notify_channel_bytes := n\<rparr> in
     cxx_bind (ParsePositiveInt ''MTDD_HEALTH_PROBE_INTERVAL_SEC'' (getenv ''MTDD_HEALTH_PROBE_INTERVAL_SEC'')
       (health_probe_interval_sec config)) (\<lambda>n.
     let config = config\<lparr>health_probe_interval_sec := n\<rparr> in
     cxx_bind (ParseBoolEnv (getenv ''MTDD_HEALTH_REQUIRE_PG'') True) (\<lambda>b.
     Inr (config\<lparr>health_require_pg := b\<rparr>))))))))))"

definition load_socket_modes :: "environ \<Rightarrow> ServerConfig \<Rightarrow> ServerConfig cxx" where
  "load_socket_modes getenv config =
     cxx_bind (ParseOctalMode ''MTDD_UNIX_SOCKET_MODE'' (getenv ''MTDD_UNIX_SOCKET_MODE'')
       (unix_socket_mode config)) (\<lambda>n.
     let config = config\<lparr>unix_socket_mode := n\<rparr> in
     cxx_bind (ParseOctalMode ''MTDD_UNIX_SOCKET_DIR_MODE'' (getenv ''MTDD_UNIX_SOCKET_DIR_MODE'')
       (unix_socket_dir_mode config)) (\<lambda>n.
     let config = config\<lparr>unix_socket_dir_mode := n\<rparr> in
     cxx_bind (ParseBoolEnv (getenv ''MTDD_UNIX_SOCKET_CREATE_DIR'') (unix_socket_create_dir config)) (\<lambda>b.
     Inr (config\<lparr>unix_socket_create_dir := b\<rparr>))))"

definition LoadConfigFromEnv :: "environ \<Rightarrow> int \<Rightarrow> ServerConfig cxx" where
  "LoadConfigFromEnv getenv hw =
     cxx_bind (RejectServerTlsEnv getenv) (\<lambda>_.
     cxx_bind (load_listen_and_pg getenv hw ServerConfig_init) (\<lambda>config.
     cxx_bind (load_limits getenv config) (\<lambda>config.
     cxx_bind (load_socket_modes getenv config) (\<lambda>config.
     cxx_bind (if listen_mode config = Unix
               then ValidateUnixSocketPath (unix_socket_path config) else Inr ()) (\<lambda>_.
     cxx_bind (ValidateProductionConfig getenv config) (\<lambda>_.
     Inr config))))))"

section \<open>Numbers and listen addresses\<close>

lemma parse_number_Inr:
  assumes "parse_number base bad message val d = Inr n"
  shows "n = d \<or> (\<exists>v. val = Some v \<and> n = cast_int32 (fst (strtol base v)) \<and> \<not> bad (fst (strtol base v)))"
  using assms by (auto simp: parse_number_def env_unset_def Let_def split: if_splits prod.splits)

text \<open>No number given in the environment exceeds the range of \<open>int\<close>.\<close>

definition env_numbers_fit :: "environ \<Rightarrow> bool" where
  "env_numbers_fit getenv \<longleftrightarrow> (\<forall>name v. getenv name = Some v \<longrightarrow> fst (strtol 10 v) \<le> INT_MAX)"

lemma ParsePositiveInt_pos:
  assumes "ParsePositiveInt name (getenv var) d = Inr n" "env_numbers_fit getenv" "0 < d"
  shows "0 < n"
  using parse_number_Inr [OF assms(1) [unfolded ParsePositiveInt_def]] assms(2,3)
  by (force simp: env_numbers_fit_def INT_MAX_def)

lemma ParseNonNegativeInt_nonneg:
  assumes "ParseNonNegativeInt name (getenv var) d = Inr n" "env_numbers_fit getenv" "0 \<le> d"
  shows "0 \<le> n"
  using parse_number_Inr [OF assms(1) [unfolded ParseNonNegativeInt_def]] assms(2,3)
  by (force simp: env_numbers_fit_def INT_MAX_def)

lemma ParseOctalMode_range:
  assumes "ParseOctalMode name val d = Inr n" "0 \<le> d \<and> d \<le> 511"
  shows "0 \<le> n \<and> n \<le> 511"
  using parse_number_Inr [OF assms(1) [unfolded ParseOctalMode_def]] assms(2) by force

definition limits_positive :: "ServerConfig \<Rightarrow> bool" where
  "limits_positive c \<longleftrightarrow>
     0 < pool_size c \<and> 0 < pg_fetch_rows c \<and> 0 < pg_wire_batch_rows c
     \<and> 0 < pg_connect_timeout_sec c \<and> 0 < max_sessions c \<and> 0 < grpc_max_threads c
     \<and> 0 \<le> statement_timeout_ms c \<and> 0 < max_query_text_bytes c
     \<and> 0 < max_notify_payload_bytes c \<and> 0 < max_notify_channel_bytes c
     \<and> 0 < health_probe_interval_sec c"

lemma ParseListen_frame:
  assumes "ParseListen val c = Inr c'"
  shows "\<exists>m p a n. c' = c\<lparr>listen_mode := m, unix_socket_path := p, listen_address := a, listen_port := n\<rparr>"
proof -
  have "c' = c\<lparr>listen_mode := listen_mode c', unix_socket_path := unix_socket_path c',
      listen_address := listen_address c', listen_port := listen_port c'\<rparr>"
    using assms by (auto simp: ParseListen_def Let_def split: if_splits option.splits)
  then show ?thesis by blast
qed

lemma load_listen_and_pg_positive:
  assumes "load_listen_and_pg getenv hw ServerConfig_init = Inr c" "env_numbers_fit getenv"
  shows "0 < pool_size c \<and> 0 < pg_fetch_rows c \<and> 0 < pg_wire_batch_rows c
    \<and> 0 < pg_connect_timeout_sec c \<and> 0 < max_sessions c \<and> 0 < grpc_max_threads c"
  using assms(1) unfolding load_listen_and_pg_def load_pg_def Let_def
  by (auto dest!: ParseListen_frame simp: ServerConfig_init_def split: if_splits
      elim!: ParsePositiveInt_pos [OF _ assms(2)])

lemma load_listen_and_pg_frame:
  assumes "load_listen_and_pg getenv hw c = Inr c'"
  shows "unix_socket_mode c' = unix_socket_mode c \<and> unix_socket_dir_mode c' = unix_socket_dir_mode c
    \<and> max_query_text_bytes c' = max_query_text_bytes c
    \<and> max_notify_payload_bytes c' = max_notify_payload_bytes c
    \<and> max_notify_channel_bytes c' = max_notify_channel_bytes c
    \<and> health_probe_interval_sec c' = health_probe_interval_sec c"
  using assms unfolding load_listen_and_pg_def load_pg_def Let_def by (auto dest!: ParseListen_frame)

lemma load_limits_frame:
  assumes "load_limits getenv c = Inr c'"
  shows "unix_socket_mode c' = unix_socket_mode c \<and> unix_socket_dir_mode c' = unix_socket_dir_mode c
    \<and> pool_size c' = pool_size c \<and> pg_fetch_rows c' = pg_fetch_rows c
    \<and> pg_wire_batch_rows c' = pg_wire_batch_rows c
    \<and> pg_connect_timeout_sec c' = pg_connect_timeout_sec c
    \<and> max_sessions c' = max_sessions c \<and> grpc_max_threads c' = grpc_max_threads c"
  using assms unfolding load_limits_def Let_def by auto

lemma load_limits_positive:
  assumes "load_limits getenv c = Inr c'" "env_numbers_fit getenv"
    "0 < max_query_text_bytes c" "0 < max_notify_payload_bytes c" "0 < max_notify_channel_bytes c"
    "0 < health_probe_interval_sec c"
  shows "0 \<le> statement_timeout_ms c' \<and> 0 < max_query_text_bytes c' \<and> 0 < max_notify_payload_bytes c'
    \<and> 0 < max_notify_channel_bytes c' \<and> 0 < health_probe_interval_sec c'"
  using assms unfolding load_limits_def Let_def
  by (auto elim!: ParsePositiveInt_pos [OF _ assms(2)] ParseNonNegativeInt_nonneg [OF _ assms(2)])

lemma load_socket_modes_frame:
  assumes "load_socket_modes getenv c = Inr c'"
  shows "c' = c\<lparr>unix_socket_mode := unix_socket_mode c', unix_socket_dir_mode := unix_socket_dir_mode c',
      unix_socket_create_dir := unix_socket_create_dir c'\<rparr>"
  using assms unfolding load_socket_modes_def Let_def by auto

lemma load_socket_modes_range:
  assumes "load_socket_modes getenv c = Inr c'"
    "0 \<le> unix_socket_mode c \<and> unix_socket_mode c \<le> 511"
    "0 \<le> unix_socket_dir_mode c \<and> unix_socket_dir_mode c \<le> 511"
  shows "0 \<le> unix_socket_mode c' \<and> unix_socket_mode c' \<le> 511
    \<and> 0 \<le> unix_socket_dir_mode c' \<and> unix_socket_dir_mode c' \<le> 511"
proof -
  obtain m d where "ParseOctalMode ''MTDD_UNIX_SOCKET_MODE'' (getenv ''MTDD_UNIX_SOCKET_MODE'')
        (unix_socket_mode c) = Inr m"
    and "ParseOctalMode ''MTDD_UNIX_SOCKET_DIR_MODE'' (getenv ''MTDD_UNIX_SOCKET_DIR_MODE'')
        (unix_socket_dir_mode c) = Inr d"
    and "unix_socket_mode c' = m" "unix_socket_dir_mode c' = d"
    using assms(1) unfolding load_socket_modes_def Let_def by auto
  then show ?thesis using ParseOctalMode_range assms(2,3) by blast
qed

section \<open>Properties of a loaded configuration\<close>

lemmas config_eval =
  LoadConfigFromEnv_def RejectServerTlsEnv_def kTlsVars_def load_listen_and_pg_def load_pg_def load_limits_def
  load_socket_modes_def ValidateProductionConfig_def ParseListen_def NormalizeUnixPath_def
  ParseBoolEnv_def IsProductionEnv_def ParsePositiveInt_def ParseNonNegativeInt_def
  ParseOctalMode_def ParseOptionalHostIndex_def parse_number_def env_unset_def
  ServerConfig_init_def ValidateUnixSocketPath_def PathContainsDotDot_def kMaxUnixPathLength_def
  starts_with_def strtol_def isspace_def is_digit_def digits_value_def digit_value_def
  LONG_MAX_def LONG_MIN_def Let_def

lemma LoadConfigFromEnv_InrE:
  assumes "LoadConfigFromEnv getenv hw = Inr config"
  obtains c1 c2 where "RejectServerTlsEnv getenv = Inr ()"
    and "load_listen_and_pg getenv hw ServerConfig_init = Inr c1"
    and "load_limits getenv c1 = Inr c2" and "load_socket_modes getenv c2 = Inr config"
    and "listen_mode config = Unix \<Longrightarrow> ValidateUnixSocketPath (unix_socket_path config) = Inr ()"
    and "ValidateProductionConfig getenv config = Inr ()"
  using assms unfolding LoadConfigFromEnv_def by (auto split: if_splits)

text \<open>C37: A server that starts in production mode has a host index and listens on a unix socket,
  unless TCP was explicitly allowed; and a unix listen path is always absolute, short enough for a
  socket address, names a file and has no \<open>..\<close> component.\<close>

theorem LoadConfigFromEnv_production_safe:
  assumes "LoadConfigFromEnv getenv hw = Inr config"
  shows "(production_mode config \<longrightarrow> host_index config \<noteq> None
      \<and> (listen_mode config = Unix \<or> ParseBoolEnv (getenv ''MTDD_ALLOW_TCP_LISTEN'') False = Inr True))
    \<and> (listen_mode config = Unix \<longrightarrow> hd (unix_socket_path config) = CHR ''/''
      \<and> length (unix_socket_path config) \<le> 107
      \<and> last (unix_socket_path config) \<noteq> CHR ''/''
      \<and> ''..'' \<notin> set (path_components (unix_socket_path config)))"
  using assms
  by (elim LoadConfigFromEnv_InrE)
     (auto simp: ValidateProductionConfig_def socket_path_ok_iff split: if_splits)

theorem LoadConfigFromEnv_production_safe_witness:
  "\<exists>config. LoadConfigFromEnv [''MTDD_ENV'' \<mapsto> ''production'', ''MTDD_HOST_INDEX'' \<mapsto> ''2'',
        ''MTDD_LISTEN'' \<mapsto> ''unix:///run/mtdd/grpc.sock''] 4 = Inr config
     \<and> production_mode config \<and> host_index config \<noteq> None
     \<and> length (unix_socket_path config) \<le> 107"
proof -
  let ?env = "[''MTDD_ENV'' \<mapsto> ''production'', ''MTDD_HOST_INDEX'' \<mapsto> ''2'',
        ''MTDD_LISTEN'' \<mapsto> ''unix:///run/mtdd/grpc.sock'']"
  have "\<exists>config. LoadConfigFromEnv ?env 4 = Inr config \<and> production_mode config \<and> listen_mode config = Unix"
    by (simp add: config_eval)
  then obtain config where load: "LoadConfigFromEnv ?env 4 = Inr config"
    and mode: "production_mode config" "listen_mode config = Unix"
    by blast
  show ?thesis
    using load mode LoadConfigFromEnv_production_safe [OF load] by auto
qed

text \<open>C38: When no number in the environment exceeds the range of \<open>int\<close>, every limit of a loaded
  configuration is positive (the statement timeout at least zero); the socket modes are file
  permission bits in any case.\<close>

theorem LoadConfigFromEnv_limits:
  assumes "LoadConfigFromEnv getenv hw = Inr config" and "env_numbers_fit getenv"
  shows "limits_positive config
    \<and> 0 \<le> unix_socket_mode config \<and> unix_socket_mode config \<le> 511
    \<and> 0 \<le> unix_socket_dir_mode config \<and> unix_socket_dir_mode config \<le> 511"
proof -
  from assms(1) obtain c1 c2 where l1: "load_listen_and_pg getenv hw ServerConfig_init = Inr c1"
    and l2: "load_limits getenv c1 = Inr c2" and l3: "load_socket_modes getenv c2 = Inr config"
    by (rule LoadConfigFromEnv_InrE)
  note f1 = load_listen_and_pg_frame [OF l1] and f2 = load_limits_frame [OF l2]
    and f3 = load_socket_modes_frame [OF l3]
  have m: "0 \<le> unix_socket_mode c2 \<and> unix_socket_mode c2 \<le> 511"
    "0 \<le> unix_socket_dir_mode c2 \<and> unix_socket_dir_mode c2 \<le> 511"
    using f1 f2 by (simp_all add: ServerConfig_init_def)
  have p2: "0 \<le> statement_timeout_ms c2 \<and> 0 < max_query_text_bytes c2 \<and> 0 < max_notify_payload_bytes c2
      \<and> 0 < max_notify_channel_bytes c2 \<and> 0 < health_probe_interval_sec c2"
    by (rule load_limits_positive [OF l2 assms(2)]) (use f1 in \<open>simp_all add: ServerConfig_init_def\<close>)
  have "limits_positive c2"
    using load_listen_and_pg_positive [OF l1 assms(2)] f2 p2 by (simp add: limits_positive_def)
  then have "limits_positive config"
    by (subst f3) (simp add: limits_positive_def)
  then show ?thesis using load_socket_modes_range [OF l3 m] by simp
qed

theorem LoadConfigFromEnv_limits_witness:
  "\<exists>config. LoadConfigFromEnv [''MTDD_POOL_SIZE'' \<mapsto> ''16'', ''MTDD_UNIX_SOCKET_MODE'' \<mapsto> ''600''] 4 = Inr config
     \<and> limits_positive config \<and> unix_socket_mode config \<le> 511"
proof -
  let ?env = "[''MTDD_POOL_SIZE'' \<mapsto> ''16'', ''MTDD_UNIX_SOCKET_MODE'' \<mapsto> ''600'']"
  have "\<exists>config. LoadConfigFromEnv ?env 4 = Inr config" by (simp add: config_eval)
  then obtain config where load: "LoadConfigFromEnv ?env 4 = Inr config" by blast
  have "env_numbers_fit ?env"
    by (auto simp: env_numbers_fit_def config_eval INT_MAX_def split: if_splits)
  then show ?thesis using load LoadConfigFromEnv_limits [OF load] by blast
qed

text \<open>A number beyond the range of \<open>int\<close> is accepted and wraps: a production server started with
  host index 4294967296 serves host index 0, and a pool size of 4294967296 becomes 0.\<close>

theorem LoadConfigFromEnv_wraps:
  "\<exists>config. LoadConfigFromEnv [''MTDD_ENV'' \<mapsto> ''production'', ''MTDD_HOST_INDEX'' \<mapsto> ''4294967296'',
        ''MTDD_POOL_SIZE'' \<mapsto> ''4294967296''] 4 = Inr config
     \<and> host_index config = Some 0 \<and> pool_size config = 0"
  by (simp add: config_eval cast_int32_def)

text \<open>With an empty environment the server gets the documented defaults, reflection on and one
  gRPC thread per processor (four when their number is unknown).\<close>

theorem LoadConfigFromEnv_defaults:
  "LoadConfigFromEnv Map.empty hw =
     Inr (ServerConfig_init\<lparr>grpc_max_threads := (if hw > 0 then hw else 4), grpc_reflection := True\<rparr>)"
  by (simp add: config_eval)

text \<open>Any non-empty TLS variable stops the start-up with an error, before anything else is
  read.\<close>

theorem LoadConfigFromEnv_rejects_tls:
  assumes "name \<in> set kTlsVars" and "getenv name = Some v" and "v \<noteq> []"
  shows "\<exists>message. LoadConfigFromEnv getenv hw = Inl (RuntimeError message)"
  using assms
  by (auto simp: LoadConfigFromEnv_def RejectServerTlsEnv_def kTlsVars_def env_unset_def)

theorem LoadConfigFromEnv_rejects_tls_witness:
  "\<exists>message. LoadConfigFromEnv [''MTDD_GRPC_TLS_KEY_FILE'' \<mapsto> ''/tmp/key.pem''] 4 = Inl (RuntimeError message)"
  by (rule LoadConfigFromEnv_rejects_tls [where name = "''MTDD_GRPC_TLS_KEY_FILE''" and v = "''/tmp/key.pem''"])
     (simp_all add: kTlsVars_def)

section \<open>Listen addresses\<close>

lemma find_last_index_split:
  "P x \<Longrightarrow> \<forall>y \<in> set bs. \<not> P y \<Longrightarrow> find_last_index P (as @ x # bs) = Some (length as)"
  by (simp add: find_last_index_def find_index_append find_index_None_iff [THEN iffD2])

lemma erase_double_slash_idem: "erase_double_slash (erase_double_slash s) = erase_double_slash s"
  by (induction s rule: erase_double_slash.induct) auto

lemma erase_double_slash_Nil: "erase_double_slash s = [] \<longleftrightarrow> s = []"
  by (induction s rule: erase_double_slash.induct) auto

lemma NormalizeUnixPath_idem: "NormalizeUnixPath p = Inr q \<Longrightarrow> NormalizeUnixPath q = Inr q"
  by (auto simp: NormalizeUnixPath_def Let_def erase_double_slash_idem erase_double_slash_Nil
      split: if_splits)

text \<open>Whether an address is read as a unix path is decided before its colon.\<close>

lemma starts_with_unix_host:
  "starts_with ''unix:'' (host @ CHR '':'' # a) \<longleftrightarrow> starts_with ''unix:'' (host @ CHR '':'' # b)"
proof (cases "length host < 4")
  case True
  then have "length host = 0 \<or> length host = 1 \<or> length host = 2 \<or> length host = 3" by linarith
  then show ?thesis
    by (auto simp: starts_with_def length_Suc_conv numeral_2_eq_2 numeral_3_eq_3)
next
  case False
  then have "take (length ''unix:'') (host @ CHR '':'' # x) = take (length ''unix:'') (host @ [CHR '':''])" for x
    by (simp add: take_Cons')
  then show ?thesis unfolding starts_with_def by metis
qed

lemma ParseListen_tcp:
  assumes "\<not> starts_with ''unix:'' (host @ CHR '':'' # digits)" "CHR '':'' \<notin> set digits"
  shows "ParseListen (Some (host @ CHR '':'' # digits)) c =
    cxx_bind (ParsePositiveInt ''MTDD_LISTEN port'' (Some (c_str digits)) (listen_port c))
      (\<lambda>port. Inr (c\<lparr>listen_mode := Tcp, listen_address := host, listen_port := port\<rparr>))"
proof -
  have "find_last_index (\<lambda>ch. ch = CHR '':'') (host @ CHR '':'' # digits) = Some (length host)"
    by (rule find_last_index_split) (use assms(2) in auto)
  then show ?thesis using assms(1) by (simp add: ParseListen_def env_unset_def substr_def)
qed

lemma ParsePositiveInt_to_string:
  assumes "0 < n" "n \<le> INT_MAX"
  shows "ParsePositiveInt name (Some (to_string n)) d = Inr n"
proof -
  have "strtol 10 (to_string n) = (n, [])"
    using assms strtol_nat_to_string [of "nat n"] by (simp add: to_string_def INT_MAX_def LONG_MAX_def)
  then show ?thesis
    using assms
    by (simp add: ParsePositiveInt_def parse_number_def env_unset_def to_string_def INT_MAX_def
        nat_to_string_nonempty [symmetric])
qed

lemma to_string_plain:
  assumes "0 < n" "\<not> is_digit 10 c"
  shows "c \<notin> set (to_string n)"
  using assms nat_to_string_digits [of "nat n"] by (auto simp: to_string_def)

text \<open>C39: The listen target the server binds and logs reads back as the same configuration: parsing
  the formatted target of a parsed MTDD_LISTEN gives the mode, path, address and port again.\<close>

theorem ParseListen_FormatListenTarget:
  assumes parse: "ParseListen val c = Inr c'"
    and port: "0 < listen_port c'" "listen_port c' \<le> INT_MAX"
  shows "ParseListen (Some (FormatListenTarget c')) c = Inr c'"
proof -
  have unix: "ParseListen (Some (''unix:'' @ q)) c = Inr (c\<lparr>listen_mode := Unix, unix_socket_path := q\<rparr>)"
    if "NormalizeUnixPath q = Inr q" for q
    using that by (simp add: ParseListen_def env_unset_def starts_with_def)
  consider "env_unset val" | v where "val = Some v" "v \<noteq> []" "starts_with ''unix:'' v"
    | v where "val = Some v" "v \<noteq> []" "\<not> starts_with ''unix:'' v"
    by (cases val) (auto simp: env_unset_def)
  then show ?thesis
  proof cases
    case 1
    then have "c' = c\<lparr>listen_mode := Unix, unix_socket_path := ''/run/mtdd/grpc.sock''\<rparr>"
      using parse by (simp add: ParseListen_def)
    then show ?thesis
      using unix [of "''/run/mtdd/grpc.sock''"]
      by (simp add: FormatListenTarget_def NormalizeUnixPath_def)
  next
    case (2 v)
    then obtain q where q: "NormalizeUnixPath (drop 5 v) = Inr q"
      and c': "c' = c\<lparr>listen_mode := Unix, unix_socket_path := q\<rparr>"
      using parse by (auto simp: ParseListen_def env_unset_def)
    show ?thesis
      using unix [OF NormalizeUnixPath_idem [OF q]] by (simp add: FormatListenTarget_def c')
  next
    case (3 v)
    then obtain colon where colon: "find_last_index (\<lambda>ch. ch = CHR '':'') v = Some colon"
      using parse by (auto simp: ParseListen_def env_unset_def split: option.splits)
    let ?host = "take colon v" and ?digits = "drop (Suc colon) v"
    from find_last_index_SomeD [OF colon] have v: "v = ?host @ CHR '':'' # ?digits"
      and digits: "CHR '':'' \<notin> set ?digits"
      using id_take_nth_drop [of colon v] by auto
    have "ParseListen (Some v) c =
        cxx_bind (ParsePositiveInt ''MTDD_LISTEN port'' (Some (c_str ?digits)) (listen_port c))
          (\<lambda>port. Inr (c\<lparr>listen_mode := Tcp, listen_address := ?host, listen_port := port\<rparr>))"
      using ParseListen_tcp [of ?host ?digits c] 3 v digits by simp
    with parse 3 obtain n where
      c': "c' = c\<lparr>listen_mode := Tcp, listen_address := ?host, listen_port := n\<rparr>"
      by (auto simp: cxx_bind_Inr_iff)
    have n: "0 < n" "n \<le> INT_MAX" using port c' by simp_all
    have "CHR '':'' \<notin> set (to_string n)" "CHR 0x00 \<notin> set (to_string n)"
      using n(1) by (simp_all add: to_string_plain is_digit_def)
    moreover have "\<not> starts_with ''unix:'' (?host @ CHR '':'' # to_string n)"
      using 3(3) v starts_with_unix_host by metis
    ultimately have "ParseListen (Some (?host @ CHR '':'' # to_string n)) c = Inr c'"
      using ParsePositiveInt_to_string [OF n] by (simp add: ParseListen_tcp c')
    then show ?thesis by (simp add: FormatListenTarget_def c')
  qed
qed

theorem ParseListen_FormatListenTarget_witness:
  "\<exists>c'. ParseListen (Some ''[::1]:50052'') ServerConfig_init = Inr c'
     \<and> FormatListenTarget c' = ''[::1]:50052''
     \<and> ParseListen (Some (FormatListenTarget c')) ServerConfig_init = Inr c'"
proof -
  let ?c = "ServerConfig_init\<lparr>listen_mode := Tcp, listen_address := ''[::1]'', listen_port := 50052\<rparr>"
  have "ParseListen (Some ''[::1]:50052'') ServerConfig_init = Inr ?c"
    by (simp add: config_eval find_last_index_def substr_def c_str_def)
  moreover have "FormatListenTarget ?c = ''[::1]:50052''"
    by (simp add: FormatListenTarget_def to_string_def nat_to_string.simps char_of_eq_iff)
  ultimately show ?thesis
    using ParseListen_FormatListenTarget [of "Some ''[::1]:50052''" ServerConfig_init ?c]
    by (simp add: INT_MAX_def)
qed

end
