(* ===== verification/Shard_Service.thy ===== *)
theory Shard_Service
  imports Streaming_Query Health_Monitor Raw_Batch Server_Config
begin

text \<open>
  \<open>src/src/service/mtdd_shard_service.cpp\<close>: the RPCs of the shard service. The service object is the
  world of its pool, sessions and cursor counter, extended by its own members. \<open>QueryStream\<close> runs on a
  local \<open>StreamingQuery\<close>; its local variables are the record \<open>query_locals\<close>, and every exit of its body
  (return, exception, end of the loop) is a value of \<open>flow\<close>. FlexBuffers serialisation is the parameter
  \<open>G\<close>. The calls of the log and of the timer have no effect on the state and are left out.
\<close>

section \<open>State\<close>

record shard_world = stream_world +
  connect_params :: "ConnectParams option"
  executor :: "ConnectParams option"
  health_monitor :: "PgHealthMonitor option"

definition shard_init :: "ServerConfig \<Rightarrow> PgHealthMonitor option \<Rightarrow> shard_world" where
  "shard_init config monitor =
     \<lparr>history = [], next_conn = 0, refs = (\<lambda>_. 0), held = {}, pool = ConnectionManager_init, pool_cv = CondVar_init,
      session_store = SessionStore_init (max_sessions config), g_cursor_counter = 0,
      connect_params = None, executor = None, health_monitor = monitor\<rparr>"

text \<open>A call on the health monitor, if there is one.\<close>

definition on_monitor ::
    "(PgHealthMonitor \<times> 'a shard_world_scheme, unit) proc \<Rightarrow> ('a shard_world_scheme, unit) proc" where
  "on_monitor m s =
     (case health_monitor s of
        None \<Rightarrow> Inr ((), s)
      | Some h \<Rightarrow>
          (case m (h, s) of
             Inl b \<Rightarrow> Inl b
           | Inr (u, (h', s')) \<Rightarrow> Inr ((), s'\<lparr>health_monitor := Some h'\<rparr>)))"

section \<open>Requests\<close>

definition ResolveDbName :: "ConnectRequest \<Rightarrow> string" where
  "ResolveDbName request = (if cr_dbname request \<noteq> [] then cr_dbname request else cr_database request)"

definition BuildConnectParams :: "ServerConfig \<Rightarrow> ConnectRequest \<Rightarrow> ConnectParams" where
  "BuildConnectParams config request =
     \<lparr>cp_pg_host = pg_host config,
      cp_port = (if cr_port request > 0 then cr_port request else 5432),
      cp_dbname = ResolveDbName request, cp_user = cr_user request, cp_password = cr_password request,
      cp_connect_timeout_sec = pg_connect_timeout_sec config,
      cp_statement_timeout_ms = statement_timeout_ms config\<rparr>"

definition ValidateHostIndex :: "ServerConfig \<Rightarrow> int \<Rightarrow> err_ptr \<Rightarrow> bool \<times> err_ptr" where
  "ValidateHostIndex config index message =
     (case host_index config of
        None \<Rightarrow>
          if production_mode config
          then (False, set_error message ''MTDD_HOST_INDEX is required in production'')
          else (True, message)
      | Some expected \<Rightarrow>
          if index \<noteq> expected then (False, set_error message ''host_index mismatch'') else (True, message))"

definition EnsureQueryRequest :: "QueryRequest \<Rightarrow> err_ptr \<Rightarrow> bool \<times> err_ptr" where
  "EnsureQueryRequest request message =
     (if qr_name request \<noteq> [] then (False, set_error message ''prepared statements are not supported'')
      else if qr_result_format request \<noteq> 1
      then (False, set_error message ''result_format must be 1 (libpq binary)'')
      else (True, message))"

section \<open>Connect and Disconnect\<close>

definition Shard_Connect ::
    "libpq \<Rightarrow> ServerConfig \<Rightarrow> ConnectRequest \<Rightarrow> ('a shard_world_scheme, Status \<times> ConnectResponse) proc" where
  "Shard_Connect L config request =
     (case ValidateHostIndex config (cr_host_index request) (Some []) of
        (False, message) \<Rightarrow> ret_m (Status_OK, \<lparr>resp_ok = False, resp_message = the message\<rparr>)
      | (True, _) \<Rightarrow>
          let params = BuildConnectParams config request
          in if cp_dbname params = [] \<or> cp_user params = []
             then ret_m (Status_OK, \<lparr>resp_ok = False, resp_message = ''dbname and user are required''\<rparr>)
             else
               bind_m (Configure params (pool_size config)) (\<lambda>_.
               bind_m (Pool_Connect L (Some [])) (\<lambda>(connected, error).
               if \<not> connected then
                 bind_m (on_monitor OnConnectFailure) (\<lambda>_.
                 ret_m (Status_OK, \<lparr>resp_ok = False, resp_message = the error\<rparr>))
               else
                 bind_m (upd_m (\<lambda>s. s\<lparr>connect_params := Some params, executor := Some params\<rparr>)) (\<lambda>_.
                 bind_m (on_monitor (OnConnectSuccess L params (statement_timeout_ms config))) (\<lambda>_.
                 ret_m (Status_OK, \<lparr>resp_ok = True, resp_message = ''connected''\<rparr>))))))"

definition Shard_Disconnect ::
    "ServerConfig \<Rightarrow> DisconnectRequest \<Rightarrow> ('a shard_world_scheme, Status \<times> DisconnectResponse) proc" where
  "Shard_Disconnect config request =
     (case ValidateHostIndex config (dr_host_index request) (Some []) of
        (False, message) \<Rightarrow> ret_m (mk_status INVALID_ARGUMENT (the message), \<lparr>dresp_ok = False\<rparr>)
      | (True, _) \<Rightarrow> ret_m (Status_OK, \<lparr>dresp_ok = True\<rparr>))"

section \<open>Chunks\<close>

type_synonym ('a, 'b) qs_proc = "(StreamingQuery \<times> 'a shard_world_scheme, 'b) proc"

definition WriteResultChunk :: "libpq \<Rightarrow> ChunkKind \<Rightarrow> string \<Rightarrow> string \<Rightarrow> ('a, bool) qs_proc" where
  "WriteResultChunk L kind flatbuffer_meta payload =
     (if payload = [] \<and> flatbuffer_meta = [] then ret_m True
      else world_m (Write_m L \<lparr>chunk_kind = kind, chunk_meta = flatbuffer_meta, chunk_payload = payload\<rparr>))"

definition SendBatchChunk ::
    "libpq \<Rightarrow> (flex \<Rightarrow> string) \<Rightarrow> ResultSchema \<Rightarrow> bool \<Rightarrow> string \<Rightarrow> ('a, bool \<times> bool) qs_proc" where
  "SendBatchChunk L G schema_meta batch_sent payload =
     (if payload = [] then ret_m (True, batch_sent)
      else
        bind_m (world_m (IsCancelled_m L)) (\<lambda>cancelled.
        if cancelled then ret_m (False, batch_sent)
        else
          let kind = (if batch_sent then CHUNK_KIND_BATCH else CHUNK_KIND_SCHEMA);
              meta = (if batch_sent then [] else EncodeResultSchema G schema_meta)
          in bind_m (WriteResultChunk L kind meta payload) (\<lambda>written.
             ret_m (if written then (True, True) else (False, batch_sent)))))"

definition WriteErrorChunk :: "libpq \<Rightarrow> (flex \<Rightarrow> string) \<Rightarrow> PgErrorMeta \<Rightarrow> ('a, unit) qs_proc" where
  "WriteErrorChunk L G error =
     (let flex_error = \<lparr>pe_sqlstate = em_sqlstate error,
            pe_severity = (if em_severity error = [] then ''ERROR'' else em_severity error),
            pe_message = em_message error, pe_detail = em_detail error, pe_position = em_position error\<rparr>
      in bind_m (world_m (Write_m L \<lparr>chunk_kind = CHUNK_KIND_ERROR, chunk_meta = EncodePgError G flex_error,
                                   chunk_payload = []\<rparr>)) (\<lambda>_. ret_m ()))"

section \<open>QueryStream\<close>

record query_locals =
  ql_schema_meta :: ResultSchema
  ql_schema_open :: bool
  ql_batch_sent :: bool
  ql_total_rows :: int
  ql_last_result :: "PGresult option"
  ql_exec_error :: err_ptr

definition query_locals_init :: "err_ptr \<Rightarrow> query_locals" where
  "query_locals_init exec_error =
     \<lparr>ql_schema_meta = \<lparr>rs_command = [], rs_fields = []\<rparr>, ql_schema_open = False, ql_batch_sent = False,
      ql_total_rows = 0, ql_last_result = None, ql_exec_error = exec_error\<rparr>"

datatype flow =
    Return Status
  | Throw string query_locals
  | Next query_locals

definition cancelled_return :: "libpq \<Rightarrow> ('a, flow) qs_proc" where
  "cancelled_return L =
     bind_m (Abort L) (\<lambda>_.
     bind_m (world_m (IsCancelled_m L)) (\<lambda>cancelled.
     ret_m (Return (mk_status CANCELLED (if cancelled then ''cancelled'' else ''client cancelled stream'')))))"

text \<open>A batch that is encoded and sent; the encoder may throw, and its size computation may overflow.\<close>

definition send_batch ::
    "libpq \<Rightarrow> (flex \<Rightarrow> string) \<Rightarrow> PGresult option \<Rightarrow> int \<Rightarrow> int \<Rightarrow> query_locals \<Rightarrow> ('a, flow) qs_proc" where
  "send_batch L G result row_begin row_end locals =
     (case EncodeRawPgBatch result row_begin row_end of
        Inl SignedOverflow \<Rightarrow> (\<lambda>_. Inl Undefined)
      | Inl (RuntimeError what) \<Rightarrow> ret_m (Throw what locals)
      | Inr payload \<Rightarrow>
          let locals = locals\<lparr>ql_total_rows := ql_total_rows locals + (row_end - row_begin)\<rparr>
          in bind_m (SendBatchChunk L G (ql_schema_meta locals) (ql_batch_sent locals) payload) (\<lambda>(sent, batch_sent).
             if \<not> sent then cancelled_return L
             else ret_m (Next (locals\<lparr>ql_batch_sent := batch_sent\<rparr>))))"

text \<open>The inner loop over the batches of one portion. \<open>wire_batch_rows\<close> is positive.\<close>

function send_batches ::
    "libpq \<Rightarrow> (flex \<Rightarrow> string) \<Rightarrow> PGresult \<Rightarrow> int \<Rightarrow> int \<Rightarrow> int \<Rightarrow> query_locals \<Rightarrow> ('a, flow) qs_proc" where
  "send_batches L G fetch wire_batch_rows num_rows row_begin locals =
     (if row_begin < num_rows \<and> 0 < wire_batch_rows then
        if row_begin + wire_batch_rows > INT_MAX then (\<lambda>_. Inl Undefined)
        else
          bind_m (send_batch L G (Some fetch) row_begin (min (row_begin + wire_batch_rows) num_rows) locals) (\<lambda>outcome.
          case outcome of
            Next locals' \<Rightarrow> send_batches L G fetch wire_batch_rows num_rows (row_begin + wire_batch_rows) locals'
          | _ \<Rightarrow> ret_m outcome)
      else ret_m (Next locals))"
  by pat_completeness auto
termination
  by (relation "measure (\<lambda>(_, _, _, _, num_rows, row_begin, _). nat (num_rows - row_begin))") auto

declare send_batches.simps [simp del]

text \<open>What happens to one fetched portion; \<open>Next\<close> with \<open>True\<close> leaves the loop.\<close>

definition trailer_only :: "libpq \<Rightarrow> (flex \<Rightarrow> string) \<Rightarrow> PGresult \<Rightarrow> query_locals \<Rightarrow> ('a, flow \<times> bool) qs_proc" where
  "trailer_only L G fetch locals =
     bind_m (WriteResultChunk L CHUNK_KIND_TRAILER (EncodeResultTrailer G (BuildCommandTrailer fetch)) []) (\<lambda>written.
     if \<not> written then
       bind_m (Abort L) (\<lambda>_. ret_m (Return (mk_status CANCELLED ''client cancelled stream''), True))
     else
       bind_m (world_m (PQclear_m (ql_last_result locals))) (\<lambda>_.
       bind_m (Close L (ql_exec_error locals)) (\<lambda>_. ret_m (Return Status_OK, True))))"

definition handle_portion ::
    "libpq \<Rightarrow> (flex \<Rightarrow> string) \<Rightarrow> int \<Rightarrow> PGresult \<Rightarrow> query_locals \<Rightarrow> ('a, flow \<times> bool) qs_proc" where
  "handle_portion L G wire_batch_rows fetch locals =
     bind_m (world_m (PQclear_m (ql_last_result locals))) (\<lambda>_.
     let locals = locals\<lparr>ql_last_result := Some fetch\<rparr>;
         status = PQresultStatus fetch
     in if status \<noteq> PGRES_TUPLES_OK \<and> status \<noteq> PGRES_COMMAND_OK then
          bind_m (WriteErrorChunk L G (ExtractPgError (Some fetch))) (\<lambda>_.
          bind_m (Abort L) (\<lambda>_. ret_m (Return Status_OK, True)))
        else
          let num_fields = PQnfields fetch; num_rows = PQntuples fetch
          in if num_fields = 0 then trailer_only L G fetch locals
             else if num_rows = 0 \<and> ql_schema_open locals then ret_m (Next locals, True)
             else
               let locals = (if \<not> ql_schema_open locals
                             then locals\<lparr>ql_schema_meta := BuildSchemaMeta fetch, ql_schema_open := True\<rparr> else locals)
               in if num_rows = 0 then ret_m (Next locals, False)
                  else bind_m (send_batches L G fetch wire_batch_rows num_rows 0 locals) (\<lambda>outcome. ret_m (outcome, False)))"

fun stream_loop ::
    "libpq \<Rightarrow> (flex \<Rightarrow> string) \<Rightarrow> int \<Rightarrow> nat \<Rightarrow> query_locals \<Rightarrow> ('a, flow) qs_proc" where
  "stream_loop L G wire_batch_rows 0 locals = (\<lambda>_. Inl OutOfFuel)"
| "stream_loop L G wire_batch_rows (Suc fuel) locals =
     bind_m (world_m (IsCancelled_m L)) (\<lambda>cancelled.
     if cancelled then bind_m (Abort L) (\<lambda>_. ret_m (Return (mk_status CANCELLED ''cancelled'')))
     else
       bind_m (Fetch L (ql_exec_error locals)) (\<lambda>(fetch, exec_error).
       let locals = locals\<lparr>ql_exec_error := exec_error\<rparr> in
       case fetch of
         None \<Rightarrow>
           if exec_error \<noteq> Some [] then
             bind_m (WriteErrorChunk L G (PgErrorMeta_init\<lparr>em_message := the exec_error\<rparr>)) (\<lambda>_.
             bind_m (Abort L) (\<lambda>_. ret_m (Return Status_OK)))
           else ret_m (Next locals)
       | Some r \<Rightarrow>
           bind_m (handle_portion L G wire_batch_rows r locals) (\<lambda>(outcome, stop).
           case outcome of
             Next locals' \<Rightarrow> if stop then ret_m (Next locals') else stream_loop L G wire_batch_rows fuel locals'
           | _ \<Rightarrow> ret_m outcome)))"

definition final_trailer :: "query_locals \<Rightarrow> ResultTrailer" where
  "final_trailer locals =
     (if ql_schema_open locals then
        ResultTrailer_init\<lparr>rt_command_tag := rs_command (ql_schema_meta locals) @ '' '' @ to_string (ql_total_rows locals),
          rt_row_count := ql_total_rows locals\<rparr>
      else case ql_last_result locals of
        Some r \<Rightarrow> BuildCommandTrailer r
      | None \<Rightarrow> ResultTrailer_init\<lparr>rt_command_tag := ''SELECT 0'', rt_row_count := 0\<rparr>)\<lparr>rt_oid := 0\<rparr>"

definition send_trailer :: "libpq \<Rightarrow> (flex \<Rightarrow> string) \<Rightarrow> query_locals \<Rightarrow> ('a, flow) qs_proc" where
  "send_trailer L G locals =
     bind_m (WriteResultChunk L CHUNK_KIND_TRAILER (EncodeResultTrailer G (final_trailer locals)) []) (\<lambda>written.
     if \<not> written then
       bind_m (Abort L) (\<lambda>_. ret_m (Return (mk_status CANCELLED ''client cancelled stream'')))
     else
       bind_m (world_m (PQclear_m (ql_last_result locals))) (\<lambda>_.
       bind_m (Close L (ql_exec_error locals)) (\<lambda>_. ret_m (Return Status_OK))))"

definition after_loop :: "libpq \<Rightarrow> (flex \<Rightarrow> string) \<Rightarrow> query_locals \<Rightarrow> ('a, flow) qs_proc" where
  "after_loop L G locals =
     (if ql_schema_open locals \<and> \<not> ql_batch_sent locals then
        bind_m (send_batch L G (ql_last_result locals) 0 0 locals) (\<lambda>outcome.
        case outcome of Next locals' \<Rightarrow> send_trailer L G locals' | _ \<Rightarrow> ret_m outcome)
      else send_trailer L G locals)"

text \<open>The exception handler, and the \<open>try\<close> block with it.\<close>

definition finish_stream :: "libpq \<Rightarrow> (flex \<Rightarrow> string) \<Rightarrow> flow \<Rightarrow> ('a, Status) qs_proc" where
  "finish_stream L G outcome =
     (case outcome of
        Return status \<Rightarrow> ret_m status
      | Throw what locals \<Rightarrow>
          bind_m (world_m (PQclear_m (ql_last_result locals))) (\<lambda>_.
          bind_m (Abort L) (\<lambda>_.
          bind_m (WriteErrorChunk L G (PgErrorMeta_init\<lparr>em_message := what\<rparr>)) (\<lambda>_.
          ret_m Status_OK)))
      | Next locals \<Rightarrow> ret_m Status_OK)"

definition stream_rows ::
    "libpq \<Rightarrow> (flex \<Rightarrow> string) \<Rightarrow> int \<Rightarrow> nat \<Rightarrow> err_ptr \<Rightarrow> ('a, Status) qs_proc" where
  "stream_rows L G wire_batch_rows fuel exec_error =
     bind_m (stream_loop L G wire_batch_rows fuel (query_locals_init exec_error)) (\<lambda>outcome.
     bind_m (case outcome of Next locals \<Rightarrow> after_loop L G locals | _ \<Rightarrow> ret_m outcome) (\<lambda>outcome.
     finish_stream L G outcome))"

definition run_query ::
    "libpq \<Rightarrow> (flex \<Rightarrow> string) \<Rightarrow> int \<Rightarrow> nat \<Rightarrow> QueryRequest \<Rightarrow> ('a, Status) qs_proc" where
  "run_query L G wire_batch_rows fuel request =
     bind_m (Open L request (Some [])) (\<lambda>(ok, exec_error).
     if \<not> ok then
       bind_m (WriteErrorChunk L G (PgErrorMeta_init\<lparr>em_message := the exec_error\<rparr>)) (\<lambda>_. ret_m Status_OK)
     else stream_rows L G wire_batch_rows fuel exec_error)"

text \<open>The local stream is destroyed on every way out.\<close>

definition with_stream :: "StreamingQuery \<Rightarrow> ('a, 'b) qs_proc \<Rightarrow> ('a shard_world_scheme, 'b) proc" where
  "with_stream q body s =
     (case bind_m body (\<lambda>r. bind_m destroy_stream (\<lambda>_. ret_m r)) (q, s) of
        Inl b \<Rightarrow> Inl b
      | Inr (r, (q', s')) \<Rightarrow> Inr (r, s'))"

definition QueryStream ::
    "libpq \<Rightarrow> (flex \<Rightarrow> string) \<Rightarrow> ServerConfig \<Rightarrow> nat \<Rightarrow> QueryRequest \<Rightarrow> ('a shard_world_scheme, Status) proc" where
  "QueryStream L G config fuel request =
     (case ValidateHostIndex config (qr_host_index request) (Some []) of
        (False, message) \<Rightarrow> ret_m (mk_status INVALID_ARGUMENT (the message))
      | (True, message) \<Rightarrow>
          (case EnsureQueryRequest request message of
             (False, message) \<Rightarrow> ret_m (mk_status INVALID_ARGUMENT (the message))
           | (True, _) \<Rightarrow>
               if cast_int32 (int (length (qr_text request))) > max_query_text_bytes config
               then ret_m (mk_status INVALID_ARGUMENT ''query text exceeds MTDD_MAX_QUERY_TEXT_BYTES'')
               else
                 bind_m (get_m (\<lambda>s. if executor s = None then None else connect_params s)) (\<lambda>params.
                 case params of
                   None \<Rightarrow> ret_m (mk_status FAILED_PRECONDITION ''Connect must be called first'')
                 | Some defaults \<Rightarrow>
                     let fetch_rows = (if pg_fetch_rows config > 0 then pg_fetch_rows config else 10000);
                         wire_batch_rows = (if pg_wire_batch_rows config > 0 then pg_wire_batch_rows config else 1000)
                     in with_stream (StreamingQuery_init defaults fetch_rows)
                          (run_query L G wire_batch_rows fuel request))))"

section \<open>What a query holds when it ends\<close>

definition end_status :: "Status \<Rightarrow> bool" where
  "end_status st \<longleftrightarrow> status_code st = OK \<or> status_code st = CANCELLED"

lemma end_status_simps [simp]: "end_status Status_OK" "end_status (mk_status CANCELLED m)"
  by (simp_all add: end_status_def Status_OK_def)

definition flow_ok :: "conn \<Rightarrow> bool \<Rightarrow> int \<Rightarrow> flow \<Rightarrow> StreamingQuery \<times> 'a shard_world_scheme \<Rightarrow> bool" where
  "flow_ok c P n outcome p = (case outcome of Return st \<Rightarrow> end_status st \<and> ended n p | _ \<Rightarrow> live c P n p)"

lemma flow_ok_simps [simp]:
  "flow_ok c P n (Return st) p \<longleftrightarrow> end_status st \<and> ended n p" "flow_ok c P n (Throw w l) p = live c P n p" "flow_ok c P n (Next l) p = live c P n p"
  by (simp_all add: flow_ok_def)

lemmas live_wlp = live_Abort [THEN wp_imp_wlp] live_Close [THEN wp_imp_wlp] live_Fetch [THEN wp_imp_wlp]

lemma wlp_world_history:
  assumes "I p" "\<And>q s h. I (q, s\<lparr>history := h\<rparr>) = I (q, s)" "\<And>a s'. m (snd p) = Inr (a, s') \<Longrightarrow> \<exists>h. s' = (snd p)\<lparr>history := h\<rparr>"
  shows "wlp (world_m m) (\<lambda>_. I) p"
  using assms by (cases p) (auto simp: wlp_iff world_m_def split: sum.splits)

lemma keep_history:
  assumes "I p" "\<And>q s h. I (q, s\<lparr>history := h\<rparr>) = I (q, s)"
  shows "wlp (world_m (Write_m L chunk)) (\<lambda>_. I) p" "wlp (world_m (IsCancelled_m L)) (\<lambda>_. I) p"
    "wlp (world_m (PQclear_m r)) (\<lambda>_. I) p"
  using assms by (cases p; cases r; simp add: wp_simps)+

lemma wlp_seq: "wlp m (\<lambda>_. I) p \<Longrightarrow> (\<And>a p. I p \<Longrightarrow> wlp (f a) Q p) \<Longrightarrow> wlp (bind_m m f) Q p"
  by (auto simp: wlp_basic intro: wlp_mono)

lemmas wlp_ret = wlp_basic(1)

lemma wlp_blocked [simp]: "wlp (\<lambda>_. Inl b) Q p"
  by (simp add: wlp_def)

lemma live_WriteResultChunk: "live c P n p \<Longrightarrow> wlp (WriteResultChunk L kind meta payload) (\<lambda>_. live c P n) p"
  by (auto simp: WriteResultChunk_def wlp_ret intro: keep_history)

lemma live_SendBatchChunk: "live c P n p \<Longrightarrow> wlp (SendBatchChunk L G schema sent payload) (\<lambda>_. live c P n) p"
  by (auto simp: SendBatchChunk_def wlp_ret Let_def intro!: wlp_seq [of _ "live c P n"] keep_history live_WriteResultChunk)

lemma WriteErrorChunk_keeps:
  assumes "I p" "\<And>q s h. I (q, s\<lparr>history := h\<rparr>) = I (q, s)"
  shows "wlp (WriteErrorChunk L G e) (\<lambda>_. I) p"
  using assms by (auto simp: WriteErrorChunk_def wlp_ret Let_def intro!: wlp_seq [of _ I] keep_history)

lemma live_cancelled_return: "live c P n p \<Longrightarrow> wlp (cancelled_return L) (flow_ok c P n) p"
  unfolding cancelled_return_def
  by (rule wlp_seq [of _ "ended n"], erule live_wlp, rule wlp_seq [of _ "ended n"]) (auto simp: wlp_ret intro: keep_history)

lemma live_send_batch: "live c P n p \<Longrightarrow> wlp (send_batch L G r b e locals) (flow_ok c P n) p"
  by (auto simp: send_batch_def wlp_ret Let_def split: sum.splits cxx_error.splits
      intro!: wlp_seq [of _ "live c P n"] live_SendBatchChunk live_cancelled_return)

lemma live_send_batches: "live c P n p \<Longrightarrow> wlp (send_batches L G fetch w num b locals) (flow_ok c P n) p"
proof (induction L G fetch w num b locals arbitrary: p rule: send_batches.induct)
  case (1 L G fetch w num b locals)
  show ?case
  proof (cases "b < num \<and> 0 < w \<and> b + w \<le> INT_MAX")
    case True
    have "wlp (case outcome of Next l \<Rightarrow> send_batches L G fetch w num (b + w) l | _ \<Rightarrow> ret_m outcome) (flow_ok c P n) p'"
      if "flow_ok c P n outcome p'" for outcome and p' :: "StreamingQuery \<times> 'a shard_world_scheme"
    proof (cases outcome)
      case (Next l)
      with that have "live c P n p'" by simp
      with True Next 1(1) [of outcome l p'] show ?thesis by simp
    qed (use that in \<open>simp_all add: wlp_ret\<close>)
    then show ?thesis
      using True 1(2)
      by (subst send_batches.simps) (auto simp: wlp_basic intro!: wlp_mono [OF live_send_batch])
  next
    case False
    with 1(2) show ?thesis
      by (subst send_batches.simps) (auto simp: wlp_ret)
  qed
qed

lemma live_close_return:
  assumes "live c P n p"
  shows "wlp (bind_m (world_m (PQclear_m r)) (\<lambda>_. bind_m (Close L err) (\<lambda>_. ret_m x))) (\<lambda>y p. y = x \<and> ended n p) p"
  by (rule wlp_seq [of _ "live c P n"], rule keep_history, use assms in simp_all)
    (rule wlp_seq [of _ "ended n"], erule live_wlp, simp add: wlp_ret)

lemma live_abort_return:
  assumes "live c P n p"
  shows "wlp (bind_m (Abort L) (\<lambda>_. ret_m x)) (\<lambda>y p. y = x \<and> ended n p) p"
  by (rule wlp_seq [of _ "ended n"], rule live_wlp [OF assms]) (simp add: wlp_ret)

lemma wlp_conj_eq: "wlp m (\<lambda>y p. y = x \<and> I p) p \<Longrightarrow> (\<And>p. I p \<Longrightarrow> Q x p) \<Longrightarrow> wlp m Q p"
  by (auto intro: wlp_mono)

lemma live_trailer_only:
  assumes "live c P n p"
  shows "wlp (trailer_only L G fetch locals) (\<lambda>y. flow_ok c P n (fst y)) p"
  unfolding trailer_only_def
  by (rule wlp_seq [of _ "live c P n"], rule live_WriteResultChunk [OF assms])
    (auto intro: wlp_conj_eq [OF live_close_return] wlp_conj_eq [OF live_abort_return])

lemma live_handle_portion:
  assumes "live c P n p"
  shows "wlp (handle_portion L G w fetch locals) (\<lambda>y. flow_ok c P n (fst y)) p"
proof -
  have E: "wlp (bind_m (WriteErrorChunk L G e) (\<lambda>_. bind_m (Abort L) (\<lambda>_. ret_m (Return Status_OK, True)))) (\<lambda>y. flow_ok c P n (fst y)) p"
    if "live c P n p" for e and p :: "StreamingQuery \<times> 'a shard_world_scheme"
    by (rule wlp_seq [of _ "live c P n"], rule WriteErrorChunk_keeps, use that in simp_all)
      (auto intro: wlp_conj_eq [OF live_abort_return])
  have B: "wlp (bind_m (send_batches L G fetch w num 0 l) (\<lambda>outcome. ret_m (outcome, False))) (\<lambda>y. flow_ok c P n (fst y)) p"
    if "live c P n p" for num l and p :: "StreamingQuery \<times> 'a shard_world_scheme"
    unfolding wlp_basic by (rule wlp_mono [OF live_send_batches [OF that]]) simp
  show ?thesis
    unfolding handle_portion_def
    by (rule wlp_seq [of _ "live c P n"], rule keep_history, use assms in simp_all)
      (auto simp: Let_def wlp_ret intro: E B live_trailer_only)
qed

lemma live_stream_loop: "live c P n p \<Longrightarrow> wlp (stream_loop L G w fuel locals) (flow_ok c P n) p"
proof (induction fuel arbitrary: locals p)
  case 0
  then show ?case by simp
next
  case (Suc fuel)
  have E: "wlp (bind_m (WriteErrorChunk L G e) (\<lambda>_. bind_m (Abort L) (\<lambda>_. ret_m (Return Status_OK)))) (flow_ok c P n) p"
    if "live c P n p" for e and p :: "StreamingQuery \<times> 'a shard_world_scheme"
    by (rule wlp_seq [of _ "live c P n"], rule WriteErrorChunk_keeps, use that in simp_all)
      (auto intro: wlp_conj_eq [OF live_abort_return])
  have H: "wlp (bind_m (handle_portion L G w r l) (\<lambda>(outcome, stop).
           case outcome of
             Next locals' \<Rightarrow> if stop then ret_m (Next locals') else stream_loop L G w fuel locals'
           | _ \<Rightarrow> ret_m outcome)) (flow_ok c P n) p"
    if "live c P n p" for r l and p :: "StreamingQuery \<times> 'a shard_world_scheme"
    unfolding wlp_basic
  proof (rule wlp_mono [OF live_handle_portion [OF that]])
    fix y :: "flow \<times> bool" and p' :: "StreamingQuery \<times> 'a shard_world_scheme"
    assume "flow_ok c P n (fst y) p'"
    then show "wlp (case y of (outcome, stop) \<Rightarrow> (case outcome of
             Next locals' \<Rightarrow> if stop then ret_m (Next locals') else stream_loop L G w fuel locals'
           | _ \<Rightarrow> ret_m outcome)) (flow_ok c P n) p'"
      by (cases y; cases "fst y") (auto simp: wlp_ret intro: Suc.IH)
  qed
  show ?case
    unfolding stream_loop.simps
    by (rule wlp_seq [of _ "live c P n"], rule keep_history, use Suc.prems in simp_all)
      (auto simp: Let_def wlp_ret split: option.split intro!: wlp_seq [of "Fetch L _" "live c P n"] live_wlp E H
        intro: wlp_conj_eq [OF live_abort_return])
qed

text \<open>After the loop the stream has always been closed or aborted: \<open>Next\<close> is no outcome of it.\<close>

definition returned :: "conn \<Rightarrow> bool \<Rightarrow> int \<Rightarrow> flow \<Rightarrow> StreamingQuery \<times> 'a shard_world_scheme \<Rightarrow> bool" where
  "returned c P n outcome p = (case outcome of Return st \<Rightarrow> end_status st \<and> ended n p | Throw _ _ \<Rightarrow> live c P n p | Next _ \<Rightarrow> False)"

lemma returned_simps [simp]:
  "returned c P n (Return st) p \<longleftrightarrow> end_status st \<and> ended n p" "returned c P n (Throw w l) p = live c P n p" "\<not> returned c P n (Next l) p"
  by (simp_all add: returned_def)

lemma live_send_trailer: "live c P n p \<Longrightarrow> wlp (send_trailer L G locals) (returned c P n) p"
  unfolding send_trailer_def
  by (rule wlp_seq [of _ "live c P n"], erule live_WriteResultChunk)
    (auto intro: wlp_conj_eq [OF live_close_return] wlp_conj_eq [OF live_abort_return])

lemma live_after_loop:
  assumes "live c P n p"
  shows "wlp (after_loop L G locals) (returned c P n) p"
proof -
  have "wlp (case outcome of Next l \<Rightarrow> send_trailer L G l | _ \<Rightarrow> ret_m outcome) (returned c P n) p'"
    if "flow_ok c P n outcome p'" for outcome and p' :: "StreamingQuery \<times> 'a shard_world_scheme"
    using that by (cases outcome) (auto simp: wlp_ret intro: live_send_trailer)
  then show ?thesis
    using assms by (auto simp: after_loop_def wlp_basic(2) intro!: wlp_mono [OF live_send_batch] live_send_trailer)
qed

lemma live_finish_stream:
  assumes "returned c P n outcome p"
  shows "wlp (finish_stream L G outcome) (\<lambda>st p. end_status st \<and> ended n p) p"
proof (cases outcome)
  case (Throw what l)
  with assms have "live c P n p" by (simp add: returned_def)
  then show ?thesis
    unfolding finish_stream_def Throw flow.case
    by (auto simp: wlp_ret intro!: wlp_seq [of "world_m _" "live c P n"] keep_history
        wlp_seq [of "Abort L" "ended n"] live_wlp wlp_seq [of "WriteErrorChunk L G _" "ended n"] WriteErrorChunk_keeps)
qed (use assms in \<open>simp_all add: finish_stream_def returned_def wlp_ret\<close>)

lemma live_stream_rows:
  assumes "live c P n p"
  shows "wlp (stream_rows L G w fuel err) (\<lambda>st p. end_status st \<and> ended n p) p"
proof -
  have "wlp (case outcome of Next l \<Rightarrow> after_loop L G l | _ \<Rightarrow> ret_m outcome) (returned c P n) p'"
    if "flow_ok c P n outcome p'" for outcome and p' :: "StreamingQuery \<times> 'a shard_world_scheme"
    using that by (cases outcome) (auto simp: wlp_ret intro: live_after_loop)
  then have "wlp (case outcome of Next l \<Rightarrow> after_loop L G l | _ \<Rightarrow> ret_m outcome)
      (\<lambda>x. wlp (finish_stream L G x) (\<lambda>st p. end_status st \<and> ended n p)) p'"
    if "flow_ok c P n outcome p'" for outcome and p' :: "StreamingQuery \<times> 'a shard_world_scheme"
    by (rule wlp_mono) (use that in \<open>auto intro: live_finish_stream\<close>)
  then show ?thesis
    unfolding stream_rows_def wlp_basic(2) by (rule wlp_mono [OF live_stream_loop [OF assms]])
qed

lemma wlp_with_stream: "wlp (bind_m body (\<lambda>r. bind_m destroy_stream (\<lambda>_. ret_m r))) (\<lambda>r p. Q r (snd p)) (q, s) \<Longrightarrow> wlp (with_stream q body) Q s"
  by (auto simp: with_stream_def wlp_def split: sum.splits)

lemma run_query_status:
  assumes free: "held s = {}"
  shows "wlp (with_stream (StreamingQuery_init d k) (run_query L G w fuel request)) (\<lambda>st _. end_status st) s"
proof (rule wlp_with_stream)
  have "wlp (run_query L G w fuel request) (\<lambda>st _. end_status st) (StreamingQuery_init d k, s)"
    unfolding run_query_def wlp_basic(2) wlp_iff [of "Open L request (Some [])"]
  proof (intro allI impI)
    fix a p
    assume run: "Open L request (Some []) (StreamingQuery_init d k, s) = Inr (a, p)"
    obtain ok e where a: "a = (ok, e)" by (cases a)
    with Open_holds [OF free run [unfolded a]] show "wlp (case a of (ok, exec_error) \<Rightarrow> if \<not> ok then
         bind_m (WriteErrorChunk L G (PgErrorMeta_init\<lparr>em_message := the exec_error\<rparr>)) (\<lambda>_. ret_m Status_OK)
       else stream_rows L G w fuel exec_error) (\<lambda>st _. end_status st) p"
      by (cases ok) (auto simp: wlp_basic wlp_def WriteErrorChunk_def elim!: wlp_mono [OF live_stream_rows] split: sum.splits
          dest: wlpD [OF live_stream_rows])
  qed
  then show "wlp (bind_m (run_query L G w fuel request) (\<lambda>r. bind_m destroy_stream (\<lambda>_. ret_m r))) (\<lambda>r p. end_status r)
      (StreamingQuery_init d k, s)"
    by (auto simp: wlp_basic wlp_iff)
qed

text \<open>What a query leaves of the locks and of the pool's count: a failed \<open>Open\<close> that still holds a pooled connection
  leaves it counted.\<close>

definition leaves_slots :: "int \<Rightarrow> StreamingQuery \<times> 'a shard_world_scheme \<Rightarrow> bool" where
  "leaves_slots n p \<longleftrightarrow> held (snd p) = {} \<and> cm_in_use (pool (snd p)) = n"

definition Open_keeps_slot :: "libpq \<Rightarrow> QueryRequest \<Rightarrow> ConnectParams \<Rightarrow> int \<Rightarrow> 'a shard_world_scheme \<Rightarrow> bool" where
  "Open_keeps_slot L request d k s =
     (case Open L request (Some []) (StreamingQuery_init d k, s) of
        Inr ((ok, err), (q, s')) \<Rightarrow> \<not> ok \<and> sq_connection q \<noteq> None \<and> qr_session_id request = []
      | Inl b \<Rightarrow> False)"

lemma leaves_destroy: "leaves_slots n p \<Longrightarrow> wlp (bind_m destroy_stream (\<lambda>_. ret_m r)) (\<lambda>_. leaves_slots n) p"
  by (cases p) (auto simp: destroy_stream_def get_q_def wp_simps wlp_ret leaves_slots_def share_drop_def PQfinish_m_def
      record_event_def split: option.split)

lemma run_query_balanced:
  assumes free: "held s = {}"
  shows "wlp (with_stream (StreamingQuery_init d k) (run_query L G w fuel request))
    (\<lambda>_ s'. held s' = {} \<and> cm_in_use (pool s') = cm_in_use (pool s) + (if Open_keeps_slot L request d k s then 1 else 0)) s"
proof -
  let ?n = "cm_in_use (pool s) + (if Open_keeps_slot L request d k s then 1 else 0)"
  have "wlp (run_query L G w fuel request) (\<lambda>_. leaves_slots ?n) (StreamingQuery_init d k, s)"
    unfolding run_query_def wlp_basic(2) wlp_iff [of "Open L request (Some [])"]
  proof (intro allI impI)
    fix a p
    assume run: "Open L request (Some []) (StreamingQuery_init d k, s) = Inr (a, p)"
    obtain ok e where a: "a = (ok, e)" by (cases a)
    note H = Open_holds [OF free run [unfolded a]]
    have keeps: "Open_keeps_slot L request d k s \<longleftrightarrow> \<not> ok \<and> sq_connection (fst p) \<noteq> None \<and> qr_session_id request = []"
      using run a by (cases p) (simp add: Open_keeps_slot_def)
    show "wlp (case a of (ok, exec_error) \<Rightarrow> if \<not> ok then
         bind_m (WriteErrorChunk L G (PgErrorMeta_init\<lparr>em_message := the exec_error\<rparr>)) (\<lambda>_. ret_m Status_OK)
       else stream_rows L G w fuel exec_error) (\<lambda>_. leaves_slots ?n) p"
    proof (cases ok)
      case True
      with H a keeps show ?thesis by (auto simp: leaves_slots_def ended_def intro: wlp_mono [OF live_stream_rows])
    next
      case False
      with H keeps have "leaves_slots ?n p" by (auto simp: leaves_slots_def ended_def)
      with False a show ?thesis
        by (auto simp: wlp_ret leaves_slots_def intro!: wlp_seq [of "WriteErrorChunk L G _" "leaves_slots ?n"] WriteErrorChunk_keeps)
    qed
  qed
  then have "wlp (bind_m (run_query L G w fuel request) (\<lambda>r. bind_m destroy_stream (\<lambda>_. ret_m r))) (\<lambda>_. leaves_slots ?n)
      (StreamingQuery_init d k, s)"
    by (rule wlp_seq) (rule leaves_destroy)
  then show ?thesis
    by (intro wlp_with_stream) (auto simp: leaves_slots_def elim: wlp_mono)
qed

section \<open>Correctness of the RPCs\<close>

text \<open>The conditions under which a query is not run at all.\<close>

definition host_refused :: "ServerConfig \<Rightarrow> int \<Rightarrow> bool" where
  "host_refused config index \<longleftrightarrow>
     (case host_index config of None \<Rightarrow> production_mode config | Some i \<Rightarrow> index \<noteq> i)"

definition query_refused :: "ServerConfig \<Rightarrow> QueryRequest \<Rightarrow> bool" where
  "query_refused config request \<longleftrightarrow>
     host_refused config (qr_host_index request) \<or> qr_name request \<noteq> [] \<or> qr_result_format request \<noteq> 1 \<or>
     max_query_text_bytes config < cast_int32 (int (length (qr_text request)))"

lemma ValidateHostIndex_eq:
  "\<not> host_refused config index \<Longrightarrow> ValidateHostIndex config index m = (True, m)"
  "host_refused config index \<Longrightarrow> \<exists>e. ValidateHostIndex config index (Some t) = (False, Some e)"
  by (auto simp: ValidateHostIndex_def host_refused_def set_error_def split: option.splits)

lemma EnsureQueryRequest_eq:
  "qr_name request = [] \<Longrightarrow> qr_result_format request = 1 \<Longrightarrow> EnsureQueryRequest request m = (True, m)"
  "qr_name request \<noteq> [] \<or> qr_result_format request \<noteq> 1 \<Longrightarrow> \<exists>e. EnsureQueryRequest request (Some t) = (False, Some e)"
  by (auto simp: EnsureQueryRequest_def set_error_def)

definition fetch_rows_of :: "ServerConfig \<Rightarrow> int" where
  "fetch_rows_of config = (if pg_fetch_rows config > 0 then pg_fetch_rows config else 10000)"

definition wire_rows_of :: "ServerConfig \<Rightarrow> int" where
  "wire_rows_of config = (if pg_wire_batch_rows config > 0 then pg_wire_batch_rows config else 1000)"

lemma QueryStream_refused:
  assumes "query_refused config request"
  shows "\<exists>m. QueryStream L G config fuel request s = Inr (mk_status INVALID_ARGUMENT m, s)"
proof (cases "host_refused config (qr_host_index request)")
  case True
  from ValidateHostIndex_eq(2) [OF this, of "[]"] show ?thesis by (auto simp: QueryStream_def)
next
  case host: False
  show ?thesis
  proof (cases "qr_name request = [] \<and> qr_result_format request = 1")
    case True
    with assms host show ?thesis
      by (auto simp: QueryStream_def query_refused_def ValidateHostIndex_eq EnsureQueryRequest_eq)
  next
    case False
    then obtain e where "EnsureQueryRequest request (Some []) = (False, Some e)"
      using EnsureQueryRequest_eq(2) [of request "[]"] by blast
    with host show ?thesis by (auto simp: QueryStream_def ValidateHostIndex_eq)
  qed
qed

lemma QueryStream_unconnected:
  assumes "\<not> query_refused config request" "executor s = None \<or> connect_params s = None"
  shows "QueryStream L G config fuel request s = Inr (mk_status FAILED_PRECONDITION ''Connect must be called first'', s)"
  using assms
  by (auto simp: QueryStream_def query_refused_def ValidateHostIndex_eq EnsureQueryRequest_eq bind_m_def)

lemma QueryStream_runs:
  assumes "\<not> query_refused config request" "executor s \<noteq> None" "connect_params s = Some d"
  shows "QueryStream L G config fuel request s =
    with_stream (StreamingQuery_init d (fetch_rows_of config)) (run_query L G (wire_rows_of config) fuel request) s"
  using assms
  by (auto simp: QueryStream_def query_refused_def ValidateHostIndex_eq EnsureQueryRequest_eq bind_m_def
      fetch_rows_of_def wire_rows_of_def Let_def)

lemma QueryStream_cases:
  obtains (refused) m where "query_refused config request"
      "QueryStream L G config fuel request s = Inr (mk_status INVALID_ARGUMENT m, s)"
  | (unconnected) "\<not> query_refused config request" "executor s = None \<or> connect_params s = None"
      "QueryStream L G config fuel request s = Inr (mk_status FAILED_PRECONDITION ''Connect must be called first'', s)"
  | (run) d where "\<not> query_refused config request" "executor s \<noteq> None" "connect_params s = Some d"
      "QueryStream L G config fuel request s =
        with_stream (StreamingQuery_init d (fetch_rows_of config)) (run_query L G (wire_rows_of config) fuel request) s"
  by (metis QueryStream_refused QueryStream_unconnected QueryStream_runs option.exhaust)

text \<open>C7: A query is refused with \<open>INVALID_ARGUMENT\<close> exactly if its host index is not the configured one (or
  none is configured in production), it names a prepared statement, it does not ask for binary results
  or its text exceeds the limit; with \<open>FAILED_PRECONDITION\<close> exactly if it passes these checks and no
  client has connected; a refused query has no effect at all, on PostgreSQL, the pool, the sessions or
  the client's stream. Every other query that ends returns \<open>OK\<close> or \<open>CANCELLED\<close>.\<close>

theorem QueryStream_refusals:
  assumes "held s = {}" and run: "QueryStream L G config fuel request s = Inr (st, s')"
  shows "(status_code st = INVALID_ARGUMENT \<longleftrightarrow> query_refused config request) \<and>
    (status_code st = FAILED_PRECONDITION \<longleftrightarrow>
       \<not> query_refused config request \<and> (executor s = None \<or> connect_params s = None)) \<and>
    (status_code st \<in> {INVALID_ARGUMENT, FAILED_PRECONDITION} \<longrightarrow> s' = s)"
proof (cases rule: QueryStream_cases [of config request L G fuel s])
  case (run d)
  with assms wlpD [OF run_query_status [OF assms(1)], of d "fetch_rows_of config" L G "wire_rows_of config" fuel request st s']
  have "end_status st" by simp
  with run show ?thesis by (auto simp: end_status_def)
qed (use run in auto)

definition demo_shard :: shard_world where
  "demo_shard = (shard_init ServerConfig_init None)\<lparr>connect_params := Some ConnectParams_init, executor := Some ConnectParams_init\<rparr>"

theorem QueryStream_refusals_witness:
  "\<exists>st. QueryStream (demo_libpq []) (\<lambda>_. ''m'') (ServerConfig_init\<lparr>host_index := Some 3\<rparr>) 5 demo_request demo_shard = Inr (st, demo_shard) \<and>
     status_code st = INVALID_ARGUMENT"
proof -
  let ?c = "ServerConfig_init\<lparr>host_index := Some 3\<rparr>"
  have r: "query_refused ?c demo_request" by (simp add: query_refused_def host_refused_def demo_request_def)
  then obtain m where run: "QueryStream (demo_libpq []) (\<lambda>_. ''m'') ?c 5 demo_request demo_shard =
      Inr (mk_status INVALID_ARGUMENT m, demo_shard)"
    using QueryStream_refused by metis
  have "held demo_shard = {}" by (simp add: demo_shard_def shard_init_def)
  from QueryStream_refusals [OF this run] r run show ?thesis by blast
qed

section \<open>Connecting\<close>

lemma wp_on_monitor:
  "wp (on_monitor m) Q s =
     (case health_monitor s of
        None \<Rightarrow> Q () s
      | Some h \<Rightarrow> wp m (\<lambda>_ p. Q () ((snd p)\<lparr>health_monitor := Some (fst p)\<rparr>)) (h, s))"
  by (auto simp: on_monitor_def wp_def split: option.splits sum.splits)

text \<open>What the pool and the service's own members are, apart from the monitor and the outside.\<close>

definition members :: "'a shard_world_scheme \<Rightarrow> ConnectionManager \<times> SessionStore \<times> ConnectParams option \<times> ConnectParams option \<times> conn set" where
  "members s = (pool s, session_store s, connect_params s, executor s, held s)"

lemma wp_OnConnectSuccess_members:
  "wp (OnConnectSuccess L params ms) (\<lambda>_ p. members (snd p) = members s) (h, s)"
proof -
  let ?h = "h\<lparr>hm_params := params, hm_statement_timeout_ms := ms, hm_has_params := True\<rparr>"
  have "wp (ProbeOnce L) (\<lambda>ok. wp (SetServing ok) (\<lambda>_ p. members (snd p) = members s)) (?h, s)"
  proof (rule wp_mono [OF wp_ProbeOnce])
    fix ok p
    assume p: "fst p = ?h \<and> (ok \<longrightarrow> hm_has_params ?h) \<and> probe_effect s (snd p)"
    then have "snd p = s\<lparr>history := history (snd p), next_conn := next_conn (snd p)\<rparr>" by (simp add: probe_effect_def Let_def)
    from arg_cong [where f = members, OF this] show "wp (SetServing ok) (\<lambda>_ p. members (snd p) = members s) p"
      by (cases p) (simp add: wp_SetServing members_def)
  qed
  then show ?thesis
    by (simp add: OnConnectSuccess_def wp_simps) (auto elim!: wp_mono simp: wp_simps)
qed

lemma Pool_Connect_members:
  obtains ok e s' where "Pool_Connect L (Some []) s = Inr ((ok, Some e), s')" and "health_monitor s' = health_monitor s"
    and "members s' = members (if ok then s\<lparr>pool := (pool s)\<lparr>cm_idle := cm_idle (pool s) @ [next_conn s]\<rparr>\<rparr> else s)"
proof -
  obtain r e t where run: "PqConnection_Connect L (cm_params (pool s)) (Some []) 0 s = Inr ((r, e), t)" and eff: "connect_effect s t r"
    by (rule PqConnection_Connect_runs)
  have eq: "t = s\<lparr>history := history t, next_conn := next_conn t\<rparr>" by (rule connect_effect_eq [OF eff])
  have t: "members t = members s" "health_monitor t = health_monitor s"
    using arg_cong [where f = members, OF eq] arg_cong [where f = health_monitor, OF eq] by (simp_all add: members_def)
  show thesis
  proof (cases r)
    case None
    with run t show thesis by (intro that [of False "the e" t]) (simp_all add: Pool_Connect_def bind_m_def set_error_def)
  next
    case (Some c)
    have "c = next_conn s" by (rule connect_effect_frame [OF eff]) (use Some in simp)
    with run t Some show thesis
      by (intro that [of True "[]" "t\<lparr>refs := (refs t)(c := 1), pool := (pool t)\<lparr>cm_idle := cm_idle (pool t) @ [c]\<rparr>\<rparr>"])
        (simp_all add: Pool_Connect_def bind_m_def share_new_def upd_pool_def members_def)
  qed
qed

lemma Shard_Connect_refused:
  assumes "host_refused config (cr_host_index request) \<or> ResolveDbName request = [] \<or> cr_user request = []"
  shows "\<exists>m. Shard_Connect L config request s = Inr ((Status_OK, \<lparr>resp_ok = False, resp_message = m\<rparr>), s)"
proof (cases "host_refused config (cr_host_index request)")
  case True
  from ValidateHostIndex_eq(2) [OF this, of "[]"] show ?thesis by (auto simp: Shard_Connect_def)
next
  case False
  with assms show ?thesis
    by (auto simp: Shard_Connect_def ValidateHostIndex_eq BuildConnectParams_def Let_def)
qed

definition configured :: "ConnectParams \<Rightarrow> ServerConfig \<Rightarrow> ConnectionManager \<Rightarrow> ConnectionManager" where
  "configured params config m =
     m\<lparr>cm_params := params, cm_pool_size := (if pool_size config > 0 then pool_size config else 1), cm_configured := True\<rparr>"

text \<open>C17: \<open>Connect\<close> always answers, with status \<open>OK\<close>. It refuses a request for another host or without a
  database or user name, and then changes nothing. Otherwise it gives the pool the request's parameters and
  tries to open a connection: on success the connection waits in the pool and later queries and sessions use
  the new parameters; on failure they keep the old ones, but the pool has the new ones already. Idle
  connections, sessions and connections in use are never touched.\<close>

theorem Shard_Connect_outcome:
  "\<exists>resp s'. Shard_Connect L config request s = Inr ((Status_OK, resp), s') \<and>
    (let params = BuildConnectParams config request; p = configured params config (pool s) in
     if host_refused config (cr_host_index request) \<or> ResolveDbName request = [] \<or> cr_user request = []
     then \<not> resp_ok resp \<and> s' = s
     else if resp_ok resp
     then members s' = (p\<lparr>cm_idle := cm_idle (pool s) @ [next_conn s]\<rparr>, session_store s, Some params, Some params, held s)
     else members s' = (p, session_store s, connect_params s, executor s, held s))"
proof (cases "host_refused config (cr_host_index request) \<or> ResolveDbName request = [] \<or> cr_user request = []")
  case True
  from Shard_Connect_refused [OF this, of L s] show ?thesis using True by auto
next
  case False
  let ?params = "BuildConnectParams config request"
  let ?s = "s\<lparr>pool := configured ?params config (pool s)\<rparr>"
  obtain ok e t where run: "Pool_Connect L (Some []) ?s = Inr ((ok, Some e), t)"
    and t: "members t = members (if ok then ?s\<lparr>pool := (pool ?s)\<lparr>cm_idle := cm_idle (pool ?s) @ [next_conn ?s]\<rparr>\<rparr> else ?s)"
    by (rule Pool_Connect_members)
  have start: "wp (Shard_Connect L config request) Q s =
      (if ok then wp (on_monitor (OnConnectSuccess L ?params (statement_timeout_ms config)))
          (\<lambda>_. Q (Status_OK, \<lparr>resp_ok = True, resp_message = ''connected''\<rparr>)) (t\<lparr>connect_params := Some ?params, executor := Some ?params\<rparr>)
       else wp (on_monitor OnConnectFailure) (\<lambda>_. Q (Status_OK, \<lparr>resp_ok = False, resp_message = e\<rparr>)) t)" for Q
    using False run
    by (simp add: Shard_Connect_def ValidateHostIndex_eq BuildConnectParams_def Let_def wp_simps Configure_def
        wp_def [of "Pool_Connect L (Some [])"] configured_def)
  have "wp (on_monitor OnConnectFailure) (\<lambda>_ s'. members s' = members t) t"
    by (auto simp: wp_on_monitor OnConnectFailure_def wp_SetServing members_def split: option.split)
  moreover have "wp (on_monitor (OnConnectSuccess L ?params ms)) (\<lambda>_ s'. members s' = members u) u" for ms and u :: "'a shard_world_scheme"
    by (auto simp: wp_on_monitor members_def split: option.split intro!: wp_mono [OF wp_OnConnectSuccess_members])
  ultimately have "wp (Shard_Connect L config request) (\<lambda>(st, resp) s'. st = Status_OK \<and> resp_ok resp = ok \<and>
      members s' = members (if ok then t\<lparr>connect_params := Some ?params, executor := Some ?params\<rparr> else t)) s"
    unfolding start by (auto elim!: wp_mono)
  then obtain resp s' where "Shard_Connect L config request s = Inr ((Status_OK, resp), s')" "resp_ok resp = ok"
      "members s' = members (if ok then t\<lparr>connect_params := Some ?params, executor := Some ?params\<rparr> else t)"
    by (auto simp: wp_iff)
  with False t show ?thesis by (auto simp: members_def Let_def configured_def)
qed

end
