(* ===== verification/Query_Writes.thy ===== *)
theory Query_Writes
  imports Shard_Service
begin

text \<open>
  The chunks a query writes, read off the history, and the operations that write none.
\<close>

text \<open>The chunks written with the outcome of the call, the newest first.\<close>

fun attempts :: "history \<Rightarrow> (ResultChunk \<times> bool) list" where
  "attempts [] = []"
| "attempts (EvWrite chunk b # h) = (chunk, b) # attempts h"
| "attempts (_ # h) = attempts h"

definition writes :: "history \<Rightarrow> ResultChunk list" where
  "writes h = map fst (attempts h)"

lemma attempts_append [simp]: "attempts (xs @ ys) = attempts xs @ attempts ys"
  by (induction xs rule: attempts.induct) auto

lemma writes_simps [simp]:
  "writes [] = []" "writes (EvWrite chunk b # h) = chunk # writes h" "writes (EvConnect i r # h) = writes h"
  "writes (EvExec c sql x # h) = writes h" "writes (EvExecParams c sql ps fmt x # h) = writes h" "writes (EvClear y # h) = writes h"
  "writes (EvFinish c # h) = writes h" "writes (EvPoll b # h) = writes h" "writes (xs @ ys) = writes xs @ writes ys"
  by (simp_all add: writes_def)

text \<open>Operations that write no chunk. \<open>v\<close> reads the history of the state they run on.\<close>

definition silent :: "('s \<Rightarrow> history) \<Rightarrow> ('s, 'b) proc \<Rightarrow> bool" where
  "silent v m \<longleftrightarrow> (\<forall>s a s'. m s = Inr (a, s') \<longrightarrow> attempts (v s') = attempts (v s))"

named_theorems silent_intros

lemma silent_control [silent_intros]:
  "silent v (ret_m a)"
  "silent v m \<Longrightarrow> (\<And>x. silent v (f x)) \<Longrightarrow> silent v (bind_m m f)"
  "silent v (get_m g)"
  "(\<And>s. v (u s) = v s) \<Longrightarrow> silent v (upd_m u)"
  "(b \<Longrightarrow> silent v m1) \<Longrightarrow> (\<not> b \<Longrightarrow> silent v m2) \<Longrightarrow> silent v (if b then m1 else m2)"
  "silent v m0 \<Longrightarrow> (\<And>x. silent v (g0 x)) \<Longrightarrow> silent v (case r of None \<Rightarrow> m0 | Some x \<Rightarrow> g0 x)"
  "(\<And>x y. silent v (h x y)) \<Longrightarrow> silent v (case xy of (x, y) \<Rightarrow> h x y)"
  by (auto simp: silent_def bind_m_def ret_m_def get_m_def upd_m_def split: sum.splits option.splits prod.splits)

lemma silent_world [silent_intros]: "silent history m \<Longrightarrow> silent (\<lambda>p. history (snd p)) (world_m m)"
  by (auto simp: silent_def world_m_def split: sum.splits)

lemma silent_calls [silent_intros]:
  "silent history (PQexec_m L c sql)" "silent history (PQexecParams_m L c sql ps fmt)" "silent history (PQclear_m r)"
  "silent history (PQfinish_m c)" "silent history (PQconnectdb_m L info)" "silent history (share_new c)"
  "silent history (share_copy c)" "silent history (share_drop c)" "silent history notify_pool"
  by (auto simp: silent_def PQexec_m_def PQexecParams_m_def PQclear_m_def PQfinish_m_def PQconnectdb_m_def share_new_def
      share_copy_def share_drop_def notify_pool_def record_event_def bind_m_def Let_def split: option.splits if_splits)

lemma silent_with_lock [silent_intros]:
  "silent (\<lambda>p. history (snd p)) body \<Longrightarrow> silent (\<lambda>p. history (snd p)) (with_lock c body)"
  unfolding silent_def with_lock_def
  by (fastforce simp: bind_m_def world_m_def split: sum.splits prod.splits if_splits)

lemma silent_connections [silent_intros]:
  "silent history (PqConnection_Connect L params err ms)"
  "silent history (Acquire_enter :: ('a pool_world_scheme, conn option) proc)"
  "silent history (Release L r broken)"
proof -
  show connect: "silent history (PqConnection_Connect L params err ms)"
    by (auto simp: PqConnection_Connect_def ApplyStatementTimeout_def Let_def intro!: silent_intros)
  show "silent history (Acquire_enter :: ('a pool_world_scheme, conn option) proc)"
    by (auto simp: silent_def Acquire_enter_def Let_def split: list.splits if_splits)
  show "silent history (Release L r broken)"
    by (auto simp: Release_def upd_pool_def intro!: silent_intros)
qed

lemma silent_Open: "silent (\<lambda>p. history (snd p)) (Open L request err)"
  by (auto simp: Open_def AcquireConnection_def OpenImmediate_def OpenCursor_def ExecuteImmediate_def DeclareCursor_def
      EndTransaction_def BeginIfNeeded_def NextCursorName_def ReleaseConnection_def stream_calls upd_q_def get_q_def Let_def
      GetOrCreate_def open_session_def upd_sessions_def Acquire_def Acquire_create_def CreateConnection_def upd_pool_def
      return_lease_def intro!: silent_intros)

lemma silent_Close: "silent (\<lambda>p. history (snd p)) (Close L err)"
  by (auto simp: Close_def clear_immediate_def CloseCursor_def EndTransaction_def ReleaseConnection_def stream_calls
      upd_q_def get_q_def Let_def return_lease_def intro!: silent_intros)

lemma silent_Abort: "silent (\<lambda>p. history (snd p)) (Abort L)"
  by (auto simp: Abort_def clear_immediate_def CloseCursor_def EndTransaction_def ReleaseConnection_def stream_calls
      upd_q_def get_q_def Let_def return_lease_def intro!: silent_intros)

lemma silent_Fetch: "silent (\<lambda>p. history (snd p)) (Fetch L err)"
  by (auto simp: Fetch_def FetchCursor_def stream_calls upd_q_def Let_def intro!: silent_intros)

lemma silent_destroy: "silent (\<lambda>p. history (snd p)) destroy_stream"
  by (auto simp: destroy_stream_def get_q_def intro!: silent_intros)

lemma silent_writes: "silent v m \<Longrightarrow> m s = Inr (a, s') \<Longrightarrow> writes (v s') = writes (v s)"
  by (simp add: silent_def writes_def)

end
