(* ===== verification/Query_Client.thy ===== *)
theory Query_Client
  imports Raw_Batch Flex_Meta Query_Meta Grpc_Types
begin

text \<open>
  The reader of a query's chunks in \<open>src/integration/lib/grpc-query-client.js\<close>. It is the other end of
  the stream that \<open>QueryStream\<close> writes. An exception of the reader is an error value; the conversion of
  a cell by its field (\<open>decodePgCell\<close>) and the FlexBuffers parser are parameters. White space and
  upper case are those of ASCII.
\<close>

record query_reader_meta =
  qm_schema :: "ResultSchema option"
  qm_trailer :: "(string \<times> int \<times> int option) option"

record 'v PgResult =
  res_command :: string
  res_rowCount :: int
  res_oid :: "int option"
  res_fields :: "FieldInfo list"
  res_rows :: "(string \<rightharpoonup> 'v option) list"

definition commandFromTag :: "string option \<Rightarrow> string option \<Rightarrow> string" where
  "commandFromTag commandTag fallback =
     (let dflt = (case fallback of None \<Rightarrow> ''SELECT'' | Some f \<Rightarrow> f);
          tag = (case commandTag of None \<Rightarrow> [] | Some t \<Rightarrow> t);
          token = takeWhile (\<lambda>c. \<not> isspace c) (dropWhile isspace tag)
      in if tag = [] then dflt else if token \<noteq> [] then map toupper token else dflt)"

text \<open>One payload's rows; an absent payload adds none.\<close>

definition payload_rows ::
    "(FieldInfo \<Rightarrow> string \<Rightarrow> 'v cxx) \<Rightarrow> ResultSchema \<Rightarrow> string \<Rightarrow> (string \<rightharpoonup> 'v option) list cxx" where
  "payload_rows conv schema payload =
     (if payload = [] then Inr []
      else decodeRawPgBatch (\<lambda>col. conv (rs_fields schema ! col)) payload (map fi_name (rs_fields schema)))"

text \<open>The loop over the chunks, with the rows read so far; it ends early at an error chunk without metadata.\<close>

fun read_chunks ::
    "(string \<Rightarrow> flex) \<Rightarrow> (FieldInfo \<Rightarrow> string \<Rightarrow> 'v cxx) \<Rightarrow> ResultChunk list \<Rightarrow> query_reader_meta \<times> (string \<rightharpoonup> 'v option) list
     \<Rightarrow> (query_reader_meta \<times> (string \<rightharpoonup> 'v option) list) cxx" where
  "read_chunks toObject conv [] st = Inr st"
| "read_chunks toObject conv (chunk # chunks) (m, rows) =
     (case chunk_kind chunk of
        CHUNK_KIND_ERROR \<Rightarrow>
          if chunk_meta chunk \<noteq> []
          then Inl (RuntimeError (pe_message (decodePgError toObject (chunk_meta chunk)))) else Inr (m, rows)
      | CHUNK_KIND_SCHEMA \<Rightarrow>
          let m = (if chunk_meta chunk \<noteq> []
                   then m\<lparr>qm_schema := Some (decodeResultSchema toObject (chunk_meta chunk))\<rparr> else m)
          in (case qm_schema m of
                None \<Rightarrow> read_chunks toObject conv chunks (m, rows)
              | Some schema \<Rightarrow>
                  cxx_bind (payload_rows conv schema (chunk_payload chunk)) (\<lambda>new.
                  read_chunks toObject conv chunks (m, rows @ new)))
      | CHUNK_KIND_BATCH \<Rightarrow>
          (case qm_schema m of
             None \<Rightarrow> Inl (RuntimeError ''BATCH chunk before SCHEMA'')
           | Some schema \<Rightarrow>
               cxx_bind (payload_rows conv schema (chunk_payload chunk)) (\<lambda>new.
               read_chunks toObject conv chunks (m, rows @ new)))
      | CHUNK_KIND_TRAILER \<Rightarrow>
          read_chunks toObject conv chunks
            (if chunk_meta chunk \<noteq> []
             then m\<lparr>qm_trailer := Some (decodeResultTrailer toObject (chunk_meta chunk))\<rparr> else m, rows)
      | CHUNK_KIND_UNSPECIFIED \<Rightarrow> read_chunks toObject conv chunks (m, rows))"

definition decodeQueryStreamToPgResult ::
    "(string \<Rightarrow> flex) \<Rightarrow> (FieldInfo \<Rightarrow> string \<Rightarrow> 'v cxx) \<Rightarrow> ResultChunk list \<Rightarrow> 'v PgResult cxx" where
  "decodeQueryStreamToPgResult toObject conv chunks =
     cxx_bind (read_chunks toObject conv chunks (\<lparr>qm_schema = None, qm_trailer = None\<rparr>, [])) (\<lambda>(m, rows).
     Inr \<lparr>res_command = commandFromTag (map_option fst (qm_trailer m)) (map_option rs_command (qm_schema m)),
          res_rowCount = (case qm_trailer m of Some (tag, n, oid) \<Rightarrow> n | None \<Rightarrow> int (length rows)),
          res_oid = (case qm_trailer m of Some (tag, n, oid) \<Rightarrow> oid | None \<Rightarrow> None),
          res_fields = (case qm_schema m of Some schema \<Rightarrow> rs_fields schema | None \<Rightarrow> []),
          res_rows = rows\<rparr>)"

section \<open>Reading batches of one schema\<close>

text \<open>The chunk of one batch, and the chunks of a sequence of batches: the first one carries the schema.\<close>

definition batch_chunk :: "(flex \<Rightarrow> string) \<Rightarrow> ResultSchema \<Rightarrow> bool \<Rightarrow> string \<Rightarrow> ResultChunk" where
  "batch_chunk G schema sent payload =
     \<lparr>chunk_kind = (if sent then CHUNK_KIND_BATCH else CHUNK_KIND_SCHEMA),
      chunk_meta = (if sent then [] else EncodeResultSchema G schema), chunk_payload = payload\<rparr>"

fun batch_chunks :: "(flex \<Rightarrow> string) \<Rightarrow> ResultSchema \<Rightarrow> bool \<Rightarrow> string list \<Rightarrow> ResultChunk list" where
  "batch_chunks G schema sent [] = []"
| "batch_chunks G schema sent (p # ps) = batch_chunk G schema sent p # batch_chunks G schema True ps"

lemma batch_chunks_append:
  "batch_chunks G schema sent (ps @ qs) =
     batch_chunks G schema sent ps @ batch_chunks G schema (sent \<or> ps \<noteq> []) qs"
  by (induction ps arbitrary: sent) simp_all

lemma read_batches:
  assumes "\<And>p. p \<in> set ps \<Longrightarrow> payload_rows conv schema p = Inr (rows_of p)" "qm_schema m = Some schema"
  shows "read_chunks toObject conv (batch_chunks G schema' True ps @ cs) (m, rows) =
     read_chunks toObject conv cs (m, rows @ concat (map rows_of ps))"
  using assms(1) by (induction ps arbitrary: rows) (simp_all add: batch_chunk_def assms(2))

lemma read_schema_and_batches:
  assumes flex: "reads_back G toObject (schema_tree schema)" "reads_back G toObject (trailer_tree trailer)" "\<forall>v. G v \<noteq> []"
    and numbers: "int32_fields schema" "\<bar>rt_row_count trailer\<bar> \<le> 2 ^ 53"
    and rows: "\<And>p. p \<in> set ps \<Longrightarrow> payload_rows conv (c_str_schema schema) p = Inr (rows_of p)" and "ps \<noteq> []"
  shows "decodeQueryStreamToPgResult toObject conv (batch_chunks G schema False ps @
      [\<lparr>chunk_kind = CHUNK_KIND_TRAILER, chunk_meta = EncodeResultTrailer G trailer, chunk_payload = []\<rparr>]) =
    Inr \<lparr>res_command = commandFromTag (Some (c_str (rt_command_tag trailer))) (Some (c_str (rs_command schema))),
      res_rowCount = rt_row_count trailer, res_oid = (if rt_oid trailer = 0 then None else Some (uint (rt_oid trailer))),
      res_fields = rs_fields (c_str_schema schema), res_rows = concat (map rows_of ps)\<rparr>"
proof -
  obtain p qs where ps: "ps = p # qs" using \<open>ps \<noteq> []\<close> by (cases ps) auto
  note meta = decode_encode_schema [OF flex(1) numbers(1)] decode_encode_trailer [OF flex(2)] js_Number_exact [OF numbers(2)]
  have ne: "EncodeResultSchema G schema \<noteq> []" "EncodeResultTrailer G trailer \<noteq> []"
    using flex(3) by (simp_all add: EncodeResultSchema_def EncodeResultTrailer_def)
  have step: "read_chunks toObject conv (batch_chunks G schema True qs @ cs) (m, x) =
      read_chunks toObject conv cs (m, x @ concat (map rows_of qs))" if "qm_schema m = Some (c_str_schema schema)" for m x cs
    by (rule read_batches) (use rows ps that in simp_all)
  show ?thesis
    using meta ne rows [of p]
    by (simp add: ps decodeQueryStreamToPgResult_def batch_chunk_def step Let_def)
      (simp add: c_str_schema_def)
qed

end
