(* ===== verification/Query_Delivery.thy ===== *)
theory Query_Delivery
  imports Query_Writes Query_Client
begin

text \<open>
  The composition of the server and the client for a query through a cursor: what \<open>QueryStream\<close> writes
  while PostgreSQL answers its \<open>FETCH\<close> statements portion by portion, and what the client's reader makes
  of it.
\<close>

section \<open>Runs that only add to the history\<close>

text \<open>
  The run returns \<open>x\<close>, leaves the object and the world as they were but for the history, sends exactly the
  given statements on the connection and writes exactly the given chunks, in this order.
\<close>

definition yields ::
    "conn \<Rightarrow> ('a, 'b) qs_proc \<Rightarrow> 'b \<Rightarrow> string list \<Rightarrow> ResultChunk list \<Rightarrow> StreamingQuery \<times> 'a shard_world_scheme \<Rightarrow> bool" where
  "yields c m x sqls chunks p \<longleftrightarrow>
     (\<exists>es. m p = Inr (x, (fst p, (snd p)\<lparr>history := es @ history (snd p)\<rparr>)) \<and>
        rev (statements c es) = sqls \<and> rev (writes es) = chunks)"

lemma yields_bind:
  assumes "yields c m x sqls chunks (q, s)"
    and "\<And>es. rev (statements c es) = sqls \<Longrightarrow> yields c (f x) y sqls' chunks' (q, s\<lparr>history := es @ history s\<rparr>)"
  shows "yields c (bind_m m f) y (sqls @ sqls') (chunks @ chunks') (q, s)"
proof -
  obtain es where m: "m (q, s) = Inr (x, (q, s\<lparr>history := es @ history s\<rparr>))"
    and es: "rev (statements c es) = sqls" "rev (writes es) = chunks"
    using assms(1) by (auto simp: yields_def)
  obtain es' where "f x (q, s\<lparr>history := es @ history s\<rparr>) = Inr (y, (q, s\<lparr>history := (es' @ es) @ history s\<rparr>))"
    and "rev (statements c es') = sqls'" "rev (writes es') = chunks'"
    using assms(2) [OF es(1)] by (auto simp: yields_def)
  then show ?thesis
    using m es by (auto simp: yields_def bind_m_def intro!: exI [of _ "es' @ es"])
qed

lemma yields_bind_out:
  assumes "yields c m x [] chunks (q, s)" "\<And>es. statements c es = [] \<Longrightarrow> yields c (f x) y sqls chunks' (q, s\<lparr>history := es @ history s\<rparr>)"
  shows "yields c (bind_m m f) y sqls (chunks @ chunks') (q, s)"
  using yields_bind [OF assms(1), of f y sqls chunks'] assms(2) by simp

lemma yields_bind_quiet:
  assumes "yields c m x [] [] (q, s)" "\<And>es. statements c es = [] \<Longrightarrow> yields c (f x) y sqls chunks (q, s\<lparr>history := es @ history s\<rparr>)"
  shows "yields c (bind_m m f) y sqls chunks (q, s)"
  using yields_bind_out [OF assms(1), of f y sqls chunks] assms(2) by simp

lemma yields_ret: "yields c (ret_m x) x [] [] p"
  unfolding yields_def by (rule exI [of _ "[]"]) (simp add: ret_m_def)

lemma yields_map: "yields c m x sqls chunks p \<Longrightarrow> yields c (bind_m m (\<lambda>x. ret_m (f x))) (f x) sqls chunks p"
  by (auto simp: yields_def bind_m_def ret_m_def)

lemma yields_iff:
  assumes "m p = Inr (x, (fst p, (snd p)\<lparr>history := e # history (snd p)\<rparr>))"
  shows "yields c m x (rev (statements c [e])) (rev (writes [e])) p"
  using assms by (auto simp: yields_def intro!: exI [of _ "[e]"])

lemma yields_poll: "\<forall>h. \<not> IsCancelled L h \<Longrightarrow> yields c (world_m (IsCancelled_m L)) False [] [] p"
  using yields_iff [of "world_m (IsCancelled_m L)" p False "EvPoll False" c]
  by (cases p) (simp add: world_m_def IsCancelled_m_def Let_def)

lemma yields_write: "\<forall>h chunk. Write L h chunk \<Longrightarrow> yields c (world_m (Write_m L chunk)) True [] [chunk] p"
  using yields_iff [of "world_m (Write_m L chunk)" p True "EvWrite chunk True" c]
  by (cases p) (simp add: world_m_def Write_m_def Let_def)

lemma yields_clear: "yields c (world_m (PQclear_m r)) () [] [] p"
proof (cases r)
  case None
  then show ?thesis
    unfolding yields_def by (cases p; intro exI [of _ "[]"]) (simp add: world_m_def PQclear_m_def)
next
  case (Some x)
  then show ?thesis
    using yields_iff [of "world_m (PQclear_m r)" p "()" "EvClear x" c]
    by (cases p) (simp add: world_m_def PQclear_m_def record_event_def)
qed

section \<open>The batches of one portion\<close>

text \<open>A result whose batches of at most \<open>w\<close> rows can be encoded.\<close>

definition portion_ok :: "int \<Rightarrow> PGresult \<Rightarrow> bool" where
  "portion_ok w r \<longleftrightarrow>
     pgresult_wf r \<and> PQresultStatus r = PGRES_TUPLES_OK \<and> 0 < PQnfields r \<and>
     PQntuples r + w \<le> INT_MAX \<and> 16 + w * PQnfields r * 8 \<le> INT_MAX"

definition batch_payload :: "PGresult \<Rightarrow> int \<Rightarrow> int \<Rightarrow> string" where
  "batch_payload r b e = projr (EncodeRawPgBatch (Some r) b e)"

lemma portion_batch:
  assumes "portion_ok w r" "0 \<le> b" "b \<le> e" "e \<le> PQntuples r" "e - b \<le> w"
  shows "batch_fits r b e" "EncodeRawPgBatch (Some r) b e = Inr (batch_payload r b e)" "batch_payload r b e \<noteq> []"
proof -
  have "(e - b) * PQnfields r * 8 \<le> w * PQnfields r * 8"
    using assms by (intro mult_right_mono) (auto simp: portion_ok_def)
  moreover have "16 + w * PQnfields r * 8 \<le> INT_MAX" using assms(1) by (simp add: portion_ok_def)
  ultimately show fits: "batch_fits r b e"
    unfolding batch_fits_def using assms(2-4) by linarith
  then show run: "EncodeRawPgBatch (Some r) b e = Inr (batch_payload r b e)"
    using assms by (simp add: batch_payload_def portion_ok_def EncodeRawPgBatch_eq)
  show "batch_payload r b e \<noteq> []"
    using EncodeRawPgBatch_length [OF run] by auto
qed

text \<open>The payloads of the rows from \<open>b\<close> on.\<close>

function portion_payloads :: "PGresult \<Rightarrow> int \<Rightarrow> int \<Rightarrow> string list" where
  "portion_payloads r w b =
     (if b < PQntuples r \<and> 0 < w
      then batch_payload r b (min (b + w) (PQntuples r)) # portion_payloads r w (b + w) else [])"
  by pat_completeness auto
termination
  by (relation "measure (\<lambda>(r, w, b). nat (PQntuples r - b))") auto

declare portion_payloads.simps [simp del]

lemma yields_SendBatchChunk:
  assumes "\<forall>h. \<not> IsCancelled L h" "\<forall>h chunk. Write L h chunk" "payload \<noteq> []"
  shows "yields c (SendBatchChunk L G schema sent payload) (True, True) [] [batch_chunk G schema sent payload] (q, s)"
proof -
  have W: "yields c (bind_m (WriteResultChunk L k meta payload) (\<lambda>written. ret_m (if written then (True, True) else (False, sent))))
      (True, True) [] [\<lparr>chunk_kind = k, chunk_meta = meta, chunk_payload = payload\<rparr>] p" for k meta p
    using yields_map [OF yields_write [OF assms(2), of c], where f = "\<lambda>written. if written then (True, True) else (False, sent)"] assms(3)
    by (simp add: WriteResultChunk_def)
  show ?thesis
    unfolding SendBatchChunk_def batch_chunk_def using assms(3)
    by (auto simp: Let_def intro!: yields_bind_quiet [OF yields_poll [OF assms(1)]] W)
qed

definition sent_rows :: "query_locals \<Rightarrow> int \<Rightarrow> query_locals" where
  "sent_rows l n = l\<lparr>ql_total_rows := ql_total_rows l + n, ql_batch_sent := True\<rparr>"

lemma sent_rows_simps [simp]:
  "ql_total_rows (sent_rows l n) = ql_total_rows l + n" "ql_batch_sent (sent_rows l n)"
  "ql_schema_meta (sent_rows l n) = ql_schema_meta l" "ql_schema_open (sent_rows l n) = ql_schema_open l"
  "ql_last_result (sent_rows l n) = ql_last_result l" "ql_exec_error (sent_rows l n) = ql_exec_error l"
  "sent_rows (sent_rows l n) n' = sent_rows l (n + n')"
  by (simp_all add: sent_rows_def)

lemma yields_send_batch:
  assumes "\<forall>h. \<not> IsCancelled L h" "\<forall>h chunk. Write L h chunk"
    and "EncodeRawPgBatch r b e = Inr payload"
  shows "yields c (send_batch L G r b e l) (Next (sent_rows l (e - b))) []
      [batch_chunk G (ql_schema_meta l) (ql_batch_sent l) payload] (q, s)"
proof -
  have ne: "payload \<noteq> []" using EncodeRawPgBatch_length [OF assms(3)] by auto
  note send = yields_SendBatchChunk [OF assms(1,2) ne, of c G "ql_schema_meta l" "ql_batch_sent l" q s]
  have "yields c (bind_m (SendBatchChunk L G (ql_schema_meta l) (ql_batch_sent l) payload) (\<lambda>(sent, batch_sent).
        if \<not> sent then cancelled_return L else ret_m (Next (l\<lparr>ql_total_rows := n, ql_batch_sent := batch_sent\<rparr>))))
      (Next (l\<lparr>ql_total_rows := n, ql_batch_sent := True\<rparr>)) []
      [batch_chunk G (ql_schema_meta l) (ql_batch_sent l) payload] (q, s)" for n
    by (rule yields_bind [OF send, where sqls' = "[]" and chunks' = "[]", simplified]) (simp add: yields_ret)
  then show ?thesis
    unfolding send_batch_def assms(3) by (simp add: Let_def sent_rows_def)
qed

lemma yields_send_batches:
  assumes coop: "\<forall>h. \<not> IsCancelled L h" "\<forall>h chunk. Write L h chunk"
    and ok: "portion_ok w r" "0 < w" "0 \<le> b"
  shows "yields c (send_batches L G r w (PQntuples r) b l)
      (Next (if b < PQntuples r then sent_rows l (PQntuples r - b) else l)) []
      (batch_chunks G (ql_schema_meta l) (ql_batch_sent l) (portion_payloads r w b)) (q, s)"
  using ok(3)
proof (induction "nat (PQntuples r - b)" arbitrary: b l s rule: less_induct)
  case less
  show ?case
  proof (cases "b < PQntuples r")
    case True
    let ?e = "min (b + w) (PQntuples r)"
    let ?l = "sent_rows l (?e - b)"
    have small: "\<not> INT_MAX < b + w" using True ok(1) by (simp add: portion_ok_def)
    have "EncodeRawPgBatch (Some r) b ?e = Inr (batch_payload r b ?e)"
      by (rule portion_batch [OF ok(1)]) (use True ok(2) less.prems in simp_all)
    note batch = yields_send_batch [OF coop this, of c G l q s]
    have rest: "yields c (send_batches L G r w (PQntuples r) (b + w) ?l)
        (Next (if b + w < PQntuples r then sent_rows ?l (PQntuples r - (b + w)) else ?l)) []
        (batch_chunks G (ql_schema_meta l) True (portion_payloads r w (b + w))) (q, s\<lparr>history := es @ history s\<rparr>)" for es
      using less.hyps [of "b + w" ?l "s\<lparr>history := es @ history s\<rparr>"] True ok(2) less.prems by simp
    have last: "(if b + w < PQntuples r then sent_rows ?l (PQntuples r - (b + w)) else ?l) = sent_rows l (PQntuples r - b)"
      using True by (auto simp: min_def)
    have "yields c (bind_m (send_batch L G (Some r) b ?e l) (\<lambda>outcome. case outcome of
          Next l' \<Rightarrow> send_batches L G r w (PQntuples r) (b + w) l' | _ \<Rightarrow> ret_m outcome))
        (Next (sent_rows l (PQntuples r - b))) [] ([batch_chunk G (ql_schema_meta l) (ql_batch_sent l) (batch_payload r b ?e)] @
          batch_chunks G (ql_schema_meta l) True (portion_payloads r w (b + w))) (q, s)"
      by (rule yields_bind_out [OF batch]) (simp add: rest [unfolded last])
    then show ?thesis
      using True ok(2) small
      by (subst send_batches.simps, subst portion_payloads.simps) simp
  next
    case False
    then show ?thesis
      by (subst send_batches.simps, subst portion_payloads.simps) (simp add: yields_ret)
  qed
qed

text \<open>The local variables after a portion with rows, and the chunks it is sent in.\<close>

definition portion_schema :: "query_locals \<Rightarrow> PGresult \<Rightarrow> ResultSchema" where
  "portion_schema l r = (if ql_schema_open l then ql_schema_meta l else BuildSchemaMeta r)"

definition after_portion :: "query_locals \<Rightarrow> PGresult \<Rightarrow> query_locals" where
  "after_portion l r =
     (let l' = l\<lparr>ql_last_result := Some r, ql_schema_meta := portion_schema l r, ql_schema_open := True\<rparr>
      in if 0 < PQntuples r then sent_rows l' (PQntuples r) else l')"

lemma yields_handle_portion:
  assumes coop: "\<forall>h. \<not> IsCancelled L h" "\<forall>h chunk. Write L h chunk"
    and ok: "portion_ok w r" "0 < w" and more: "0 < PQntuples r \<or> \<not> ql_schema_open l"
  shows "yields c (handle_portion L G w r l) (Next (after_portion l r), False) []
      (batch_chunks G (portion_schema l r) (ql_batch_sent l) (portion_payloads r w 0)) (q, s)"
proof -
  let ?l = "l\<lparr>ql_last_result := Some r, ql_schema_meta := portion_schema l r, ql_schema_open := True\<rparr>"
  have r: "PQresultStatus r = PGRES_TUPLES_OK" "PQnfields r \<noteq> 0" "0 \<le> PQntuples r"
    using ok(1) by (auto simp: portion_ok_def pgresult_wf_def)
  have l: "(if \<not> ql_schema_open (l\<lparr>ql_last_result := Some r\<rparr>) then l\<lparr>ql_last_result := Some r,
      ql_schema_meta := BuildSchemaMeta r, ql_schema_open := True\<rparr> else l\<lparr>ql_last_result := Some r\<rparr>) = ?l"
    by (cases l) (simp add: portion_schema_def)
  have send: "yields c (bind_m (send_batches L G r w (PQntuples r) 0 ?l) (\<lambda>outcome. ret_m (outcome, False)))
      (Next (after_portion l r), False) []
      (batch_chunks G (portion_schema l r) (ql_batch_sent l) (portion_payloads r w 0)) (q, s)"
    if "0 < PQntuples r" for s
    using yields_map [OF yields_send_batches [OF coop ok order_refl, of c G ?l q s], where f = "\<lambda>outcome. (outcome, False)"] that
    by (simp add: after_portion_def)
  have none: "portion_payloads r w 0 = []" if "PQntuples r = 0"
    using that by (subst portion_payloads.simps) simp
  show ?thesis
    unfolding handle_portion_def
  proof (rule yields_bind_quiet [OF yields_clear])
    fix es
    let ?s = "s\<lparr>history := es @ history s\<rparr>"
    show "yields c (let l' = l\<lparr>ql_last_result := Some r\<rparr>; status = PQresultStatus r in
        if status \<noteq> PGRES_TUPLES_OK \<and> status \<noteq> PGRES_COMMAND_OK
        then bind_m (WriteErrorChunk L G (ExtractPgError (Some r))) (\<lambda>_. bind_m (Abort L) (\<lambda>_. ret_m (Return Status_OK, True)))
        else let num_fields = PQnfields r; num_rows = PQntuples r in
          if num_fields = 0 then trailer_only L G r l'
          else if num_rows = 0 \<and> ql_schema_open l' then ret_m (Next l', True)
          else let l'' = if \<not> ql_schema_open l' then l'\<lparr>ql_schema_meta := BuildSchemaMeta r, ql_schema_open := True\<rparr> else l' in
            if num_rows = 0 then ret_m (Next l'', False)
            else bind_m (send_batches L G r w num_rows 0 l'') (\<lambda>outcome. ret_m (outcome, False)))
      (Next (after_portion l r), False) []
      (batch_chunks G (portion_schema l r) (ql_batch_sent l) (portion_payloads r w 0)) (q, ?s)"
    proof (cases "PQntuples r = 0")
      case True
      with more have "\<not> ql_schema_open l" by simp
      with True r l none show ?thesis by (simp add: Let_def yields_ret after_portion_def portion_schema_def)
    next
      case False
      with r have "0 < PQntuples r" by simp
      with send [OF this, of ?s] r l show ?thesis by (simp add: Let_def)
    qed
  qed
qed

section \<open>The loop over the portions\<close>

text \<open>
  What a cursor promises: from history \<open>g\<close> on, the first \<open>FETCH\<close> returns the first portion, the next one
  the next, and when the portions are used up each further one returns an empty result.
\<close>

definition nth_portion :: "PGresult list \<Rightarrow> PGresult \<Rightarrow> nat \<Rightarrow> PGresult" where
  "nth_portion rs e n = (if n < length rs then rs ! n else e)"

lemma nth_portion_drop: "nth_portion (drop n rs) e k = nth_portion rs e (n + k)"
  by (auto simp: nth_portion_def)

definition cursor_answers :: "libpq \<Rightarrow> conn \<Rightarrow> string \<Rightarrow> history \<Rightarrow> PGresult list \<Rightarrow> PGresult \<Rightarrow> bool" where
  "cursor_answers L c sql g rs e \<longleftrightarrow>
     (\<forall>es. PQexec L (es @ g) c sql = Some (nth_portion rs e (count_list (statements c es) sql)))"

text \<open>The object while its cursor is open, with the text of its \<open>FETCH\<close>.\<close>

definition fetching :: "StreamingQuery \<Rightarrow> conn \<Rightarrow> string \<Rightarrow> bool" where
  "fetching q c sql \<longleftrightarrow>
     sq_connection q = Some c \<and> sq_use_cursor q \<and> sq_cursor_open q \<and>
     sql = c_str (fetch_text (sq_fetch_size q) (sq_cursor_name q))"

lemma yields_Fetch:
  assumes "fetching q c sql" "c \<notin> held s" "PQexec L (history s) c sql = Some x" "PQresultStatus x = PGRES_TUPLES_OK"
  shows "yields c (Fetch L err) (Some x, err) [sql] [] (q, s)"
proof -
  have "Fetch L err (q, s) = Inr ((Some x, err), (q, s\<lparr>history := EvExec c sql (Some x) # history s\<rparr>))"
    using assms by (simp add: fetching_def run_wp Fetch_def wp_simps wp_FetchCursor Let_def)
  then show ?thesis
    using yields_iff [of "Fetch L err" "(q, s)" "(Some x, err)" "EvExec c sql (Some x)" c] by simp
qed

lemma cursor_answers_drop:
  assumes "cursor_answers L c sql g rs e"
  shows "cursor_answers L c sql (es @ g) (drop (count_list (statements c es) sql) rs) e"
  using assms unfolding cursor_answers_def
  by (metis (no_types, lifting) append_assoc statements_append count_list_append nth_portion_drop add.commute)

lemma same_exec_error [simp]: "l\<lparr>ql_exec_error := ql_exec_error l\<rparr> = l"
  by (cases l) simp

text \<open>One round of the loop.\<close>

lemma yields_round:
  assumes coop: "\<forall>h. \<not> IsCancelled L h" and q: "fetching q c sql" "c \<notin> held s"
    and ans: "cursor_answers L c sql (history s) rs e" and ok: "PQresultStatus (nth_portion rs e 0) = PGRES_TUPLES_OK"
    and portion: "\<And>es. yields c (handle_portion L G w (nth_portion rs e 0) l) (outcome, stop) [] chunks (q, s\<lparr>history := es @ history s\<rparr>)"
    and rest: "\<And>es. cursor_answers L c sql (es @ history s) (drop 1 rs) e \<Longrightarrow>
      yields c (case outcome of Next l' \<Rightarrow> if stop then ret_m (Next l') else stream_loop L G w fuel l' | _ \<Rightarrow> ret_m outcome)
        y sqls chunks' (q, s\<lparr>history := es @ history s\<rparr>)"
  shows "yields c (stream_loop L G w (Suc fuel) l) y (sql # sqls) (chunks @ chunks') (q, s)"
  unfolding stream_loop.simps
proof (rule yields_bind_quiet [OF yields_poll [OF coop]], unfold if_False)
  fix es1 assume es1: "statements c es1 = []"
  have exec: "PQexec L (es1 @ history s) c sql = Some (nth_portion rs e 0)"
    using ans es1 by (simp add: cursor_answers_def)
  have fetch: "yields c (Fetch L (ql_exec_error l)) (Some (nth_portion rs e 0), ql_exec_error l) [sql] []
      (q, s\<lparr>history := es1 @ history s\<rparr>)"
    by (rule yields_Fetch [OF q(1)]) (use q exec ok in simp_all)
  have next_round: "yields c (bind_m (handle_portion L G w (nth_portion rs e 0) l) (\<lambda>(outcome, stop).
        case outcome of Next l' \<Rightarrow> if stop then ret_m (Next l') else stream_loop L G w fuel l' | _ \<Rightarrow> ret_m outcome))
      y sqls (chunks @ chunks') (q, s\<lparr>history := es1 @ history s, history := es2 @ history (s\<lparr>history := es1 @ history s\<rparr>)\<rparr>)"
    if "rev (statements c es2) = [sql]" for es2
  proof -
    have "cursor_answers L c sql ((es3 @ es2 @ es1) @ history s) (drop 1 rs) e" if "statements c es3 = []" for es3
      using cursor_answers_drop [OF ans, of "es3 @ es2 @ es1"] that es1 \<open>rev (statements c es2) = [sql]\<close> by simp
    from rest [OF this] show ?thesis
      by (intro yields_bind_out [where x = "(outcome, stop)"]) (use portion [of "es2 @ es1"] in simp_all)
  qed
  show "yields c (bind_m (Fetch L (ql_exec_error l)) (\<lambda>(fetch, exec_error). let locals = l\<lparr>ql_exec_error := exec_error\<rparr> in
        case fetch of None \<Rightarrow> if exec_error \<noteq> Some []
            then bind_m (WriteErrorChunk L G (PgErrorMeta_init\<lparr>em_message := the exec_error\<rparr>)) (\<lambda>_. bind_m (Abort L) (\<lambda>_. ret_m (Return Status_OK)))
            else ret_m (Next locals)
        | Some r \<Rightarrow> bind_m (handle_portion L G w r locals) (\<lambda>(outcome, stop).
            case outcome of Next l' \<Rightarrow> if stop then ret_m (Next l') else stream_loop L G w fuel l' | _ \<Rightarrow> ret_m outcome)))
      y (sql # sqls) (chunks @ chunks') (q, s\<lparr>history := es1 @ history s\<rparr>)"
    using yields_bind [OF fetch, where sqls' = sqls and chunks' = "chunks @ chunks'" and y = y] next_round by simp
qed

text \<open>The local variables after the loop, and the payloads of all its batches.\<close>

fun after_portions :: "query_locals \<Rightarrow> PGresult list \<Rightarrow> PGresult \<Rightarrow> query_locals" where
  "after_portions l [] e = (if ql_schema_open l then l else after_portion l e)\<lparr>ql_last_result := Some e\<rparr>"
| "after_portions l (r # rs) e = after_portions (after_portion l r) rs e"

fun portions_chunks :: "(flex \<Rightarrow> string) \<Rightarrow> int \<Rightarrow> query_locals \<Rightarrow> PGresult list \<Rightarrow> ResultChunk list" where
  "portions_chunks G w l [] = []"
| "portions_chunks G w l (r # rs) =
     batch_chunks G (portion_schema l r) (ql_batch_sent l) (portion_payloads r w 0) @ portions_chunks G w (after_portion l r) rs"

lemma after_portion_open [simp]: "ql_schema_open (after_portion l r)"
  by (simp add: after_portion_def Let_def)

lemma handle_portion_end:
  assumes "portion_ok w r" "PQntuples r = 0" "ql_schema_open l"
  shows "yields c (handle_portion L G w r l) (Next (l\<lparr>ql_last_result := Some r\<rparr>), True) [] [] (q, s)"
  unfolding handle_portion_def
  by (rule yields_bind_quiet [OF yields_clear]) (use assms in \<open>simp add: portion_ok_def Let_def yields_ret\<close>)

lemma yields_stream_loop:
  assumes coop: "\<forall>h. \<not> IsCancelled L h" "\<forall>h chunk. Write L h chunk" and w: "0 < w"
    and q: "fetching q c sql" "c \<notin> held s"
    and ans: "cursor_answers L c sql (history s) rs e"
    and ok: "\<forall>r \<in> set rs. portion_ok w r \<and> 0 < PQntuples r" "portion_ok w e" "PQntuples e = 0"
    and fuel: "length rs + (if ql_schema_open l \<or> rs \<noteq> [] then 1 else 2) \<le> fuel"
  shows "yields c (stream_loop L G w fuel l) (Next (after_portions l rs e))
     (replicate (length rs + (if ql_schema_open l \<or> rs \<noteq> [] then 1 else 2)) sql) (portions_chunks G w l rs) (q, s)"
  using q(2) ans ok(1) fuel
proof (induction rs arbitrary: l s fuel)
  case Nil
  have status: "PQresultStatus e = PGRES_TUPLES_OK" using ok(2) by (simp add: portion_ok_def)
  have none: "portion_payloads e w 0 = []" using ok(3) by (subst portion_payloads.simps) simp
  have last: "yields c (stream_loop L G w (Suc n) l) (Next (l\<lparr>ql_last_result := Some e\<rparr>)) [sql] [] (q, s)"
    if "c \<notin> held s" "cursor_answers L c sql (history s) [] e" "ql_schema_open l" for l n and s :: "'a shard_world_scheme"
  proof -
    have "yields c (stream_loop L G w (Suc n) l) (Next (l\<lparr>ql_last_result := Some e\<rparr>)) (sql # []) ([] @ []) (q, s)"
      by (rule yields_round [OF coop(1) q(1) that(1,2), where outcome = "Next (l\<lparr>ql_last_result := Some e\<rparr>)" and stop = True])
        (use status that(3) ok in \<open>simp_all add: nth_portion_def yields_ret handle_portion_end\<close>)
    then show ?thesis by simp
  qed
  show ?case
  proof (cases "ql_schema_open l")
    case True
    obtain n where "fuel = Suc n" using Nil.prems(4) True by (cases fuel) auto
    with last [OF Nil.prems(1,2) True] True show ?thesis by simp
  next
    case False
    obtain n where n: "fuel = Suc (Suc n)" using Nil.prems(4) False by (cases fuel; cases "fuel - 1") auto
    have first: "yields c (handle_portion L G w (nth_portion [] e 0) l) (Next (after_portion l e), False) [] [] (q, s\<lparr>history := es @ history s\<rparr>)" for es
      using yields_handle_portion [OF coop ok(2) w, of l c G q "s\<lparr>history := es @ history s\<rparr>"] False none by (simp add: nth_portion_def)
    have "yields c (stream_loop L G w (Suc (Suc n)) l) (Next ((after_portion l e)\<lparr>ql_last_result := Some e\<rparr>)) (sql # [sql]) ([] @ []) (q, s)"
      by (rule yields_round [OF coop(1) q(1) Nil.prems(1,2) _ first])
        (use status Nil.prems(1) in \<open>simp_all add: nth_portion_def last del: stream_loop.simps\<close>)
    then show ?thesis using n False by (simp add: numeral_2_eq_2)
  qed
next
  case (Cons r rs)
  from Cons.prems(3) have r: "portion_ok w r" "0 < PQntuples r" by simp_all
  then have status: "PQresultStatus r = PGRES_TUPLES_OK" by (simp add: portion_ok_def)
  obtain n where n: "fuel = Suc n" "length rs + 1 \<le> n" using Cons.prems(4) by (cases fuel) auto
  have first: "yields c (handle_portion L G w (nth_portion (r # rs) e 0) l) (Next (after_portion l r), False) []
      (batch_chunks G (portion_schema l r) (ql_batch_sent l) (portion_payloads r w 0)) (q, s\<lparr>history := es @ history s\<rparr>)" for es
    using yields_handle_portion [OF coop r(1) w, of l c G q "s\<lparr>history := es @ history s\<rparr>"] r(2) by (simp add: nth_portion_def)
  have rest: "yields c (stream_loop L G w n (after_portion l r)) (Next (after_portions (after_portion l r) rs e))
      (replicate (length rs + 1) sql) (portions_chunks G w (after_portion l r) rs) (q, s\<lparr>history := es @ history s\<rparr>)"
    if "cursor_answers L c sql (es @ history s) rs e" for es
    using Cons.IH [of "s\<lparr>history := es @ history s\<rparr>" "after_portion l r" n] Cons.prems(1,3) n that by simp
  have "yields c (stream_loop L G w (Suc n) l) (Next (after_portions (after_portion l r) rs e)) (sql # replicate (length rs + 1) sql)
      (batch_chunks G (portion_schema l r) (ql_batch_sent l) (portion_payloads r w 0) @ portions_chunks G w (after_portion l r) rs) (q, s)"
    by (rule yields_round [OF coop(1) q(1) Cons.prems(1,2) _ first]) (use status rest in \<open>simp_all add: nth_portion_def\<close>)
  then show ?case using n by simp
qed

section \<open>The whole query\<close>

lemma after_portions_facts:
  assumes "\<forall>r \<in> set rs. 0 < PQntuples r" "PQntuples e = 0"
  shows "ql_schema_open (after_portions l rs e)"
    "ql_schema_meta (after_portions l rs e) = portion_schema l (nth_portion rs e 0)"
    "ql_total_rows (after_portions l rs e) = ql_total_rows l + (\<Sum>r\<leftarrow>rs. PQntuples r)"
    "ql_batch_sent (after_portions l rs e) \<longleftrightarrow> ql_batch_sent l \<or> rs \<noteq> []"
    "ql_last_result (after_portions l rs e) = Some e"
  using assms
  by (induction rs arbitrary: l)
    (auto simp: after_portion_def portion_schema_def nth_portion_def Let_def)

lemma portion_payloads_not_Nil: "0 < PQntuples r \<Longrightarrow> 0 < w \<Longrightarrow> portion_payloads r w 0 \<noteq> []"
  by (subst portion_payloads.simps) simp

lemma portions_chunks_open:
  assumes "\<forall>r \<in> set rs. 0 < PQntuples r" "0 < w" "ql_schema_open l"
  shows "portions_chunks G w l rs =
    batch_chunks G (ql_schema_meta l) (ql_batch_sent l) (concat (map (\<lambda>r. portion_payloads r w 0) rs))"
  using assms
  by (induction rs arbitrary: l)
    (auto simp: batch_chunks_append after_portion_def portion_schema_def portion_payloads_not_Nil Let_def)

text \<open>The payloads a query's rows are delivered in: at least one batch, an empty one if there are no rows.\<close>

definition delivered_payloads :: "int \<Rightarrow> PGresult list \<Rightarrow> PGresult \<Rightarrow> string list" where
  "delivered_payloads w rs e =
     (if rs = [] then [batch_payload e 0 0] else concat (map (\<lambda>r. portion_payloads r w 0) rs))"

lemma portions_chunks_start:
  assumes "\<forall>r \<in> set rs. 0 < PQntuples r" "0 < w" "rs \<noteq> []" "\<not> ql_schema_open l" "\<not> ql_batch_sent l"
  shows "portions_chunks G w l rs = batch_chunks G (BuildSchemaMeta (nth_portion rs e 0)) False (delivered_payloads w rs e)"
proof -
  obtain r rs' where rs: "rs = r # rs'" using assms(3) by (cases rs) auto
  have "portions_chunks G w (after_portion l r) rs' =
      batch_chunks G (BuildSchemaMeta r) True (concat (map (\<lambda>r. portion_payloads r w 0) rs'))"
    using portions_chunks_open [of rs' w "after_portion l r" G] assms rs
    by (simp add: after_portion_def portion_schema_def Let_def)
  then show ?thesis
    using assms rs
    by (simp add: delivered_payloads_def nth_portion_def portion_schema_def batch_chunks_append portion_payloads_not_Nil)
qed

definition trailer_chunk :: "(flex \<Rightarrow> string) \<Rightarrow> ResultTrailer \<Rightarrow> ResultChunk" where
  "trailer_chunk G trailer =
     \<lparr>chunk_kind = CHUNK_KIND_TRAILER, chunk_meta = EncodeResultTrailer G trailer, chunk_payload = []\<rparr>"

lemma send_trailer_ends:
  assumes coop: "\<forall>h chunk. Write L h chunk" and G: "\<forall>v. G v \<noteq> []" and c: "sq_connection q = Some c" "c \<notin> held s"
  shows "\<exists>q' s'. send_trailer L G l (q, s) = Inr (Return Status_OK, (q', s')) \<and>
    writes (history s') = trailer_chunk G (final_trailer l) # writes (history s)"
proof -
  let ?meta = "EncodeResultTrailer G (final_trailer l)"
  have ne: "?meta \<noteq> []" using G by (simp add: EncodeResultTrailer_def)
  let ?h = "(case ql_last_result l of None \<Rightarrow> [] | Some x \<Rightarrow> [EvClear x]) @ EvWrite (trailer_chunk G (final_trailer l)) True # history s"
  let ?s = "s\<lparr>history := ?h\<rparr>"
  obtain e q' s' where close: "Close L (ql_exec_error l) (q, ?s) = Inr (e, (q', s'))"
    using wp_Close [OF c(1), of ?s L "ql_exec_error l"] c(2) by (auto simp: wp_iff)
  have "writes (history s') = writes ?h" using silent_writes [OF silent_Close close] by simp
  moreover have "send_trailer L G l (q, s) = Inr (Return Status_OK, (q', s'))"
    using ne coop close
    by (cases "ql_last_result l")
      (simp_all add: send_trailer_def WriteResultChunk_def bind_m_def world_m_def Write_m_def PQclear_m_def record_event_def
        trailer_chunk_def Let_def)
  ultimately show ?thesis by (auto split: option.split)
qed

text \<open>The trailer of a delivered query.\<close>

definition delivered_trailer :: "PGresult list \<Rightarrow> PGresult \<Rightarrow> ResultTrailer" where
  "delivered_trailer rs e =
     (let n = (\<Sum>r\<leftarrow>rs. PQntuples r) in
      \<lparr>rt_command_tag = CommandFromStatus (PQcmdStatus (nth_portion rs e 0)) @ '' '' @ to_string n, rt_row_count = n, rt_oid = 0\<rparr>)"

lemma final_trailer_delivered:
  assumes "ql_schema_open l" "ql_schema_meta l = BuildSchemaMeta (nth_portion rs e 0)" "ql_total_rows l = (\<Sum>r\<leftarrow>rs. PQntuples r)"
  shows "final_trailer l = delivered_trailer rs e"
  using assms by (simp add: final_trailer_def delivered_trailer_def ResultTrailer_init_def BuildSchemaMeta_def Let_def)

lemma after_loop_ends:
  assumes coop: "\<forall>h. \<not> IsCancelled L h" "\<forall>h chunk. Write L h chunk" and G: "\<forall>v. G v \<noteq> []"
    and c: "sq_connection q = Some c" "c \<notin> held s"
    and e: "portion_ok w e" "PQntuples e = 0" "0 < w" and rs: "\<forall>r \<in> set rs. 0 < PQntuples r"
  shows "\<exists>q' s'. after_loop L G (after_portions (query_locals_init err) rs e) (q, s) = Inr (Return Status_OK, (q', s')) \<and>
    writes (history s') = trailer_chunk G (delivered_trailer rs e) #
      (if rs = [] then [batch_chunk G (BuildSchemaMeta e) False (batch_payload e 0 0)] else []) @ writes (history s)"
proof -
  let ?l = "after_portions (query_locals_init err) rs e"
  have l: "ql_schema_open ?l" "ql_schema_meta ?l = BuildSchemaMeta (nth_portion rs e 0)"
    "ql_total_rows ?l = (\<Sum>r\<leftarrow>rs. PQntuples r)" "ql_batch_sent ?l \<longleftrightarrow> rs \<noteq> []" "ql_last_result ?l = Some e"
    using after_portions_facts [OF rs e(2), of "query_locals_init err"] by (simp_all add: query_locals_init_def portion_schema_def)
  have trailer: "\<exists>q' s'. send_trailer L G l' (q, t) = Inr (Return Status_OK, (q', s')) \<and>
      writes (history s') = trailer_chunk G (final_trailer l') # writes (history t)"
    if "held t = held s" for l' and t :: "'a shard_world_scheme"
    using send_trailer_ends [OF coop(2) G c(1), of t l'] c(2) that by simp
  show ?thesis
  proof (cases "rs = []")
    case True
    have "EncodeRawPgBatch (Some e) 0 0 = Inr (batch_payload e 0 0)"
      by (rule portion_batch [OF e(1)]) (use e in simp_all)
    from yields_send_batch [OF coop this, of c G ?l q s] obtain es where
      run: "send_batch L G (Some e) 0 0 ?l (q, s) = Inr (Next (sent_rows ?l 0), (q, s\<lparr>history := es @ history s\<rparr>))"
      and out: "writes es = [batch_chunk G (BuildSchemaMeta e) False (batch_payload e 0 0)]"
      using l True by (auto simp: yields_def nth_portion_def rev_swap)
    have "final_trailer (sent_rows ?l 0) = delivered_trailer rs e"
      by (rule final_trailer_delivered) (use l in simp_all)
    with trailer [of "s\<lparr>history := es @ history s\<rparr>" "sent_rows ?l 0"] run out l True show ?thesis
      by (auto simp: after_loop_def bind_m_def)
  next
    case False
    with trailer [of s ?l] l final_trailer_delivered [OF l(1-3)] show ?thesis by (auto simp: after_loop_def)
  qed
qed

lemma stream_rows_delivers:
  assumes coop: "\<forall>h. \<not> IsCancelled L h" "\<forall>h chunk. Write L h chunk" and G: "\<forall>v. G v \<noteq> []" and w: "0 < w"
    and q: "fetching q c sql" "c \<notin> held s" and ans: "cursor_answers L c sql (history s) rs e"
    and ok: "\<forall>r \<in> set rs. portion_ok w r \<and> 0 < PQntuples r" "portion_ok w e" "PQntuples e = 0"
    and fuel: "length rs + 2 \<le> fuel"
  shows "\<exists>q' s'. stream_rows L G w fuel err (q, s) = Inr (Status_OK, (q', s')) \<and>
    writes (history s') = rev (batch_chunks G (BuildSchemaMeta (nth_portion rs e 0)) False (delivered_payloads w rs e) @
      [trailer_chunk G (delivered_trailer rs e)]) @ writes (history s)"
proof -
  let ?l = "query_locals_init err"
  have l: "\<not> ql_schema_open ?l" "\<not> ql_batch_sent ?l" by (simp_all add: query_locals_init_def)
  have pos: "\<forall>r \<in> set rs. 0 < PQntuples r" using ok(1) by simp
  have fuel': "length rs + (if ql_schema_open ?l \<or> rs \<noteq> [] then 1 else 2) \<le> fuel" using fuel by simp
  obtain es where loop: "stream_loop L G w fuel ?l (q, s) = Inr (Next (after_portions ?l rs e), (q, s\<lparr>history := es @ history s\<rparr>))"
    and out: "rev (writes es) = portions_chunks G w ?l rs"
    using yields_stream_loop [OF coop w q ans ok fuel', of G] by (auto simp: yields_def)
  have c: "sq_connection q = Some c" using q(1) by (simp add: fetching_def)
  from after_loop_ends [OF coop G c _ ok(2,3) w pos, of "s\<lparr>history := es @ history s\<rparr>" err] q(2) obtain q' s' where
    run: "after_loop L G (after_portions ?l rs e) (q, s\<lparr>history := es @ history s\<rparr>) = Inr (Return Status_OK, (q', s'))"
    and wr: "writes (history s') = trailer_chunk G (delivered_trailer rs e) #
      (if rs = [] then [batch_chunk G (BuildSchemaMeta e) False (batch_payload e 0 0)] else []) @ writes es @ writes (history s)"
    by auto
  have "stream_rows L G w fuel err (q, s) = Inr (Status_OK, (q', s'))"
    using loop run by (simp add: stream_rows_def bind_m_def finish_stream_def)
  moreover have "writes es = rev (if rs = [] then [] else
      batch_chunks G (BuildSchemaMeta (nth_portion rs e 0)) False (delivered_payloads w rs e))"
    using out portions_chunks_start [OF pos w _ l, of G e] by (auto simp: rev_swap)
  ultimately show ?thesis
    using wr by (auto simp: delivered_payloads_def nth_portion_def)
qed

section \<open>What the client reads\<close>

text \<open>The row objects of a result, under the given field descriptions.\<close>

definition result_rows ::
    "(FieldInfo \<Rightarrow> string \<Rightarrow> 'v) \<Rightarrow> FieldInfo list \<Rightarrow> PGresult \<Rightarrow> int list \<Rightarrow> (string \<rightharpoonup> 'v option) list" where
  "result_rows conv fs r =
     map (\<lambda>row. row_object (\<lambda>col. conv (fs ! col)) (map fi_name fs) (\<lambda>col. pg_cell r row (int col)))"

text \<open>The conversion of every cell of a result succeeds, with the value \<open>val\<close> gives.\<close>

definition result_converts :: "(FieldInfo \<Rightarrow> string \<Rightarrow> 'v cxx) \<Rightarrow> (FieldInfo \<Rightarrow> string \<Rightarrow> 'v) \<Rightarrow> FieldInfo list \<Rightarrow> PGresult \<Rightarrow> bool" where
  "result_converts conv val fs r \<longleftrightarrow>
     (\<forall>row col. 0 \<le> row \<and> row < PQntuples r \<and> col < length fs \<longrightarrow> converts (conv (fs ! col)) (val (fs ! col)) (pg_cell r row (int col)))"

lemma payload_rows_batch:
  assumes ok: "portion_ok w r" and range: "0 \<le> b" "b \<le> e" "e \<le> PQntuples r" "e - b \<le> w"
    and cols: "int (length (rs_fields schema)) = PQnfields r" and conv: "result_converts conv val (rs_fields schema) r"
  shows "payload_rows conv schema (batch_payload r b e) = Inr (result_rows val (rs_fields schema) r [b..e - 1])"
proof -
  note B = portion_batch [OF ok range]
  have "pgresult_wf r" using ok by (simp add: portion_ok_def)
  from decode_EncodeRawPgBatch [OF this B(1,2), of "map fi_name (rs_fields schema)" "\<lambda>col. conv (rs_fields schema ! col)"
      "\<lambda>col. val (rs_fields schema ! col)"] B(3) cols conv range show ?thesis
    by (simp add: payload_rows_def result_rows_def result_converts_def)
qed

lemma portion_payloads_rows:
  assumes ok: "portion_ok w r" "0 < w" and cols: "int (length (rs_fields schema)) = PQnfields r" and conv: "result_converts conv val (rs_fields schema) r"
    and "0 \<le> b"
  shows "(\<forall>p \<in> set (portion_payloads r w b). payload_rows conv schema p = Inr (projr (payload_rows conv schema p))) \<and>
    concat (map (\<lambda>p. projr (payload_rows conv schema p)) (portion_payloads r w b)) =
      result_rows val (rs_fields schema) r [b..PQntuples r - 1]"
  using assms(5)
proof (induction "nat (PQntuples r - b)" arbitrary: b rule: less_induct)
  case less
  show ?case
  proof (cases "b < PQntuples r")
    case True
    let ?e = "min (b + w) (PQntuples r)"
    have first: "payload_rows conv schema (batch_payload r b ?e) = Inr (result_rows val (rs_fields schema) r [b..?e - 1])"
      by (rule payload_rows_batch [OF ok(1) _ _ _ _ cols conv]) (use True ok less.prems in simp_all)
    have rest: "(\<forall>p \<in> set (portion_payloads r w (b + w)). payload_rows conv schema p = Inr (projr (payload_rows conv schema p))) \<and>
      concat (map (\<lambda>p. projr (payload_rows conv schema p)) (portion_payloads r w (b + w))) =
        result_rows val (rs_fields schema) r [b + w..PQntuples r - 1]"
      by (rule less.hyps) (use True ok less.prems in simp_all)
    have "[b..PQntuples r - 1] = [b..?e - 1] @ [b + w..PQntuples r - 1]"
      using True ok(2) upto_split1 [of b "b + w" "PQntuples r - 1"]
      by (cases "b + w = PQntuples r") (auto simp: min_def)
    with first rest True ok(2) show ?thesis
      by (subst (1 2) portion_payloads.simps) (simp add: result_rows_def)
  next
    case False
    then show ?thesis by (subst (1 2) portion_payloads.simps) (simp add: result_rows_def)
  qed
qed

lemma concat_map_concat:
  "\<forall>x \<in> set xs. concat (map f (g x)) = h x \<Longrightarrow> concat (map f (concat (map g xs))) = concat (map h xs)"
  by (induction xs) auto

lemma delivered_payloads_rows:
  assumes ok: "\<forall>r \<in> set rs. portion_ok w r \<and> 0 < PQntuples r" "portion_ok w e" "PQntuples e = 0" and w: "0 < w"
    and cols: "\<forall>r \<in> set (e # rs). int (length (rs_fields schema)) = PQnfields r"
    and conv: "\<forall>r \<in> set rs. result_converts conv val (rs_fields schema) r"
  shows "(\<forall>p \<in> set (delivered_payloads w rs e). payload_rows conv schema p = Inr (projr (payload_rows conv schema p))) \<and>
    concat (map (\<lambda>p. projr (payload_rows conv schema p)) (delivered_payloads w rs e)) =
      concat (map (\<lambda>r. result_rows val (rs_fields schema) r [0..PQntuples r - 1]) rs)"
proof (cases "rs = []")
  case True
  have "payload_rows conv schema (batch_payload e 0 0) = Inr (result_rows val (rs_fields schema) e [0..0 - 1])"
    by (rule payload_rows_batch [OF ok(2)]) (use ok w cols in \<open>auto simp: result_converts_def\<close>)
  with True show ?thesis by (simp add: delivered_payloads_def result_rows_def)
next
  case False
  have "\<forall>r \<in> set rs. (\<forall>p \<in> set (portion_payloads r w 0). payload_rows conv schema p = Inr (projr (payload_rows conv schema p))) \<and>
    concat (map (\<lambda>p. projr (payload_rows conv schema p)) (portion_payloads r w 0)) =
      result_rows val (rs_fields schema) r [0..PQntuples r - 1]"
    by (intro ballI, rule portion_payloads_rows [OF _ w]) (use ok(1) cols conv in auto)
  with False show ?thesis
    by (auto simp: delivered_payloads_def concat_map_concat)
qed

lemma Open_fetching:
  assumes free: "held s = {}" and sql: "IsTupleStreamingSql (qr_text request)"
    and run: "Open L request err (StreamingQuery_init d k, s) = Inr ((True, err'), (q, s1))" and c: "sq_connection q = Some c"
  shows "fetching q c (c_str (fetch_text (sq_fetch_size q) (sq_cursor_name q)))" "c \<notin> held s1" "writes (history s1) = writes (history s)"
proof -
  have quiet: "writes (history s1) = writes (history s)" using silent_writes [OF silent_Open run] by simp
  have "fetching q c (c_str (fetch_text (sq_fetch_size q) (sq_cursor_name q))) \<and> c \<notin> held s1"
  proof (cases "Execute_acquire L d request err s")
    case (Inl b)
    with run show ?thesis by (simp add: Open_def bind_m_def upd_q_def AcquireConnection_eq StreamingQuery_init_def)
  next
    case (Inr x)
    obtain r err0 s0 where x: "x = ((r, err0), s0)" by (cases x) auto
    with Inr have acq: "Execute_acquire L d request err s = Inr ((r, err0), s0)" by simp
    then obtain c0 where r: "r = Some c0"
      using Open_not_acquired [of L d request err s err0 s0 k] run by (cases r) auto
    note acq = acq [unfolded r]
    have free0: "c0 \<notin> held s0" using Execute_acquire_frame [OF acq] free by simp
    have "OpenCursor L request err0 (acquired d k request c0, s0) = Inr ((True, err'), (q, s1))"
      using run Open_cursor_acquired [OF acq sql, of k] by simp
    from OpenCursor_spec [OF _ free0 _ this] c sql free0 show ?thesis by (simp add: fetching_def)
  qed
  with quiet show "fetching q c (c_str (fetch_text (sq_fetch_size q) (sq_cursor_name q)))" "c \<notin> held s1"
    "writes (history s1) = writes (history s)" by simp_all
qed

text \<open>
  The hypotheses on the outside: a client that reads to the end; a cursor with these portions, of format codes of 32 bits
  and of at most \<open>2 ^ 53\<close> rows in all; and FlexBuffers, which gives back the two trees of metadata that are sent, as it does for all it can
  hold (\<open>flex_codec\<close>).
\<close>

definition delivery ::
    "libpq \<Rightarrow> (flex \<Rightarrow> string) \<Rightarrow> (string \<Rightarrow> flex) \<Rightarrow> int \<Rightarrow> conn \<Rightarrow> StreamingQuery \<Rightarrow> history \<Rightarrow> PGresult list \<Rightarrow> PGresult \<Rightarrow> bool" where
  "delivery L G toObject w c q g rs e \<longleftrightarrow>
     (\<forall>h. \<not> IsCancelled L h) \<and> (\<forall>h chunk. Write L h chunk) \<and> (\<forall>v. G v \<noteq> []) \<and>
     reads_back G toObject (schema_tree (BuildSchemaMeta (nth_portion rs e 0))) \<and> reads_back G toObject (trailer_tree (delivered_trailer rs e)) \<and>
     int32_fields (BuildSchemaMeta (nth_portion rs e 0)) \<and> (\<Sum>r\<leftarrow>rs. PQntuples r) \<le> 2 ^ 53 \<and>
     cursor_answers L c (c_str (fetch_text (sq_fetch_size q) (sq_cursor_name q))) g rs e \<and>
     (\<forall>r \<in> set rs. portion_ok w r \<and> 0 < PQntuples r \<and> PQnfields r = PQnfields e) \<and> portion_ok w e \<and> PQntuples e = 0"

lemma wp_destroy_stream: "wp destroy_stream (\<lambda>_ _. True) (q, s)"
  by (simp add: destroy_stream_def wp_simps split: option.split)

lemma length_result_rows:
  "\<forall>r \<in> set rs. 0 < PQntuples r \<Longrightarrow>
     int (length (concat (map (\<lambda>r. result_rows val fs r [0..PQntuples r - 1]) rs))) = (\<Sum>r\<leftarrow>rs. PQntuples r)"
  by (induction rs) (auto simp: result_rows_def)

lemma delivered_chunks_decode:
  assumes flex: "reads_back G toObject (schema_tree (BuildSchemaMeta (nth_portion rs e 0)))"
      "reads_back G toObject (trailer_tree (delivered_trailer rs e))" "\<forall>v. G v \<noteq> []"
    and numbers: "int32_fields (BuildSchemaMeta (nth_portion rs e 0))" "(\<Sum>r\<leftarrow>rs. PQntuples r) \<le> 2 ^ 53" and w: "0 < w"
    and ok: "\<forall>r \<in> set rs. portion_ok w r \<and> 0 < PQntuples r" "portion_ok w e" "PQntuples e = 0"
    and cols: "\<forall>r \<in> set rs. PQnfields r = PQnfields e"
    and conv: "\<forall>r \<in> set rs. result_converts conv val (rs_fields (c_str_schema (BuildSchemaMeta (nth_portion rs e 0)))) r"
  shows "\<exists>res. decodeQueryStreamToPgResult toObject conv (batch_chunks G (BuildSchemaMeta (nth_portion rs e 0)) False
        (delivered_payloads w rs e) @ [trailer_chunk G (delivered_trailer rs e)]) = Inr res \<and>
    res_fields res = rs_fields (c_str_schema (BuildSchemaMeta (nth_portion rs e 0))) \<and>
    res_rows res = concat (map (\<lambda>r. result_rows val (res_fields res) r [0..PQntuples r - 1]) rs) \<and>
    res_rowCount res = int (length (res_rows res))"
proof -
  let ?schema = "BuildSchemaMeta (nth_portion rs e 0)"
  let ?fs = "rs_fields (c_str_schema ?schema)" and ?rows = "\<lambda>p. projr (payload_rows conv (c_str_schema ?schema) p)"
  have "PQnfields (nth_portion rs e 0) = PQnfields e"
    using bspec [OF cols, of "rs ! 0"] by (cases rs) (simp_all add: nth_portion_def)
  then have "int (length ?fs) = PQnfields e"
    using ok(2) by (simp add: c_str_schema_def BuildSchemaMeta_def portion_ok_def)
  then have len: "\<forall>r \<in> set (e # rs). int (length ?fs) = PQnfields r"
    using cols by (metis set_ConsD)
  note P = delivered_payloads_rows [OF ok w len conv]
  have read: "payload_rows conv (c_str_schema ?schema) p = Inr (?rows p)" if "p \<in> set (delivered_payloads w rs e)" for p
    using P that by blast
  have "delivered_payloads w rs e \<noteq> []"
    using ok(1) w by (cases rs) (simp_all add: delivered_payloads_def portion_payloads_not_Nil)
  moreover have "0 \<le> (\<Sum>r\<leftarrow>rs. PQntuples r)" using ok(1) by (intro sum_list_nonneg) auto
  then have "\<bar>rt_row_count (delivered_trailer rs e)\<bar> \<le> 2 ^ 53" using numbers(2) by (simp add: delivered_trailer_def Let_def)
  ultimately have read_all: "decodeQueryStreamToPgResult toObject conv (batch_chunks G ?schema False (delivered_payloads w rs e) @
      [\<lparr>chunk_kind = CHUNK_KIND_TRAILER, chunk_meta = EncodeResultTrailer G (delivered_trailer rs e), chunk_payload = []\<rparr>]) = Inr \<lparr>res_command =
      commandFromTag (Some (c_str (rt_command_tag (delivered_trailer rs e)))) (Some (c_str (rs_command ?schema))),
      res_rowCount = rt_row_count (delivered_trailer rs e),
      res_oid = (if rt_oid (delivered_trailer rs e) = 0 then None else Some (uint (rt_oid (delivered_trailer rs e)))), res_fields = ?fs,
      res_rows = concat (map ?rows (delivered_payloads w rs e))\<rparr>"
    by (intro read_schema_and_batches [OF flex numbers(1) _ read]) simp_all
  then have "decodeQueryStreamToPgResult toObject conv (batch_chunks G ?schema False (delivered_payloads w rs e) @
        [trailer_chunk G (delivered_trailer rs e)]) = Inr \<lparr>res_command =
      commandFromTag (Some (c_str (rt_command_tag (delivered_trailer rs e)))) (Some (c_str (rs_command ?schema))),
      res_rowCount = rt_row_count (delivered_trailer rs e), res_oid = None, res_fields = ?fs,
      res_rows = concat (map ?rows (delivered_payloads w rs e))\<rparr>"
    by (simp add: trailer_chunk_def delivered_trailer_def Let_def)
  moreover have "rt_row_count (delivered_trailer rs e) =
      int (length (concat (map (\<lambda>r. result_rows val ?fs r [0..PQntuples r - 1]) rs)))"
    using length_result_rows [of rs val ?fs] ok(1) by (simp add: delivered_trailer_def Let_def)
  ultimately show ?thesis using conjunct2 [OF P] by simp
qed

text \<open>C1: end to end, the client gets the rows of the query. For a query that is accepted and whose cursor
  opens, if PostgreSQL's cursor yields the portions \<open>rs\<close> and then nothing, and the client reads to the end,
  then with fuel for the portions and two more fetches \<open>QueryStream\<close> returns \<open>OK\<close>, and the client's reader,
  run on the chunks written in this call, returns every row of every portion, in order, each cell with its
  exact bytes converted (the conversion, which may throw, succeeds on these cells with the values \<open>val\<close>) or null, under the field descriptions of
  the first result, with the number of rows; the batches may be of any size.\<close>

theorem QueryStream_delivers_rows:
  assumes free: "held s = {}" and accepted: "\<not> query_refused config request" "executor s \<noteq> None" "connect_params s = Some d"
    and sql: "IsTupleStreamingSql (qr_text request)"
    and opened: "Open L request (Some []) (StreamingQuery_init d (fetch_rows_of config), s) = Inr ((True, err), (q, s1))"
    and outside: "sq_connection q = Some c" "delivery L G toObject (wire_rows_of config) c q (history s1) rs e"
    and conv: "\<forall>r \<in> set rs. result_converts conv val (rs_fields (c_str_schema (BuildSchemaMeta (nth_portion rs e 0)))) r"
    and fuel: "length rs + 2 \<le> fuel"
  shows "\<exists>s' chunks res. QueryStream L G config fuel request s = Inr (Status_OK, s') \<and>
    rev (writes (history s')) = rev (writes (history s)) @ chunks \<and>
    decodeQueryStreamToPgResult toObject conv chunks = Inr res \<and>
    res_fields res = rs_fields (c_str_schema (BuildSchemaMeta (nth_portion rs e 0))) \<and>
    res_rows res = concat (map (\<lambda>r. result_rows val (res_fields res) r [0..PQntuples r - 1]) rs) \<and>
    res_rowCount res = int (length (res_rows res))"
proof -
  let ?w = "wire_rows_of config" and ?schema = "BuildSchemaMeta (nth_portion rs e 0)"
  let ?chunks = "batch_chunks G ?schema False (delivered_payloads ?w rs e) @ [trailer_chunk G (delivered_trailer rs e)]"
  have D: "\<forall>h. \<not> IsCancelled L h" "\<forall>h chunk. Write L h chunk" "\<forall>v. G v \<noteq> []"
    "cursor_answers L c (c_str (fetch_text (sq_fetch_size q) (sq_cursor_name q))) (history s1) rs e"
    and M: "reads_back G toObject (schema_tree ?schema)" "reads_back G toObject (trailer_tree (delivered_trailer rs e))"
      "int32_fields ?schema" "(\<Sum>r\<leftarrow>rs. PQntuples r) \<le> 2 ^ 53"
    and ok: "\<forall>r \<in> set rs. portion_ok ?w r \<and> 0 < PQntuples r" "portion_ok ?w e" "PQntuples e = 0"
    and cols: "\<forall>r \<in> set rs. PQnfields r = PQnfields e"
    using outside(2) by (simp_all add: delivery_def)
  have w: "0 < ?w" by (simp add: wire_rows_of_def)
  note O = Open_fetching [OF free sql opened outside(1)]
  obtain q2 s2 where rows: "stream_rows L G ?w fuel err (q, s1) = Inr (Status_OK, (q2, s2))"
    and out: "writes (history s2) = rev ?chunks @ writes (history s1)"
    using stream_rows_delivers [OF D(1,2,3) w O(1,2) D(4) ok fuel] by blast
  obtain q3 s3 where destroy: "destroy_stream (q2, s2) = Inr ((), (q3, s3))"
    using wp_destroy_stream [of q2 s2] by (auto simp: wp_iff)
  then have "writes (history s3) = writes (history s2)" using silent_writes [OF silent_destroy] by fastforce
  moreover have "QueryStream L G config fuel request s = Inr (Status_OK, s3)"
    using QueryStream_runs [OF accepted, of L G fuel] opened rows destroy
    by (simp add: with_stream_def run_query_def bind_m_def)
  moreover note delivered_chunks_decode [OF M(1,2) D(3) M(3,4) w ok cols conv]
  ultimately show ?thesis using out O(3) by (intro exI [of _ s3] exI [of _ ?chunks]) auto
qed

text \<open>The concrete outside: two rows of one column, the second one null.\<close>

definition demo_rows :: "string option list list" where
  "demo_rows = [[Some ''7''], [None]]"

definition demo_portion :: PGresult where
  "demo_portion = tuples_result ''FETCH 2'' [''x''] demo_rows"

definition demo_end :: PGresult where
  "demo_end = tuples_result ''FETCH 0'' [''x''] []"

definition cursor_libpq :: libpq where
  "cursor_libpq = (demo_libpq [])\<lparr>PQexec := (\<lambda>h c sql. if starts_with ''FETCH'' sql
     then Some (nth_portion [demo_portion] demo_end (count_list (statements c h) sql)) else demo_exec [] h c sql)\<rparr>"

lemma demo_portions: "portion_ok 1000 demo_portion" "portion_ok 1000 demo_end"
proof -
  have "pgresult_wf demo_portion" "pgresult_wf demo_end"
    unfolding demo_portion_def demo_end_def
    by (rule tuples_result_wf; auto simp: demo_rows_def INT_MAX_def)+
  then show "portion_ok 1000 demo_portion" "portion_ok 1000 demo_end"
    by (simp_all add: portion_ok_def demo_portion_def demo_end_def demo_rows_def INT_MAX_def)
qed

lemma cursor_libpq_answers:
  assumes "starts_with ''FETCH'' sql" "sql \<notin> set (statements c g)"
  shows "cursor_answers cursor_libpq c sql g [demo_portion] demo_end"
  using assms by (simp add: cursor_answers_def cursor_libpq_def count_list_append)

lemma demo_acquired:
  obtains s0 where "Execute_acquire cursor_libpq ConnectParams_init demo_request (Some []) demo_shard = Inr ((Some 0, Some []), s0)"
    and "held s0 = {}" and "statements 0 (history s0) = [''SELECT 1'']" and "g_cursor_counter s0 = 0"
proof -
  have "wp (Acquire cursor_libpq) (\<lambda>r s'. r = Some 0 \<and> statements 0 (history s') = [''SELECT 1''] \<and> g_cursor_counter s' = 0) demo_shard"
    by (simp add: Acquire_def wp_basic wp_def [of Acquire_enter] Acquire_enter_def demo_shard_def shard_init_def
        ConnectionManager_init_def Acquire_create_def CreateConnection_def PqConnection_Connect_def ConnectParams_init_def
        wp_ApplyStatementTimeout wp_simps cursor_libpq_def demo_eval result_status_def)
  then obtain s0 where run: "Acquire cursor_libpq demo_shard = Inr (Some 0, s0)"
    and s0: "statements 0 (history s0) = [''SELECT 1'']" "g_cursor_counter s0 = 0"
    by (auto simp: wp_iff)
  then have acq: "Execute_acquire cursor_libpq ConnectParams_init demo_request (Some []) demo_shard = Inr ((Some 0, Some []), s0)"
    by (simp add: Execute_acquire_def demo_request_def bind_m_def)
  have "held s0 = {}" using Acquire_held [OF run] by (simp add: demo_shard_def shard_init_def)
  then show thesis using acq s0 by (intro that)
qed

lemma starts_with_fetch: "starts_with ''FETCH'' (c_str (fetch_text n name))"
  by (simp add: fetch_text_def c_str_def starts_with_def)

lemma ball_append_pair:
  "xs = ys @ [x] \<Longrightarrow> set ys \<subseteq> {y, z} \<Longrightarrow> \<not> P z \<Longrightarrow> \<not> P y \<Longrightarrow> \<not> P x \<Longrightarrow> \<forall>v \<in> set xs. \<not> P v"
  by auto

lemma demo_opened:
  obtains q s1 where "Open cursor_libpq demo_request (Some []) (StreamingQuery_init ConnectParams_init 10000, demo_shard) =
      Inr ((True, Some []), (q, s1))"
    and "sq_connection q = Some 0" and "\<forall>sql \<in> set (statements 0 (history s1)). \<not> starts_with ''FETCH'' sql"
proof -
  obtain s0 where acq: "Execute_acquire cursor_libpq ConnectParams_init demo_request (Some []) demo_shard = Inr ((Some 0, Some []), s0)"
    and s0: "held s0 = {}" "statements 0 (history s0) = [''SELECT 1'']" "g_cursor_counter s0 = 0"
    by (rule demo_acquired)
  have "wp (OpenCursor cursor_libpq demo_request (Some [])) (\<lambda>r _. r = (True, Some [])) (acquired ConnectParams_init 10000 demo_request 0, s0)"
    using s0(1) by (simp add: OpenCursor_def wp_simps wp_BeginIfNeeded wp_DeclareCursor declare_result_def cursor_libpq_def demo_libpq_def
        demo_exec_def starts_with_def result_status_def command_result_def Let_def)
  then obtain q s1 where run: "OpenCursor cursor_libpq demo_request (Some []) (acquired ConnectParams_init 10000 demo_request 0, s0)
      = Inr ((True, Some []), (q, s1))" by (auto simp: wp_iff)
  have "0 \<notin> held s0" using s0 by simp
  note O = OpenCursor_spec [OF _ this _ run]
  have ext: "extends (history s0) (history s1)"
    and script: "rev (statements 0 (events_since (history s0) (history s1))) =
      (if sq_started_local_txn q then [''BEGIN''] else []) @ [declare_sql s0 demo_request]"
    using O by simp_all
  then have "statements 0 (history s1) = statements 0 (events_since (history s0) (history s1)) @ [''SELECT 1'']"
    using s0 by (auto simp: extends_def)
  moreover have "set (statements 0 (events_since (history s0) (history s1))) \<subseteq> {''BEGIN'', declare_sql s0 demo_request}"
    using arg_cong [where f = set, OF script] by (auto split: if_splits)
  moreover have "\<not> starts_with ''FETCH'' (declare_sql s0 demo_request)" "\<not> starts_with ''FETCH'' ''BEGIN''"
    "\<not> starts_with ''FETCH'' ''SELECT 1''"
    by (simp_all add: declare_sql_def declare_text_def c_str_def starts_with_def)
  ultimately have "\<forall>sql \<in> set (statements 0 (history s1)). \<not> starts_with ''FETCH'' sql"
    by (rule ball_append_pair)
  then show thesis
    by (intro that [of q s1]) (use O run in \<open>simp_all add: Open_cursor_acquired [OF acq]\<close>)
qed

lemma demo_accepted: "\<not> query_refused ServerConfig_init demo_request"
  by (simp add: query_refused_def host_refused_def demo_request_def ServerConfig_init_def cast_int32_def)

theorem QueryStream_delivers_rows_witness:
  "\<exists>G toObject s' chunks res. QueryStream cursor_libpq G ServerConfig_init 3 demo_request demo_shard = Inr (Status_OK, s') \<and>
    rev (writes (history s')) = chunks \<and> decodeQueryStreamToPgResult toObject (\<lambda>_. Inr) chunks = Inr res \<and>
    res_rows res = [[''x'' \<mapsto> Some ''7''], [''x'' \<mapsto> None]] \<and> res_rowCount res = 2"
proof -
  let ?G = "\<lambda>v :: flex. CHR ''x'' # replicate (to_nat v) (CHR ''x'')"
  let ?obj = "\<lambda>s :: string. from_nat (length s - 1) :: flex"
  obtain q s1 where opened: "Open cursor_libpq demo_request (Some []) (StreamingQuery_init ConnectParams_init 10000, demo_shard) =
      Inr ((True, Some []), (q, s1))"
    and q: "sq_connection q = Some 0" "\<forall>sql \<in> set (statements 0 (history s1)). \<not> starts_with ''FETCH'' sql"
    by (rule demo_opened)
  have rows: "fetch_rows_of ServerConfig_init = 10000" "wire_rows_of ServerConfig_init = 1000"
    by (simp_all add: fetch_rows_of_def wire_rows_of_def ServerConfig_init_def)
  have "cursor_answers cursor_libpq 0 (c_str (fetch_text (sq_fetch_size q) (sq_cursor_name q))) (history s1) [demo_portion] demo_end"
    by (rule cursor_libpq_answers) (use q(2) starts_with_fetch in auto)
  moreover have meta: "reads_back ?G ?obj v" "int32_fields (BuildSchemaMeta demo_portion)" for v
    by (simp_all add: reads_back_def int32_fields_def BuildSchemaMeta_def build_field_def demo_portion_def tuples_result_def)
  ultimately have out: "delivery cursor_libpq ?G ?obj (wire_rows_of ServerConfig_init) 0 q (history s1) [demo_portion] demo_end"
    using demo_portions rows meta
    by (simp add: delivery_def nth_portion_def cursor_libpq_def demo_libpq_def demo_portion_def demo_end_def demo_rows_def)
  have conv: "result_converts (\<lambda>_. Inr) (\<lambda>_ bytes. bytes) fs r" for fs r by (simp add: result_converts_def converts_def)
  have shard: "held demo_shard = {}" "executor demo_shard \<noteq> None" "connect_params demo_shard = Some ConnectParams_init"
    "writes (history demo_shard) = []"
    by (simp_all add: demo_shard_def shard_init_def)
  from QueryStream_delivers_rows [OF shard(1) demo_accepted shard(2,3) demo_request_streams opened [folded rows(1)] q(1) out,
      of "\<lambda>_. Inr" "\<lambda>_ bytes. bytes" 3] conv shard(4)
  obtain s' chunks res where run: "QueryStream cursor_libpq ?G ServerConfig_init 3 demo_request demo_shard = Inr (Status_OK, s')"
      "rev (writes (history s')) = chunks" "decodeQueryStreamToPgResult ?obj (\<lambda>_. Inr) chunks = Inr res"
    and res: "res_fields res = rs_fields (c_str_schema (BuildSchemaMeta demo_portion))"
      "res_rows res = result_rows (\<lambda>_ bytes. bytes) (res_fields res) demo_portion [0..PQntuples demo_portion - 1]"
      "res_rowCount res = int (length (res_rows res))"
    by (auto simp: nth_portion_def)
  have fs: "map fi_name (res_fields res) = [''x'']"
    by (simp add: res(1) c_str_schema_def BuildSchemaMeta_def build_field_def demo_portion_def tuples_result_def c_str_def)
  have "res_rows res = [[''x'' \<mapsto> Some ''7''], [''x'' \<mapsto> None]]"
    unfolding res(2) result_rows_def fs
    by (simp add: row_object_def pg_cell_def demo_portion_def demo_rows_def tuples_result_def upto_rec1 upt_rec)
  with run res(3) show ?thesis by (intro exI conjI) simp_all
qed

lemma demo_QueryStream: "\<exists>s'. QueryStream cursor_libpq (\<lambda>_. ''m'') ServerConfig_init 3 demo_request demo_shard = Inr (Status_OK, s')"
proof -
  obtain q s1 where opened: "Open cursor_libpq demo_request (Some []) (StreamingQuery_init ConnectParams_init 10000, demo_shard) =
      Inr ((True, Some []), (q, s1))"
    and q: "sq_connection q = Some 0" "\<forall>sql \<in> set (statements 0 (history s1)). \<not> starts_with ''FETCH'' sql"
    by (rule demo_opened)
  have rows: "fetch_rows_of ServerConfig_init = 10000" "wire_rows_of ServerConfig_init = 1000"
    by (simp_all add: fetch_rows_of_def wire_rows_of_def ServerConfig_init_def)
  have shard: "held demo_shard = {}" "executor demo_shard \<noteq> None" "connect_params demo_shard = Some ConnectParams_init"
    by (simp_all add: demo_shard_def shard_init_def)
  have L: "\<forall>h. \<not> IsCancelled cursor_libpq h" "\<forall>h chunk. Write cursor_libpq h chunk"
    by (simp_all add: cursor_libpq_def demo_libpq_def)
  note O = Open_fetching [OF shard(1) demo_request_streams opened q(1)]
  have "cursor_answers cursor_libpq 0 (c_str (fetch_text (sq_fetch_size q) (sq_cursor_name q))) (history s1) [demo_portion] demo_end"
    by (rule cursor_libpq_answers) (use q(2) starts_with_fetch in auto)
  from stream_rows_delivers [OF L _ _ O(1,2) this, of "\<lambda>_. ''m''" 1000 3 "Some []"] demo_portions
  obtain q2 s2 where stream: "stream_rows cursor_libpq (\<lambda>_. ''m'') 1000 3 (Some []) (q, s1) = Inr (Status_OK, (q2, s2))"
    by (auto simp: demo_portion_def demo_end_def demo_rows_def)
  obtain q3 s3 where "destroy_stream (q2, s2) = Inr ((), (q3, s3))"
    using wp_destroy_stream [of q2 s2] by (auto simp: wp_iff)
  with QueryStream_runs [OF demo_accepted shard(2,3), of cursor_libpq "\<lambda>_. ''m''" 3] opened stream rows
  show ?thesis by (simp add: with_stream_def run_query_def bind_m_def)
qed

end
