(* ===== verification/Chunk_Protocol.thy ===== *)
theory Chunk_Protocol
  imports Query_Delivery
begin

text \<open>
  The order of the chunks of a query, whatever happens: the reader in
  \<open>src/integration/lib/grpc-query-client.js\<close> and the comments of \<open>src/proto/mtdd.proto\<close> rely on it. The
  protocol is a small automaton over the kinds of chunks.
\<close>

section \<open>The protocol\<close>

datatype phase = Start | Rows | Done

fun next_phase :: "phase \<Rightarrow> ChunkKind \<Rightarrow> phase option" where
  "next_phase Start CHUNK_KIND_SCHEMA = Some Rows"
| "next_phase Rows CHUNK_KIND_BATCH = Some Rows"
| "next_phase ph CHUNK_KIND_TRAILER = (if ph = Done then None else Some Done)"
| "next_phase ph CHUNK_KIND_ERROR = (if ph = Done then None else Some Done)"
| "next_phase ph kind = None"

fun phase_after :: "phase \<Rightarrow> ChunkKind list \<Rightarrow> phase option" where
  "phase_after ph [] = Some ph"
| "phase_after ph (kind # kinds) = (case next_phase ph kind of None \<Rightarrow> None | Some ph' \<Rightarrow> phase_after ph' kinds)"

lemma phase_after_snoc:
  "phase_after ph (kinds @ [kind]) = (case phase_after ph kinds of None \<Rightarrow> None | Some ph' \<Rightarrow> next_phase ph' kind)"
  by (induction ph kinds rule: phase_after.induct) (auto split: option.split)

text \<open>The phase a query has reached since the chunks \<open>W\<close> were written, with all writes successful so far.\<close>

definition in_phase :: "(ResultChunk \<times> bool) list \<Rightarrow> phase \<Rightarrow> 'q \<times> 'a pg_world_scheme \<Rightarrow> bool" where
  "in_phase W ph p \<longleftrightarrow> (\<exists>cs. attempts (history (snd p)) = rev (map (\<lambda>c. (c, True)) cs) @ W \<and> phase_after Start (map chunk_kind cs) = Some ph)"

text \<open>The chunks of a query that is over: a write that failed was the last one.\<close>

definition over :: "(ResultChunk \<times> bool) list \<Rightarrow> phase \<Rightarrow> 'q \<times> 'a pg_world_scheme \<Rightarrow> bool" where
  "over W ph p \<longleftrightarrow> (\<exists>cs. attempts (history (snd p)) = rev cs @ W \<and> phase_after Start (map (chunk_kind \<circ> fst) cs) = Some ph \<and>
     (\<forall>c \<in> set (butlast cs). snd c))"

lemma in_phase_over: "in_phase W ph p \<Longrightarrow> over W ph p"
proof -
  assume "in_phase W ph p"
  then obtain cs where cs: "attempts (history (snd p)) = rev (map (\<lambda>c. (c, True)) cs) @ W" "phase_after Start (map chunk_kind cs) = Some ph"
    unfolding in_phase_def by blast
  have "\<forall>c \<in> set (butlast (map (\<lambda>c. (c, True)) cs)). snd c" by (auto dest: in_set_butlastD)
  with cs show ?thesis unfolding over_def by (intro exI [of _ "map (\<lambda>c. (c, True)) cs"]) (simp add: comp_def)
qed

lemma wlp_silent:
  assumes "silent (\<lambda>p. history (snd p)) m" "I p" "\<And>p p'. attempts (history (snd p')) = attempts (history (snd p)) \<Longrightarrow> I p \<Longrightarrow> I p'"
  shows "wlp m (\<lambda>_. I) p"
  unfolding wlp_iff using assms silent_def by metis

lemma in_phase_cong: "attempts (history (snd p')) = attempts (history (snd p)) \<Longrightarrow> in_phase W ph p \<Longrightarrow> in_phase W ph p'"
  by (simp add: in_phase_def)

lemma over_cong: "attempts (history (snd p')) = attempts (history (snd p)) \<Longrightarrow> over W ph p \<Longrightarrow> over W ph p'"
  by (simp add: over_def)

lemma wlp_write:
  assumes "in_phase W ph p" "next_phase ph (chunk_kind chunk) = Some ph'"
  shows "wlp (world_m (Write_m L chunk)) (\<lambda>ok p'. if ok then in_phase W ph' p' else over W ph' p') p"
proof -
  obtain q s cs where p: "p = (q, s)" and cs: "attempts (history s) = rev (map (\<lambda>c. (c, True)) cs) @ W"
    "phase_after Start (map chunk_kind cs) = Some ph"
    using assms(1) by (cases p) (auto simp: in_phase_def)
  have "over W ph' (q, s\<lparr>history := EvWrite chunk b # history s\<rparr>)" for b
    unfolding over_def using cs assms(2) by (auto simp: phase_after_snoc comp_def intro!: exI [of _ "map (\<lambda>c. (c, True)) cs @ [(chunk, b)]"])
  moreover have "in_phase W ph' (q, s\<lparr>history := EvWrite chunk True # history s\<rparr>)"
    unfolding in_phase_def using cs assms(2) by (auto simp: phase_after_snoc intro!: exI [of _ "cs @ [chunk]"])
  ultimately show ?thesis by (simp add: p wp_simps)
qed

section \<open>The steps of a query\<close>

definition rows_phase :: "bool \<Rightarrow> phase" where
  "rows_phase batch_sent = (if batch_sent then Rows else Start)"

lemma rows_phase_simps [simp]:
  "rows_phase True = Rows" "rows_phase False = Start" "rows_phase b \<noteq> Done" "rows_phase b = Done \<longleftrightarrow> False"
  by (simp_all add: rows_phase_def)

definition talk :: "(ResultChunk \<times> bool) list \<Rightarrow> flow \<Rightarrow> 'q \<times> 'a pg_world_scheme \<Rightarrow> bool" where
  "talk W outcome p =
     (case outcome of
        Return st \<Rightarrow> \<exists>ph. over W ph p \<and> (status_code st = OK \<longrightarrow> ph = Done)
      | Throw what l \<Rightarrow> in_phase W (rows_phase (ql_batch_sent l)) p
      | Next l \<Rightarrow> in_phase W (rows_phase (ql_batch_sent l)) p)"

lemma talk_simps [simp]:
  "talk W (Return st) p = (\<exists>ph. over W ph p \<and> (status_code st = OK \<longrightarrow> ph = Done))"
  "talk W (Throw what l) p = in_phase W (rows_phase (ql_batch_sent l)) p" "talk W (Next l) p = in_phase W (rows_phase (ql_batch_sent l)) p"
  by (simp_all add: talk_def)

lemma wlp_WriteErrorChunk:
  assumes "in_phase W ph p" "ph \<noteq> Done"
  shows "wlp (WriteErrorChunk L G e) (\<lambda>_. over W Done) p"
proof -
  have "next_phase ph CHUNK_KIND_ERROR = Some Done" using assms(2) by simp
  then show ?thesis
    unfolding WriteErrorChunk_def Let_def wlp_basic
    by (intro wlp_mono [OF wlp_write [OF assms(1)]]) (auto simp: in_phase_over split: if_splits)
qed

lemma wlp_poll: "in_phase W ph p \<Longrightarrow> wlp (world_m (IsCancelled_m L)) (\<lambda>_. in_phase W ph) p"
  by (cases p) (simp add: wp_simps in_phase_def)

lemma wlp_clear: "in_phase W ph p \<Longrightarrow> wlp (world_m (PQclear_m r)) (\<lambda>_. in_phase W ph) p"
  by (cases p; cases r) (simp_all add: wp_simps in_phase_def)

lemma wlp_SendBatchChunk:
  assumes "in_phase W (rows_phase sent) p"
  shows "wlp (SendBatchChunk L G schema sent payload) (\<lambda>(ok, sent') p'. if ok then in_phase W (rows_phase sent') p' else \<exists>ph. over W ph p') p"
proof -
  let ?chunk = "\<lparr>chunk_kind = if sent then CHUNK_KIND_BATCH else CHUNK_KIND_SCHEMA,
      chunk_meta = if sent then [] else EncodeResultSchema G schema, chunk_payload = payload\<rparr>"
  have "next_phase (rows_phase sent) (chunk_kind ?chunk) = Some Rows" by simp
  note written = wlp_write [OF _ this]
  have "wlp (bind_m (world_m (Write_m L ?chunk)) (\<lambda>ok. ret_m (if ok then (True, True) else (False, sent))))
      (\<lambda>(ok, sent') p'. if ok then in_phase W (rows_phase sent') p' else \<exists>ph. over W ph p') p'" if "in_phase W (rows_phase sent) p'" for p'
    unfolding wlp_basic by (rule wlp_mono [OF written [OF that]]) (auto simp: wlp_basic split: if_splits)
  note sending = this
  show ?thesis
  proof (cases "payload = []")
    case True
    with assms show ?thesis by (simp add: SendBatchChunk_def wlp_ret)
  next
    case False
    then have eq: "SendBatchChunk L G schema sent payload = bind_m (world_m (IsCancelled_m L)) (\<lambda>cancelled.
        if cancelled then ret_m (False, sent)
        else bind_m (world_m (Write_m L ?chunk)) (\<lambda>ok. ret_m (if ok then (True, True) else (False, sent))))"
      by (simp add: SendBatchChunk_def WriteResultChunk_def Let_def cong: if_cong)
    show ?thesis
      unfolding eq
    proof (rule wlp_seq [of _ "in_phase W (rows_phase sent)"], rule wlp_poll [OF assms], goal_cases)
      case (1 cancelled p')
      show ?case
      proof (cases cancelled)
        case True
        with 1 show ?thesis by (auto simp: wlp_ret intro: in_phase_over)
      next
        case False
        then show ?thesis unfolding if_not_P [OF False] by (intro sending 1)
      qed
    qed
  qed
qed

lemma wlp_cancelled_return: "over W ph p \<Longrightarrow> wlp (cancelled_return L) (talk W) p"
  unfolding cancelled_return_def
  by (rule wlp_seq [of _ "over W ph"], rule wlp_silent [OF silent_Abort], assumption, erule (1) over_cong)
    (cases p, auto simp: wp_simps over_def wlp_basic mk_status_def)

lemma wlp_send_batch:
  assumes "in_phase W (rows_phase (ql_batch_sent l)) p"
  shows "wlp (send_batch L G r b e l) (talk W) p"
proof (cases "EncodeRawPgBatch r b e")
  case (Inl err)
  with assms show ?thesis by (cases err) (simp_all add: send_batch_def wlp_ret)
next
  case (Inr payload)
  show ?thesis
    unfolding send_batch_def Inr sum.case Let_def wlp_basic(2) [of "SendBatchChunk _ _ _ _ _"]
    by (rule wlp_mono [OF wlp_SendBatchChunk]) (use assms in \<open>auto simp: wlp_ret dest!: wlp_cancelled_return [of W _ _ L] split: if_splits\<close>)
qed

lemma wlp_send_batches: "in_phase W (rows_phase (ql_batch_sent l)) p \<Longrightarrow> wlp (send_batches L G fetch w n b l) (talk W) p"
proof (induction L G fetch w n b l arbitrary: p rule: send_batches.induct)
  case (1 L G fetch w n b l)
  show ?case
  proof (cases "b < n \<and> 0 < w \<and> b + w \<le> INT_MAX")
    case True
    have "wlp (case outcome of Next l \<Rightarrow> send_batches L G fetch w n (b + w) l | _ \<Rightarrow> ret_m outcome) (talk W) p'"
      if "talk W outcome p'" for outcome and p' :: "StreamingQuery \<times> 'a shard_world_scheme"
      using that True 1(1) by (cases outcome) (auto simp: wlp_ret)
    with True show ?thesis
      by (subst send_batches.simps) (auto simp: wlp_basic(2) intro!: wlp_mono [OF wlp_send_batch [OF 1(2)]])
  next
    case False
    with 1(2) show ?thesis by (subst send_batches.simps) (auto simp: wlp_ret)
  qed
qed

text \<open>A finished buffer of FlexBuffers is never empty.\<close>

lemma wlp_trailer:
  assumes "in_phase W ph p" "ph \<noteq> Done" "\<And>t. G t \<noteq> []"
  shows "wlp (WriteResultChunk L CHUNK_KIND_TRAILER (EncodeResultTrailer G trailer) []) (\<lambda>ok p'. if ok then in_phase W Done p' else over W Done p') p"
proof -
  have "next_phase ph (chunk_kind \<lparr>chunk_kind = CHUNK_KIND_TRAILER, chunk_meta = EncodeResultTrailer G trailer, chunk_payload = []\<rparr>) = Some Done"
    using assms(2) by simp
  from wlp_write [OF assms(1) this] show ?thesis
    using assms(3) by (simp add: WriteResultChunk_def EncodeResultTrailer_def)
qed

lemma wlp_end:
  assumes "over W ph p"
  shows "wlp (bind_m (Abort L) (\<lambda>_. ret_m x)) (\<lambda>y p. y = x \<and> over W ph p) p"
    "wlp (bind_m (world_m (PQclear_m r)) (\<lambda>_. bind_m (Close L err) (\<lambda>_. ret_m x))) (\<lambda>y p. y = x \<and> over W ph p) p"
proof -
  have abort: "wlp (Abort L) (\<lambda>_. over W ph) p" by (rule wlp_silent [where I = "over W ph", OF silent_Abort assms]) (rule over_cong)
  have clear: "wlp (world_m (PQclear_m r)) (\<lambda>_. over W ph) p" using assms by (cases p; cases r) (simp_all add: wp_simps over_def)
  have close: "wlp (Close L err) (\<lambda>_. over W ph) p'" if "over W ph p'" for p'
    by (rule wlp_silent [where I = "over W ph", OF silent_Close that]) (rule over_cong)
  show "wlp (bind_m (Abort L) (\<lambda>_. ret_m x)) (\<lambda>y p. y = x \<and> over W ph p) p"
    by (rule wlp_seq [OF abort]) (simp add: wlp_ret)
  show "wlp (bind_m (world_m (PQclear_m r)) (\<lambda>_. bind_m (Close L err) (\<lambda>_. ret_m x))) (\<lambda>y p. y = x \<and> over W ph p) p"
    by (rule wlp_seq [OF clear], rule wlp_seq [OF close], assumption) (simp add: wlp_ret)
qed

lemma wlp_abort_talk:
  "over W ph p \<Longrightarrow> status_code st = OK \<longrightarrow> ph = Done \<Longrightarrow> wlp (bind_m (Abort L) (\<lambda>_. ret_m (Return st))) (talk W) p"
  "over W ph p \<Longrightarrow> status_code st = OK \<longrightarrow> ph = Done \<Longrightarrow> wlp (bind_m (Abort L) (\<lambda>_. ret_m (Return st, b))) (\<lambda>y. talk W (fst y)) p"
  by (erule wlp_conj_eq [OF wlp_end(1)], auto)+

lemma wlp_error_talk:
  assumes "in_phase W ph p" "ph \<noteq> Done"
  shows "wlp (bind_m (WriteErrorChunk L G e) (\<lambda>_. bind_m (Abort L) (\<lambda>_. ret_m (Return st)))) (talk W) p"
    "wlp (bind_m (WriteErrorChunk L G e) (\<lambda>_. bind_m (Abort L) (\<lambda>_. ret_m (Return st, b)))) (\<lambda>y. talk W (fst y)) p"
  by (rule wlp_seq [OF wlp_WriteErrorChunk [OF assms]], erule wlp_abort_talk, simp)+

lemma wlp_trailer_talk:
  assumes "in_phase W ph p" "ph \<noteq> Done" "\<And>t. G t \<noteq> []"
  shows "wlp (bind_m (WriteResultChunk L CHUNK_KIND_TRAILER (EncodeResultTrailer G trailer) []) (\<lambda>ok. if \<not> ok
      then bind_m (Abort L) (\<lambda>_. ret_m (k (Return (mk_status CANCELLED m))))
      else bind_m (world_m (PQclear_m r)) (\<lambda>_. bind_m (Close L err) (\<lambda>_. ret_m (k (Return Status_OK))))))
    (\<lambda>y p. \<exists>st. y = k (Return st) \<and> talk W (Return st) p) p"
proof -
  have "wlp (WriteResultChunk L CHUNK_KIND_TRAILER (EncodeResultTrailer G trailer) []) (\<lambda>_. over W Done) p"
    by (rule wlp_mono [OF wlp_trailer [OF assms]]) (auto split: if_splits intro: in_phase_over)
  then show ?thesis
  proof (rule wlp_seq, goal_cases)
    case (1 ok p')
    then show ?case
      by (cases ok) (auto intro!: wlp_conj_eq [OF wlp_end(1) [OF 1]] wlp_conj_eq [OF wlp_end(2) [OF 1]])
  qed
qed

lemma wlp_handle_portion:
  assumes "in_phase W (rows_phase (ql_batch_sent l)) p" "\<And>t. G t \<noteq> []"
  shows "wlp (handle_portion L G w fetch l) (\<lambda>y. talk W (fst y)) p"
proof -
  let ?ph = "rows_phase (ql_batch_sent l)"
  have trailer: "wlp (trailer_only L G fetch l') (\<lambda>y. talk W (fst y)) p'" if "in_phase W ?ph p'"
    for l' and p' :: "StreamingQuery \<times> 'a shard_world_scheme"
    unfolding trailer_only_def
    by (rule wlp_mono [OF wlp_trailer_talk [OF that _ assms(2), where k = "\<lambda>x. (x, True)"]]) auto
  have batches: "wlp (bind_m (send_batches L G fetch w n 0 l') (\<lambda>y. ret_m (y, False))) (\<lambda>y. talk W (fst y)) p'"
    if "in_phase W ?ph p'" "ql_batch_sent l' = ql_batch_sent l" for n l' and p' :: "StreamingQuery \<times> 'a shard_world_scheme"
    unfolding wlp_basic by (rule wlp_mono [OF wlp_send_batches]) (use that in auto)
  show ?thesis
    unfolding handle_portion_def Let_def
    by (rule wlp_seq [OF wlp_clear [OF assms(1)]])
      (auto simp: wlp_ret intro: trailer batches wlp_error_talk(2))
qed

lemma wlp_stream_loop:
  assumes "\<And>t. G t \<noteq> []"
  shows "in_phase W (rows_phase (ql_batch_sent l)) p \<Longrightarrow> wlp (stream_loop L G w fuel l) (talk W) p"
proof (induction fuel arbitrary: l p)
  case (Suc fuel)
  let ?ph = "rows_phase (ql_batch_sent l)"
  have portion: "wlp (bind_m (handle_portion L G w r l') (\<lambda>(outcome, stop). case outcome of
      Next l' \<Rightarrow> if stop then ret_m (Next l') else stream_loop L G w fuel l' | _ \<Rightarrow> ret_m outcome)) (talk W) p'"
    if "in_phase W (rows_phase (ql_batch_sent l')) p'" for r l' and p' :: "StreamingQuery \<times> 'a shard_world_scheme"
    unfolding wlp_basic(2)
    by (rule wlp_mono [OF wlp_handle_portion [OF that assms]]) (auto simp: wlp_ret Suc.IH split: flow.split)
  have fetch: "wlp (Fetch L err) (\<lambda>_. in_phase W ?ph) p'" if "in_phase W ?ph p'" for err and p' :: "StreamingQuery \<times> 'a shard_world_scheme"
    by (rule wlp_silent [where I = "in_phase W ?ph", OF silent_Fetch that]) (rule in_phase_cong)
  show ?case
    unfolding stream_loop.simps
  proof (rule wlp_seq [OF wlp_poll [OF Suc.prems]], goal_cases)
    case (1 cancelled p1)
    show ?case
    proof (cases cancelled)
      case True
      with 1 show ?thesis by (auto intro!: wlp_abort_talk [OF in_phase_over])
    next
      case False
      then show ?thesis
        unfolding if_not_P [OF False] Let_def
        by (intro wlp_seq [OF fetch [OF 1]]) (auto simp: wlp_ret split: option.split intro!: wlp_error_talk(1) [where ph = ?ph] portion)
    qed
  qed
qed (simp add: wlp_def)

lemma wlp_after_loop:
  assumes "in_phase W (rows_phase (ql_batch_sent l)) p" "\<And>t. G t \<noteq> []"
  shows "wlp (after_loop L G l) (\<lambda>y p. talk W y p \<and> (\<forall>l. y \<noteq> Next l)) p"
proof -
  have trailer: "wlp (send_trailer L G l') (\<lambda>y p. talk W y p \<and> (\<forall>l. y \<noteq> Next l)) p'"
    if "in_phase W (rows_phase (ql_batch_sent l')) p'" for l' and p' :: "StreamingQuery \<times> 'a shard_world_scheme"
    unfolding send_trailer_def
    by (rule wlp_mono [OF wlp_trailer_talk [OF that _ assms(2), where k = "\<lambda>x. x"]]) auto
  have "wlp (bind_m (send_batch L G r 0 0 l) (\<lambda>outcome. case outcome of Next l' \<Rightarrow> send_trailer L G l' | _ \<Rightarrow> ret_m outcome))
      (\<lambda>y p. talk W y p \<and> (\<forall>l. y \<noteq> Next l)) p" for r
    unfolding wlp_basic(2)
    by (rule wlp_mono [OF wlp_send_batch [OF assms(1)]]) (auto simp: wlp_ret trailer split: flow.split)
  with trailer [OF assms(1)] show ?thesis by (simp add: after_loop_def)
qed

lemma wlp_stream_rows:
  assumes "in_phase W Start p" "\<And>t. G t \<noteq> []"
  shows "wlp (stream_rows L G w fuel err) (\<lambda>st. talk W (Return st)) p"
proof -
  have finish: "wlp (finish_stream L G y) (\<lambda>st. talk W (Return st)) p'" if "talk W y p' \<and> (\<forall>l. y \<noteq> Next l)"
    for y and p' :: "StreamingQuery \<times> 'a shard_world_scheme"
  proof (cases y)
    case (Throw what l)
    let ?ph = "rows_phase (ql_batch_sent l)"
    have ph: "in_phase W ?ph p'" using that Throw by simp
    have abort: "wlp (Abort L) (\<lambda>_. in_phase W ?ph) p''" if "in_phase W ?ph p''" for p'' :: "StreamingQuery \<times> 'a shard_world_scheme"
      by (rule wlp_silent [where I = "in_phase W ?ph", OF silent_Abort that]) (rule in_phase_cong)
    have err: "wlp (bind_m (WriteErrorChunk L G e) (\<lambda>_. ret_m Status_OK)) (\<lambda>st. talk W (Return st)) p''" if "in_phase W ?ph p''"
      for e and p'' :: "StreamingQuery \<times> 'a shard_world_scheme"
      by (rule wlp_seq [OF wlp_WriteErrorChunk [OF that]]) (auto simp: wlp_ret)
    show ?thesis
      unfolding Throw finish_stream_def flow.case
      by (rule wlp_seq [OF wlp_clear [OF ph]], rule wlp_seq [OF abort], assumption, rule err)
  qed (use that in \<open>auto simp: finish_stream_def wlp_ret\<close>)
  have "wlp (case y of Next l \<Rightarrow> after_loop L G l | _ \<Rightarrow> ret_m y) (\<lambda>y p. talk W y p \<and> (\<forall>l. y \<noteq> Next l)) p'" if "talk W y p'"
    for y and p' :: "StreamingQuery \<times> 'a shard_world_scheme"
  proof (cases y)
    case (Next l)
    with that have "in_phase W (rows_phase (ql_batch_sent l)) p'" by simp
    from wlp_after_loop [OF this assms(2)] show ?thesis by (simp add: Next)
  qed (use that in \<open>auto simp: wlp_ret\<close>)
  note after = this
  have "in_phase W (rows_phase (ql_batch_sent (query_locals_init err))) p" using assms(1) by (simp add: query_locals_init_def)
  from wlp_stream_loop [where G = G, OF assms(2) this] show ?thesis
    unfolding stream_rows_def wlp_basic(2)
    by (rule wlp_mono) (rule wlp_mono [OF after], assumption, rule finish)
qed

lemma wlp_run_query:
  assumes "in_phase W Start p" "\<And>t. G t \<noteq> []"
  shows "wlp (run_query L G w fuel request) (\<lambda>st. talk W (Return st)) p"
proof -
  have start: "wlp (Open L request (Some [])) (\<lambda>_. in_phase W Start) p"
    by (rule wlp_silent [where I = "in_phase W Start", OF silent_Open assms(1)]) (rule in_phase_cong)
  have err: "wlp (bind_m (WriteErrorChunk L G e) (\<lambda>_. ret_m Status_OK)) (\<lambda>st. talk W (Return st)) p'" if "in_phase W Start p'"
    for e and p' :: "StreamingQuery \<times> 'a shard_world_scheme"
    by (rule wlp_seq [OF wlp_WriteErrorChunk [OF that]]) (auto simp: wlp_ret)
  show ?thesis
    unfolding run_query_def
    by (rule wlp_seq [OF start]) (auto intro: err wlp_stream_rows [where G = G, OF _ assms(2)])
qed

lemma wlp_destroy_talk:
  assumes "talk W (Return st) p"
  shows "wlp destroy_stream (\<lambda>_. talk W (Return st)) p"
  by (rule wlp_silent [where I = "talk W (Return st)", OF silent_destroy assms]) (auto intro: over_cong)

text \<open>C5: whatever PostgreSQL answers, whether or not the client goes away, and on every error path, the chunks of a
  query follow one protocol: first a schema chunk and after it only batches, or nothing of the kind; then at most one
  trailer or error chunk, after which nothing is sent. Nothing is written after a write that failed. A query
  that returns \<open>OK\<close> has sent a trailer or an error chunk as its last one. (A finished FlexBuffers buffer is not empty.)\<close>

theorem QueryStream_chunk_protocol:
  assumes "\<And>t. G t \<noteq> []" and "QueryStream L G config fuel request s = Inr (st, s')"
  shows "\<exists>cs ph. attempts (history s') = rev cs @ attempts (history s) \<and>
    phase_after Start (map (chunk_kind \<circ> fst) cs) = Some ph \<and> (\<forall>c \<in> set (butlast cs). snd c) \<and>
    (status_code st = OK \<longrightarrow> ph = Done)"
proof (cases rule: QueryStream_cases [of config request L G fuel s])
  case (run d)
  let ?W = "attempts (history s)" and ?q = "StreamingQuery_init d (fetch_rows_of config)"
  have "in_phase ?W Start (?q, s)" by (simp add: in_phase_def)
  from wlp_run_query [where G = G, OF this assms(1)] have "wlp (bind_m (run_query L G (wire_rows_of config) fuel request) (\<lambda>r. bind_m destroy_stream (\<lambda>_. ret_m r)))
      (\<lambda>st p. \<exists>ph. over ?W ph (?q, snd p) \<and> (status_code st = OK \<longrightarrow> ph = Done)) (?q, s)"
    unfolding wlp_basic(2)
  proof (rule wlp_mono, goal_cases)
    case (1 st p)
    show ?case
      unfolding wlp_basic(2) [symmetric]
      by (rule wlp_seq [OF wlp_destroy_talk [OF 1(2)]]) (auto simp: wlp_ret over_def)
  qed
  then have "wlp (with_stream ?q (run_query L G (wire_rows_of config) fuel request))
      (\<lambda>st s'. \<exists>ph. over ?W ph (?q, s') \<and> (status_code st = OK \<longrightarrow> ph = Done)) s" by (rule wlp_with_stream)
  from wlpD [OF this, of st s'] run(4) assms(2) have "\<exists>ph. over ?W ph (?q, s') \<and> (status_code st = OK \<longrightarrow> ph = Done)" by simp
  then show ?thesis unfolding over_def snd_conv by blast
qed (use assms(2) in \<open>auto simp: mk_status_def intro: exI [of _ "[]"]\<close>)

theorem QueryStream_chunk_protocol_witness:
  "\<exists>s' cs. QueryStream cursor_libpq (\<lambda>_. ''m'') ServerConfig_init 3 demo_request demo_shard = Inr (Status_OK, s') \<and>
     attempts (history s') = rev cs @ attempts (history demo_shard) \<and> phase_after Start (map (chunk_kind \<circ> fst) cs) = Some Done"
proof -
  obtain s' where run: "QueryStream cursor_libpq (\<lambda>_. ''m'') ServerConfig_init 3 demo_request demo_shard = Inr (Status_OK, s')"
    using demo_QueryStream by blast
  from QueryStream_chunk_protocol [OF _ run] show ?thesis using run by (fastforce simp: Status_OK_def)
qed

end
