(* ===== verification/Handle_Safety.thy ===== *)
theory Handle_Safety
  imports Shard_Service "HOL-Library.Multiset"
begin

text \<open>
  Memory safety of the libpq handles over the life of the shard service: the owners of a connection are
  counted exactly, so that a handle is open as long as somebody has a pointer to it, is never used or closed
  after \<open>PQfinish\<close>, and is closed when its last owner is gone.
\<close>

section \<open>Histories without use after free\<close>

text \<open>The handle a call is made on.\<close>

fun conn_of :: "pg_event \<Rightarrow> conn option" where
  "conn_of (EvExec c sql r) = Some c"
| "conn_of (EvExecParams c sql ps fmt r) = Some c"
| "conn_of (EvFinish c) = Some c"
| "conn_of (EvConnect info r) = None"
| "conn_of (EvClear x) = None"
| "conn_of (EvPoll b) = None"
| "conn_of (EvWrite chunk b) = None"

definition open_handles :: "history \<Rightarrow> conn set" where
  "open_handles h = opened h - finished h"

fun safe :: "history \<Rightarrow> bool" where
  "safe [] = True"
| "safe (e # h) = (safe h \<and> (\<forall>c. conn_of e = Some c \<longrightarrow> c \<in> open_handles h))"

lemma open_handles_simps [simp]:
  "open_handles (EvExec c sql r # h) = open_handles h" "open_handles (EvExecParams c sql ps fmt r # h) = open_handles h"
  "open_handles (EvFinish c # h) = open_handles h - {c}" "open_handles (EvConnect info None # h) = open_handles h"
  "open_handles (EvClear x # h) = open_handles h" "open_handles (EvPoll b # h) = open_handles h"
  "open_handles (EvWrite chunk b # h) = open_handles h"
  by (auto simp: open_handles_def)

lemma safe_finished: "safe h \<Longrightarrow> finished h \<subseteq> opened h"
proof (induction h)
  case (Cons e h)
  show ?case
  proof (cases e)
    case (EvConnect info r)
    with Cons show ?thesis by (cases r) auto
  qed (use Cons in \<open>auto simp: open_handles_def\<close>)
qed simp

section \<open>Owners\<close>

definition owners :: "'a store_world_scheme \<Rightarrow> conn multiset" where
  "owners s = mset (cm_idle (pool s)) + mset (map snd (ss_sessions (session_store s)))"

lemma owners_frame [simp]:
  "owners (s\<lparr>history := h\<rparr>) = owners s" "owners (s\<lparr>next_conn := n\<rparr>) = owners s" "owners (s\<lparr>refs := r\<rparr>) = owners s"
  "owners (s\<lparr>held := H\<rparr>) = owners s" "owners (s\<lparr>pool := (pool s)\<lparr>cm_in_use := k\<rparr>\<rparr>) = owners s"
  "owners (s\<lparr>pool_cv := cv\<rparr>) = owners s"
  "owners (s\<lparr>pool := (pool s)\<lparr>cm_params := ps, cm_pool_size := k, cm_configured := b\<rparr>\<rparr>) = owners s"
  by (simp_all add: owners_def)

text \<open>
  \<open>M\<close> are the pointers of local variables and of objects outside the pool and the session store. Every
  count is the number of owners, and the open handles are the owned ones.
\<close>

definition accounts :: "conn multiset \<Rightarrow> 'a store_world_scheme \<Rightarrow> bool" where
  "accounts M s \<longleftrightarrow>
     refs s = count (M + owners s) \<and> open_handles (history s) = set_mset (M + owners s) \<and>
     opened (history s) \<subseteq> {..<next_conn s} \<and> safe (history s) \<and> distinct (map fst (ss_sessions (session_store s)))"

lemma accountsD:
  assumes "accounts M s"
  shows "refs s c = count (M + owners s) c" "c \<in> open_handles (history s) \<longleftrightarrow> c \<in># M + owners s"
    "c \<in># M + owners s \<Longrightarrow> c < next_conn s" "next_conn s \<notin> opened (history s) \<union> finished (history s)"
  using assms safe_finished [of "history s"] unfolding accounts_def open_handles_def by auto

text \<open>What does not change the accounts: calls on no handle or on an owned one, and everything but the history,
  the counts and the two containers.\<close>

lemma accounts_event [simp]:
  "accounts M (s\<lparr>history := EvClear x # h\<rparr>) = accounts M (s\<lparr>history := h\<rparr>)"
  "accounts M (s\<lparr>history := EvPoll b # h\<rparr>) = accounts M (s\<lparr>history := h\<rparr>)"
  "accounts M (s\<lparr>history := EvWrite chunk b # h\<rparr>) = accounts M (s\<lparr>history := h\<rparr>)"
  "accounts M (s\<lparr>history := EvConnect info None # h\<rparr>) = accounts M (s\<lparr>history := h\<rparr>)"
  by (auto simp: accounts_def)

lemma accounts_exec [simp]:
  assumes "c \<in># M"
  shows "accounts M (s\<lparr>history := EvExec c sql r # h\<rparr>) = accounts M (s\<lparr>history := h\<rparr>)"
    "accounts M (s\<lparr>history := EvExecParams c sql ps fmt r # h\<rparr>) = accounts M (s\<lparr>history := h\<rparr>)"
  using assms by (auto simp: accounts_def)

lemma accounts_frame [simp]:
  "accounts M (s\<lparr>held := H\<rparr>) = accounts M s" "accounts M (s\<lparr>pool_cv := cv\<rparr>) = accounts M s"
  "accounts M (s\<lparr>pool := (pool s)\<lparr>cm_in_use := n\<rparr>\<rparr>) = accounts M s"
  "accounts M (s\<lparr>pool := (pool s)\<lparr>cm_params := ps, cm_pool_size := k, cm_configured := b\<rparr>\<rparr>) = accounts M s"
  by (simp_all add: accounts_def)

text \<open>Pointers that are created, copied, dropped or moved.\<close>

lemma accounts_new:
  assumes "accounts M s"
  shows "accounts (add_mset (next_conn s) M)
    (s\<lparr>history := EvConnect info (Some (next_conn s)) # history s, next_conn := Suc (next_conn s), refs := (refs s)(next_conn s := 1)\<rparr>)"
proof -
  have "count (M + owners s) (next_conn s) = 0"
    using accountsD(3) [OF assms, of "next_conn s"] by (meson count_inI less_irrefl)
  with assms accountsD(4) [OF assms] show ?thesis
    by (auto simp: accounts_def open_handles_def fun_eq_iff)
qed

lemma accounts_copy: "accounts M s \<Longrightarrow> c \<in># M + owners s \<Longrightarrow> accounts (add_mset c M) (s\<lparr>refs := (refs s)(c := Suc (refs s c))\<rparr>)"
  by (auto simp: accounts_def fun_eq_iff)

lemma accounts_drop:
  assumes "accounts (add_mset c M) s"
  shows "accounts M (s\<lparr>refs := (refs s)(c := refs s c - 1), history := (if refs s c = 1 then [EvFinish c] else []) @ history s\<rparr>)"
proof -
  have n: "refs s c = Suc (count (M + owners s) c)" using accountsD(1) [OF assms, of c] by simp
  have "c \<in> open_handles (history s)" using accountsD(2) [OF assms, of c] by simp
  moreover have "c \<in># M + owners s \<longleftrightarrow> refs s c \<noteq> 1" using n by (simp add: count_eq_zero_iff)
  ultimately show ?thesis using assms n by (auto simp: accounts_def fun_eq_iff count_eq_zero_iff)
qed

text \<open>A new handle before it has an owner (the \<open>unique_ptr\<close> that \<open>Connect\<close> returns).\<close>

definition unowned :: "conn multiset \<Rightarrow> conn \<Rightarrow> 'a store_world_scheme \<Rightarrow> bool" where
  "unowned M c s \<longleftrightarrow> refs s c = 0 \<and> accounts (add_mset c M) (s\<lparr>refs := (refs s)(c := 1)\<rparr>)"

lemma unowned_new:
  assumes "accounts M s"
  shows "unowned M (next_conn s) (s\<lparr>history := EvConnect info (Some (next_conn s)) # history s, next_conn := Suc (next_conn s)\<rparr>)"
proof -
  have "next_conn s \<notin># M + owners s" using accountsD(3) [OF assms] by blast
  then have "refs s (next_conn s) = 0" using accountsD(1) [OF assms] by (simp add: count_eq_zero_iff)
  with accounts_new [OF assms] show ?thesis by (simp add: unowned_def)
qed

lemma unowned_events [simp]:
  "unowned M c (s\<lparr>history := EvExec c sql r # h\<rparr>) = unowned M c (s\<lparr>history := h\<rparr>)"
  "unowned M c (s\<lparr>history := EvClear x # h\<rparr>) = unowned M c (s\<lparr>history := h\<rparr>)"
  by (auto simp: unowned_def accounts_def)

lemma unowned_finish:
  assumes "unowned M c (s\<lparr>history := h\<rparr>)"
  shows "accounts M (s\<lparr>history := EvFinish c # h\<rparr>)"
proof -
  have "refs s = (refs s)(c := 0)" using assms by (simp add: unowned_def fun_eq_iff)
  with accounts_drop [of c M "s\<lparr>history := h, refs := (refs s)(c := 1)\<rparr>"] assms show ?thesis by (simp add: unowned_def)
qed

section \<open>The sources of connections\<close>

lemma PqConnection_Connect_accounts:
  assumes "accounts M s"
  shows "wp (PqConnection_Connect L params err ms) (\<lambda>(r, _) t. case r of None \<Rightarrow> accounts M t | Some c \<Rightarrow> unowned M c t) s"
proof -
  have "wp (PQconnectdb_m L info) (\<lambda>r t. case r of None \<Rightarrow> accounts M t | Some c \<Rightarrow> unowned M c t) s" for info
    using assms unowned_new [OF assms] by (simp add: wp_simps)
  then show ?thesis
    unfolding PqConnection_Connect_def wp_basic(2)
    by (rule wp_mono) (auto simp: wp_simps wp_ApplyStatementTimeout result_status_def Let_def intro!: unowned_finish split: option.splits)
qed

definition ptr :: "conn option \<Rightarrow> conn multiset" where
  "ptr r = (case r of None \<Rightarrow> {#} | Some c \<Rightarrow> {#c#})"

lemma ptr_simps [simp]: "ptr None = {#}" "ptr (Some c) = {#c#}"
  by (simp_all add: ptr_def)

text \<open>
  The contract of a source: the pointer it hands out is a new owner, and giving it back takes that owner
  away. Whoever keeps the accounts with a borrowed pointer keeps them altogether.
\<close>

locale connection_source =
  fixes accounted :: "conn multiset \<Rightarrow> 's \<Rightarrow> bool"
    and borrow :: "('s, conn option \<times> err_ptr) proc"
    and give_back :: "conn \<Rightarrow> bool \<Rightarrow> ('s, unit) proc"
  assumes borrow_owner: "accounted M s \<Longrightarrow> wlp borrow (\<lambda>(r, _). accounted (M + ptr r)) s"
    and give_back_owner: "accounted (add_mset c M) s \<Longrightarrow> wlp (give_back c b) (\<lambda>_. accounted M) s"
begin

lemma use_keeps_accounts:
  assumes "accounted M s" "\<And>c s. accounted (add_mset c M) s \<Longrightarrow> wlp (body c) (\<lambda>_. accounted (add_mset c M)) s"
  shows "wlp (bind_m borrow (\<lambda>(r, err). case r of None \<Rightarrow> ret_m () | Some c \<Rightarrow> bind_m (body c) (\<lambda>b. give_back c b))) (\<lambda>_. accounted M) s"
  unfolding wlp_basic
  by (rule wlp_mono [OF borrow_owner [OF assms(1)]])
    (auto simp: wlp_basic split: option.split intro!: wlp_mono [OF assms(2)] give_back_owner)

end

lemma accounts_move:
  assumes "accounts M s" "M' + owners t = M + owners s" "refs t = refs s" "history t = history s" "next_conn t = next_conn s"
    "distinct (map fst (ss_sessions (session_store t)))"
  shows "accounts M' t"
  using assms by (simp add: accounts_def)

lemma CreateConnection_accounts:
  assumes "accounts M s"
  shows "wp (CreateConnection L) (\<lambda>r. accounts (M + ptr r)) s"
  unfolding CreateConnection_def wp_simps
  by (rule wp_mono [OF PqConnection_Connect_accounts [OF assms]])
    (auto simp: wp_simps unowned_def split: option.splits)

lemma Acquire_enter_accounts: "accounts M s \<Longrightarrow> wlp Acquire_enter (\<lambda>r. accounts (M + ptr r)) s"
  by (auto simp: wlp_def Acquire_enter_def Let_def accounts_def owners_def split: list.split)

lemma Acquire_create_accounts:
  assumes "accounts M s"
  shows "wlp (Acquire_create L) (\<lambda>r. accounts (M + ptr r)) s"
  unfolding Acquire_create_def wlp_basic
  by (rule wlp_mono [OF wp_imp_wlp [OF CreateConnection_accounts [OF assms]]])
    (auto simp: wlp_basic upd_pool_def notify_pool_def wlp_upd_m split: option.split)

lemma Acquire_accounts: "accounts M s \<Longrightarrow> wlp (Acquire L) (\<lambda>r. accounts (M + ptr r)) s"
  unfolding Acquire_def wlp_basic
  by (drule Acquire_enter_accounts, elim wlp_mono) (auto simp: wlp_basic split: option.split intro: Acquire_create_accounts)

lemma Release_accounts:
  assumes "accounts (add_mset c M) s"
  shows "wp (Release L (Some c) broken) (\<lambda>_. accounts M) s"
proof -
  let ?s = "s\<lparr>pool := (pool s)\<lparr>cm_in_use := cm_in_use (pool s) - 1\<rparr>\<rparr>"
  have "accounts (add_mset c M) ?s" using assms by simp
  then have "accounts (add_mset c M) (?s\<lparr>pool_cv := notify_one (pool_cv s)\<rparr>)" by simp
  from accounts_drop [OF this] have "wp (share_drop c) (\<lambda>_. accounts M) (?s\<lparr>pool_cv := notify_one (pool_cv s)\<rparr>)"
    by (simp add: wp_simps)
  moreover have "accounts M (?s\<lparr>pool := (pool ?s)\<lparr>cm_idle := cm_idle (pool ?s) @ [c]\<rparr>\<rparr>)"
    by (rule accounts_move [OF assms]) (use assms in \<open>simp_all add: owners_def accounts_def\<close>)
  ultimately show ?thesis by (simp add: Release_def wp_simps upd_pool_def)
qed

lemma return_lease_accounts:
  assumes "accounts (add_mset c M) s"
  shows "wp (return_lease L c broken) (\<lambda>_. accounts M) s"
proof -
  have "accounts (add_mset c (add_mset c M)) (s\<lparr>refs := (refs s)(c := Suc (refs s c))\<rparr>)" by (rule accounts_copy [OF assms]) simp
  from Release_accounts [OF this, of L broken] show ?thesis
    unfolding return_lease_def by (auto simp: wp_simps elim!: wp_mono dest: accounts_drop)
qed

lemma mset_delete:
  assumes "distinct (map fst m)" "map_of m k = Some c"
  shows "add_mset c (mset (map snd (AList.delete k m))) = mset (map snd m)"
  using assms
proof (induction m)
  case (Cons e m)
  show ?case
  proof (cases "fst e = k")
    case True
    with Cons.prems have "AList.delete k m = m" "snd e = c" by (auto intro!: delete_idem)
    with True show ?thesis by (cases e) simp
  next
    case False
    with Cons show ?thesis by (cases e) (auto simp: add_mset_commute)
  qed
qed simp

lemma open_session_accounts:
  assumes "accounts M s" "session_id \<notin> fst ` set (ss_sessions (session_store s))"
  shows "wlp (open_session L session_id params err) (\<lambda>(r, _). accounts (M + ptr r)) s"
proof -
  obtain r e t where run: "PqConnection_Connect L params (Some []) 0 s = Inr ((r, e), t)" and eff: "connect_effect s t r"
    by (rule PqConnection_Connect_runs)
  have t: "case r of None \<Rightarrow> accounts M t | Some c \<Rightarrow> unowned M c t"
    using PqConnection_Connect_accounts [OF assms(1), of L params "Some []" 0] by (simp add: wp_def run)
  have fresh: "session_id \<notin> fst ` set (ss_sessions (session_store t))" using assms(2) connect_effect_store [OF eff] by simp
  show ?thesis
  proof (cases r)
    case None
    with t run assms(1) show ?thesis by (auto simp: open_session_def wlp_basic wlp_get_m wlp_def [of "PqConnection_Connect _ _ _ _"])
  next
    case (Some c)
    let ?t = "t\<lparr>refs := (refs t)(c := 1)\<rparr>"
    let ?u = "?t\<lparr>refs := (refs ?t)(c := Suc (refs ?t c))\<rparr>"
    let ?v = "?u\<lparr>session_store := (session_store ?u)\<lparr>ss_sessions := AList.update session_id c (ss_sessions (session_store ?u))\<rparr>\<rparr>"
    have "accounts (add_mset c M) ?t" using t Some by (simp add: unowned_def)
    then have u: "accounts (add_mset c (add_mset c M)) ?u" by (rule accounts_copy) simp
    have "accounts (add_mset c M) ?v"
      by (rule accounts_move [OF u]) (use u fresh in \<open>simp_all add: owners_def update_fresh accounts_def\<close>)
    with Some run assms(1) show ?thesis
      by (auto simp: open_session_def wlp_basic wlp_get_m wlp_def [of "PqConnection_Connect _ _ _ _"] share_new_def share_copy_def
          upd_sessions_def wlp_upd_m)
  qed
qed

lemma GetOrCreate_accounts:
  assumes "accounts M s"
  shows "wlp (GetOrCreate L session_id params err) (\<lambda>(r, _). accounts (M + ptr r)) s"
proof (cases "map_of (ss_sessions (session_store s)) session_id")
  case None
  then have "session_id \<notin> fst ` set (ss_sessions (session_store s))" by (simp add: map_of_eq_None_iff)
  with None open_session_accounts [OF assms this] assms show ?thesis by (auto simp: GetOrCreate_def wlp_basic wlp_get_m)
next
  case (Some c)
  let ?t = "s\<lparr>session_store := (session_store s)\<lparr>ss_sessions := AList.delete session_id (ss_sessions (session_store s))\<rparr>\<rparr>"
  let ?u = "?t\<lparr>refs := (refs ?t)(c := refs ?t c - 1), history := (if refs ?t c = 1 then [EvFinish c] else []) @ history ?t\<rparr>"
  have keys: "distinct (map fst (ss_sessions (session_store s)))" using assms by (simp add: accounts_def)
  have "c \<in># owners s" using imageI [OF map_of_SomeD [OF Some], of snd] by (simp add: owners_def)
  then have copied: "accounts (add_mset c M) (s\<lparr>refs := (refs s)(c := Suc (refs s c))\<rparr>)" by (intro accounts_copy [OF assms]) simp
  have "accounts (add_mset c M) ?t"
    by (rule accounts_move [OF assms]) (use mset_delete [OF keys Some] distinct_delete [OF keys] in \<open>simp_all add: owners_def\<close>)
  from accounts_drop [OF this] have u: "accounts M ?u" .
  have "wlp (open_session L session_id params err) (\<lambda>(r, _). accounts (M + ptr r)) ?u"
    by (rule open_session_accounts [OF u]) (auto simp: AList.delete_eq)
  with copied assms Some show ?thesis
    by (auto simp: GetOrCreate_def wlp_basic wlp_get_m share_copy_def wlp_upd_m upd_sessions_def share_drop_def PQfinish_m_def record_event_def)
qed

lemma share_drop_accounts: "accounts (add_mset c M) s \<Longrightarrow> wp (share_drop c) (\<lambda>_. accounts M) s"
  by (simp only: wp_share_drop accounts_drop)

interpretation pool_source: connection_source accounts "bind_m (Acquire L) (\<lambda>r. ret_m (r, err))" "return_lease L" for L err
proof
  show "wlp (bind_m (Acquire L) (\<lambda>r. ret_m (r, err))) (\<lambda>(r, _). accounts (M + ptr r)) s" if "accounts M s" for M and s :: "'a store_world_scheme"
    unfolding wlp_basic by (rule wlp_mono [OF Acquire_accounts [OF that]]) (simp add: wlp_basic)
qed (rule wp_imp_wlp [OF return_lease_accounts])

interpretation session_source: connection_source accounts "GetOrCreate L session_id params err" "\<lambda>c _. share_drop c" for L session_id params err
  by unfold_locales (rule GetOrCreate_accounts, assumption, rule wp_imp_wlp [OF share_drop_accounts])

text \<open>So users of the pool who follow its protocol leave no trace in the accounts.\<close>

lemma lease_sessions_accounts:
  assumes "accounts M s" "\<And>b c t. b \<in> set bodies \<Longrightarrow> accounts (add_mset c M) t \<Longrightarrow> wlp (b c) (\<lambda>_. accounts (add_mset c M)) t"
  shows "wlp (lease_sessions (Acquire L) (return_lease L) bodies) (\<lambda>_. accounts M) s"
  using assms
proof (induction bodies arbitrary: s)
  case (Cons b bodies)
  have "wlp (bind_m (bind_m (Acquire L) (\<lambda>r. ret_m (r, None :: err_ptr))) (\<lambda>(r, err). case r of None \<Rightarrow> ret_m () | Some c \<Rightarrow> bind_m (b c) (return_lease L c)))
      (\<lambda>_. accounts M) s"
    by (rule pool_source.use_keeps_accounts [OF Cons.prems(1)]) (use Cons.prems(2) in simp)
  then have "wlp (lease_session (Acquire L) (return_lease L) b) (\<lambda>_. accounts M) s" by (simp add: lease_session_def wlp_basic)
  then show ?case unfolding lease_sessions.simps wlp_basic by (rule wlp_mono) (use Cons in simp)
qed (simp add: wlp_def)

section \<open>Streams\<close>

text \<open>The stream's pointer, if it has one, is one more owner.\<close>

definition stream_at :: "conn multiset \<Rightarrow> conn option \<Rightarrow> StreamingQuery \<times> 'a stream_world_scheme \<Rightarrow> bool" where
  "stream_at M r p \<longleftrightarrow> sq_connection (fst p) = r \<and> accounts (M + ptr r) (snd p)"

definition stream_accounts :: "conn multiset \<Rightarrow> StreamingQuery \<times> 'a stream_world_scheme \<Rightarrow> bool" where
  "stream_accounts M p \<longleftrightarrow> accounts (M + ptr (sq_connection (fst p))) (snd p)"

text \<open>A computation that keeps a condition, and how the constructs do.\<close>

definition keeps :: "('s \<Rightarrow> bool) \<Rightarrow> ('s, 'b) proc \<Rightarrow> bool" where
  "keeps I m \<longleftrightarrow> (\<forall>s. I s \<longrightarrow> wlp m (\<lambda>_. I) s)"

named_theorems keeps_intros

lemma keeps_control [keeps_intros]:
  "keeps I (ret_m a)" "keeps I (\<lambda>_. Inl b)" "keeps I (get_m g)"
  "(t \<Longrightarrow> keeps I m1) \<Longrightarrow> (\<not> t \<Longrightarrow> keeps I m2) \<Longrightarrow> keeps I (if t then m1 else m2)"
  "keeps I m0 \<Longrightarrow> (\<And>x. keeps I (m3 x)) \<Longrightarrow> keeps I (case v of None \<Rightarrow> m0 | Some x \<Rightarrow> m3 x)"
  "(\<And>x y. keeps I (m4 x y)) \<Longrightarrow> keeps I (case z of (x, y) \<Rightarrow> m4 x y)"
  by (auto simp: keeps_def wlp_basic wlp_get_m wlp_def split: option.split prod.split)

lemma keeps_bind [keeps_intros]: "keeps I m \<Longrightarrow> (\<And>x. keeps I (f x)) \<Longrightarrow> keeps I (bind_m m f)"
  by (auto simp: keeps_def wlp_basic elim!: wlp_mono)

lemma keeps_with_lock:
  assumes "keeps I m" "\<And>q s H. I (q, s\<lparr>held := H\<rparr>) = I (q, s)"
  shows "keeps I (with_lock c m)"
  unfolding keeps_def
proof (intro allI impI)
  fix p assume "I p"
  obtain q s where p: "p = (q, s)" by (cases p)
  have "wlp m (\<lambda>_ p. I (fst p, (snd p)\<lparr>held := held (snd p) - {c}\<rparr>)) (q, s\<lparr>held := insert c (held s)\<rparr>)"
    using assms \<open>I p\<close> p by (auto simp: keeps_def)
  then show "wlp (with_lock c m) (\<lambda>_. I) p"
    by (auto simp: p with_lock_def wlp_def bind_m_def world_m_def split: sum.splits)
qed

lemma stream_at_frame [simp]:
  "stream_at M r (q, s\<lparr>held := H\<rparr>) = stream_at M r (q, s)"
  "stream_at M r (q, s\<lparr>g_cursor_counter := n\<rparr>) = stream_at M r (q, s)"
  by (simp_all add: stream_at_def accounts_def owners_def)

lemma stream_at_history:
  "stream_at M r (q, s\<lparr>history := EvClear x # history s\<rparr>) = stream_at M r (q, s)"
  "stream_at M r (q, s\<lparr>history := EvPoll b # history s\<rparr>) = stream_at M r (q, s)"
  "stream_at M r (q, s\<lparr>history := EvWrite chunk b # history s\<rparr>) = stream_at M r (q, s)"
  "stream_at M (Some c) (q, s\<lparr>history := EvExec c sql y # history s\<rparr>) = stream_at M (Some c) (q, s)"
  "stream_at M (Some c) (q, s\<lparr>history := EvExecParams c sql ps fmt y # history s\<rparr>) = stream_at M (Some c) (q, s)"
  by (simp_all add: stream_at_def)

lemma keeps_stream [keeps_intros]:
  "keeps (stream_at M r) m \<Longrightarrow> keeps (stream_at M r) (with_lock c m)"
  "(\<And>q. sq_connection q = r \<Longrightarrow> keeps (stream_at M r) (f q)) \<Longrightarrow> keeps (stream_at M r) (bind_m (get_m fst) f)"
  "(\<And>q. sq_connection q = r \<Longrightarrow> keeps (stream_at M r) (g (k q))) \<Longrightarrow> keeps (stream_at M r) (bind_m (get_q k) g)"
  "(\<And>q. sq_connection (u q) = sq_connection q) \<Longrightarrow> keeps (stream_at M r) (upd_q u)"
  by (auto intro: keeps_with_lock) (auto simp: keeps_def wlp_basic wlp_get_m get_q_def upd_q_def wlp_upd_m stream_at_def)

lemma wlp_execs:
  "wlp (PQexec_m L c sql) Q s = Q (PQexec L (history s) c sql) (s\<lparr>history := EvExec c sql (PQexec L (history s) c sql) # history s\<rparr>)"
  "wlp (PQexecParams_m L c sql ps fmt) Q s =
     Q (PQexecParams L (history s) c sql ps fmt) (s\<lparr>history := EvExecParams c sql ps fmt (PQexecParams L (history s) c sql ps fmt) # history s\<rparr>)"
  by (simp_all add: wlp_def PQexec_m_def PQexecParams_m_def Let_def)

lemma keeps_calls [keeps_intros]:
  "keeps (stream_at M r) (ClearResult x)" "keeps (stream_at M r) (world_m (PQclear_m x))" "keeps (stream_at M r) (world_m (get_m k))"
  "keeps (stream_at M r) (world_m (IsCancelled_m L))" "keeps (stream_at M r) (world_m (Write_m L chunk))"
  "keeps (stream_at M (Some c)) (Exec L c sql)" "keeps (stream_at M (Some c)) (ExecParams L c sql ps fmt)"
  "keeps (stream_at M r) NextCursorName"
  by (auto simp: keeps_def stream_calls NextCursorName_def wlp_execs wp_simps
      stream_at_history wlp_basic wlp_get_m wlp_upd_m Let_def split: option.split)

lemmas keeps_rules = keeps_stream keeps_control keeps_bind keeps_calls

lemma keeps_EndTransaction [keeps_intros]: "keeps (stream_at M r) (EndTransaction L commit err)"
  unfolding EndTransaction_def by (rule keeps_stream, cases r) (auto simp: Let_def intro!: keeps_rules)

lemma keeps_CloseCursor [keeps_intros]: "keeps (stream_at M r) (CloseCursor L err)"
  unfolding CloseCursor_def by (rule keeps_stream, cases r) (auto simp: Let_def intro!: keeps_rules)

lemma keeps_FetchCursor [keeps_intros]: "keeps (stream_at M r) (FetchCursor L err)"
  unfolding FetchCursor_def by (rule keeps_stream, cases r) (auto simp: Let_def intro!: keeps_rules)

lemma keeps_clear_immediate [keeps_intros]: "keeps (stream_at M r) clear_immediate"
  unfolding clear_immediate_def by (intro keeps_rules) simp

lemma keeps_open_methods [keeps_intros]:
  "keeps (stream_at M (Some c)) (BeginIfNeeded L err)" "keeps (stream_at M (Some c)) (DeclareCursor L request err)"
  "keeps (stream_at M (Some c)) (OpenCursor L request err)" "keeps (stream_at M (Some c)) (ExecuteImmediate L request err)"
proof -
  show starts: "keeps (stream_at M (Some c)) (BeginIfNeeded L err)" for err
    by (auto simp: BeginIfNeeded_def Let_def intro!: keeps_rules)
  show declares: "keeps (stream_at M (Some c)) (DeclareCursor L request err)" for err
    by (auto simp: DeclareCursor_def Let_def intro!: keeps_rules keeps_EndTransaction)
  show "keeps (stream_at M (Some c)) (OpenCursor L request err)"
    by (auto simp: OpenCursor_def intro!: keeps_control keeps_bind starts declares)
  show "keeps (stream_at M (Some c)) (ExecuteImmediate L request err)"
    by (auto simp: ExecuteImmediate_def Let_def intro!: keeps_rules)
qed

lemma keeps_Fetch [keeps_intros]: "keeps (stream_at M r) (Fetch L err)"
  unfolding Fetch_def by (rule keeps_stream, cases r) (auto intro!: keeps_rules keeps_FetchCursor)

text \<open>The methods that take or give up the stream's pointer.\<close>

lemma ReleaseConnection_accounts:
  assumes "stream_at M r p"
  shows "wlp (ReleaseConnection L broken) (\<lambda>_. stream_at M None) p"
proof (cases r)
  case None
  with assms show ?thesis by (cases p) (simp add: ReleaseConnection_def wlp_basic get_q_def wlp_get_m stream_at_def)
next
  case (Some c)
  obtain q s where p: "p = (q, s)" by (cases p)
  with assms Some have q: "sq_connection q = Some c" and s: "accounts (add_mset c M) s" by (simp_all add: stream_at_def)
  have "wlp (return_lease L c b) (\<lambda>_. accounts M) s" "wlp (share_drop c) (\<lambda>_. accounts M) s" for b
    using pool_source.give_back_owner [OF s, of L] session_source.give_back_owner [OF s] .
  with q show ?thesis
    by (auto simp: p ReleaseConnection_def wlp_basic get_q_def upd_q_def wlp_get_m wlp_upd_m wp_world_m stream_at_def elim!: wlp_mono)
qed

lemma keeps_seq: "keeps I m \<Longrightarrow> I p \<Longrightarrow> (\<And>x p. I p \<Longrightarrow> wlp (f x) Q p) \<Longrightarrow> wlp (bind_m m f) Q p"
  by (auto simp: keeps_def wlp_basic elim!: wlp_mono)

lemma keepsD: "keeps I m \<Longrightarrow> I p \<Longrightarrow> wlp m (\<lambda>_. I) p"
  by (simp add: keeps_def)

lemma stream_accounts_at: "stream_accounts M p \<longleftrightarrow> stream_at M (sq_connection (fst p)) p"
  by (simp add: stream_accounts_def stream_at_def)

lemma stream_at_accounts: "stream_at M r p \<Longrightarrow> stream_accounts M p"
  by (simp add: stream_accounts_def stream_at_def)

lemma keeps_get_q [keeps_intros]: "keeps I (get_q f)"
  by (simp add: keeps_def get_q_def wlp_get_m)

lemma Close_accounts:
  assumes "stream_at M r p"
  shows "wlp (Close L err) (\<lambda>_. stream_at M None) p"
proof -
  have "keeps (stream_at M r) (if b then bind_m (CloseCursor L err) (\<lambda>e. EndTransaction L True e) else ret_m err)" for b
    by (intro keeps_control keeps_bind keeps_CloseCursor keeps_EndTransaction)
  note steps = keeps_seq [OF keeps_clear_immediate] keeps_seq [OF keeps_get_q] keeps_seq [OF this]
  show ?thesis
    unfolding Close_def
    by (rule steps(1) [OF assms], rule steps(2), assumption, rule steps(3), assumption)
      (auto simp: wlp_basic intro: wlp_mono [OF ReleaseConnection_accounts])
qed

lemma Abort_accounts:
  assumes "stream_at M r p"
  shows "wlp (Abort L) (\<lambda>_. stream_at M None) p"
proof -
  have "keeps (stream_at M r) (if b then CloseCursor L e else ret_m e)" "keeps (stream_at M r) (if b then EndTransaction L False e else ret_m e)" for b e
    by (intro keeps_control keeps_CloseCursor keeps_EndTransaction)+
  note steps = keeps_seq [OF keeps_clear_immediate] keeps_seq [OF keeps_control(3)] keeps_seq [OF this(1)] keeps_seq [OF keeps_get_q] keeps_seq [OF this(2)]
  show ?thesis
    unfolding Abort_def
    by (rule steps(1) [OF assms], rule steps(2), assumption, rule steps(3), assumption, rule steps(4), assumption, rule steps(5), assumption)
      (rule ReleaseConnection_accounts)
qed

lemma AcquireConnection_accounts:
  assumes "stream_at M None p"
  shows "wlp (AcquireConnection L request err) (\<lambda>(ok, _) p. stream_accounts M p \<and> (ok \<longrightarrow> sq_connection (fst p) \<noteq> None)) p"
proof -
  obtain q s where p: "p = (q, s)" by (cases p)
  with assms have s: "accounts M s" by (simp add: stream_at_def)
  show ?thesis
    by (auto simp: p AcquireConnection_def wlp_basic get_q_def upd_q_def wlp_get_m wlp_upd_m wp_world_m stream_accounts_def
        intro!: wlp_mono [OF session_source.borrow_owner [OF s]] wlp_mono [OF Acquire_accounts [OF s]])
qed

lemma Open_accounts:
  assumes "stream_at M None p"
  shows "wlp (Open L request err) (\<lambda>_. stream_accounts M) p"
proof -
  have imm: "wlp (OpenImmediate L request e) (\<lambda>_. stream_accounts M) p'" if "stream_at M (Some c) p'" for e c and p' :: "StreamingQuery \<times> 'a stream_world_scheme"
    unfolding OpenImmediate_def
  proof (rule keeps_seq [OF keeps_open_methods(4) that], clarify, rule keeps_seq [OF keeps_stream(4)], simp, assumption, goal_cases)
    case (1 _ _ result e' _ p1)
    then show ?case
      by (auto simp: wlp_basic upd_q_def wlp_upd_m stream_at_def stream_accounts_def intro!: wlp_mono [OF ReleaseConnection_accounts])
  qed
  have op: "wlp (bind_m (get_q sq_use_cursor) (\<lambda>u. if u then OpenCursor L request e else OpenImmediate L request e)) (\<lambda>_. stream_accounts M) p'"
    if "stream_at M (Some c) p'" for e c and p' :: "StreamingQuery \<times> 'a stream_world_scheme"
  proof (rule keeps_seq [of "stream_at M (Some c)", OF keeps_get_q that], goal_cases)
    case (1 u p1)
    have "wlp (OpenCursor L request e) (\<lambda>_. stream_accounts M) p1"
      by (rule wlp_mono [OF keepsD [OF keeps_open_methods(3) 1]]) (rule stream_at_accounts)
    with imm [OF 1] show ?case by simp
  qed
  show ?thesis
    unfolding Open_def
  proof (rule keeps_seq [OF keeps_stream(4)], simp, rule assms, unfold wlp_basic, goal_cases)
    case (1 _ p1)
    show ?case
      by (rule wlp_mono [OF AcquireConnection_accounts [OF 1]])
        (auto simp: wlp_basic stream_accounts_at split: prod.split intro: op [unfolded wlp_basic])
  qed
qed

section \<open>The service\<close>

lemma keeps_accountsI:
  "(\<And>r. keeps (stream_at M r) m) \<Longrightarrow> keeps (stream_accounts M) m"
  "(\<And>r p. stream_at M r p \<Longrightarrow> wlp m2 (\<lambda>_. stream_at M None) p) \<Longrightarrow> keeps (stream_accounts M) m2"
  by (force simp: keeps_def stream_accounts_at [of M p for p] intro: stream_at_accounts elim!: wlp_mono)+

lemma keeps_service_calls [keeps_intros]:
  "keeps (stream_accounts M) (Fetch L err)" "keeps (stream_accounts M) (Close L err)" "keeps (stream_accounts M) (Abort L)"
  "keeps (stream_accounts M) (world_m (PQclear_m x))" "keeps (stream_accounts M) (world_m (IsCancelled_m L))"
  "keeps (stream_accounts M) (world_m (Write_m L chunk))"
  by (intro keeps_accountsI(1) keeps_Fetch keeps_calls keeps_accountsI(2) [OF Close_accounts] keeps_accountsI(2) [OF Abort_accounts]; assumption)+

lemmas keeps_service = keeps_control keeps_bind keeps_service_calls

lemma keeps_chunks [keeps_intros]:
  "keeps (stream_accounts M) (WriteResultChunk L kind meta payload)" "keeps (stream_accounts M) (SendBatchChunk L G schema sent payload)"
  "keeps (stream_accounts M) (WriteErrorChunk L G e)" "keeps (stream_accounts M) (cancelled_return L)"
  unfolding WriteResultChunk_def SendBatchChunk_def WriteErrorChunk_def cancelled_return_def Let_def by (intro keeps_service)+

lemma keeps_cxx [keeps_intros]:
  "(\<And>e. keeps I (fl e)) \<Longrightarrow> (\<And>x. keeps I (fr x)) \<Longrightarrow> keeps I (case v of Inl e \<Rightarrow> fl e | Inr x \<Rightarrow> fr x)"
  "(\<And>m. keeps I (k1 m)) \<Longrightarrow> keeps I k2 \<Longrightarrow> keeps I (case e of RuntimeError m \<Rightarrow> k1 m | SignedOverflow \<Rightarrow> k2)"
  "(\<And>st. keeps I (r st)) \<Longrightarrow> (\<And>m l. keeps I (t m l)) \<Longrightarrow> (\<And>l. keeps I (n l)) \<Longrightarrow>
     keeps I (case f of Return st \<Rightarrow> r st | Throw m l \<Rightarrow> t m l | Next l \<Rightarrow> n l)"
  by (auto split: sum.split cxx_error.split flow.split)

lemma keeps_send_batch [keeps_intros]: "keeps (stream_accounts M) (send_batch L G r b e locals)"
  unfolding send_batch_def Let_def by (intro keeps_cxx keeps_service keeps_chunks)

lemma keeps_send_batches [keeps_intros]: "keeps (stream_accounts M) (send_batches L G fetch w n b locals)"
proof (induction L G fetch w n b locals rule: send_batches.induct)
  case (1 L G fetch w n b locals)
  have "keeps (stream_accounts M) (case outcome of Next l \<Rightarrow> (send_batches L G fetch w n (b + w) l :: ('a, flow) qs_proc) | _ \<Rightarrow> ret_m outcome)"
    if "b < n \<and> 0 < w" "\<not> INT_MAX < b + w" for outcome
    by (cases outcome) (use 1 [OF that refl] in \<open>auto intro: keeps_control\<close>)
  then show ?case
    by (subst send_batches.simps) (intro keeps_service keeps_send_batch; assumption)
qed

lemma keeps_handle_portion [keeps_intros]: "keeps (stream_accounts M) (handle_portion L G w fetch locals)"
  unfolding handle_portion_def trailer_only_def Let_def by (intro keeps_service keeps_chunks keeps_send_batches)

lemma keeps_stream_loop [keeps_intros]: "keeps (stream_accounts M) (stream_loop L G w fuel locals)"
proof (induction fuel arbitrary: locals)
  case (Suc fuel)
  then show ?case unfolding stream_loop.simps Let_def by (intro keeps_service keeps_chunks keeps_handle_portion keeps_cxx)
qed (simp add: keeps_control)

lemma keeps_stream_rows [keeps_intros]: "keeps (stream_accounts M) (stream_rows L G w fuel err)"
  unfolding stream_rows_def after_loop_def send_trailer_def finish_stream_def
  by (intro keeps_service keeps_chunks keeps_send_batch keeps_stream_loop keeps_cxx)

lemma run_query_accounts:
  assumes "stream_at M None p"
  shows "wlp (run_query L G w fuel request) (\<lambda>_. stream_accounts M) p"
  unfolding run_query_def wlp_basic(2)
  by (rule wlp_mono [OF Open_accounts [OF assms]])
    (auto intro!: keepsD [of "stream_accounts M"] keeps_service keeps_chunks keeps_stream_rows split: prod.split)

lemma destroy_stream_accounts: "stream_accounts M p \<Longrightarrow> wlp destroy_stream (\<lambda>_ p. accounts M (snd p)) p"
  using session_source.give_back_owner
  by (cases p) (auto simp: destroy_stream_def wlp_basic get_q_def wlp_get_m stream_accounts_def wp_world_m split: option.split)

lemma QueryStream_accounts:
  assumes "accounts M s"
  shows "wlp (QueryStream L G config fuel request) (\<lambda>_. accounts M) s"
proof (cases rule: QueryStream_cases [of config request L G fuel s])
  case (run d)
  let ?q = "StreamingQuery_init d (fetch_rows_of config)"
  have "stream_at M None (?q, s)" using assms by (simp add: stream_at_def StreamingQuery_init_def)
  then have "wlp (bind_m (run_query L G (wire_rows_of config) fuel request) (\<lambda>r. bind_m destroy_stream (\<lambda>_. ret_m r))) (\<lambda>_ p. accounts M (snd p)) (?q, s)"
    unfolding wlp_basic by (intro wlp_mono [OF run_query_accounts]) (auto intro: destroy_stream_accounts)
  then have "wlp (with_stream ?q (run_query L G (wire_rows_of config) fuel request)) (\<lambda>_. accounts M) s" by (rule wlp_with_stream)
  with run(4) show ?thesis by (simp add: wlp_def)
qed (use assms in \<open>simp_all add: wlp_def\<close>)

lemma Pool_Connect_accounts:
  assumes "accounts M s"
  shows "wlp (Pool_Connect L err) (\<lambda>_. accounts M) s"
proof -
  have "accounts M (t\<lparr>refs := (refs t)(c := 1), pool := (pool t)\<lparr>cm_idle := cm_idle (pool t) @ [c]\<rparr>\<rparr>)" if "unowned M c t" for c and t :: "'a store_world_scheme"
    by (rule accounts_move [of "add_mset c M" "t\<lparr>refs := (refs t)(c := 1)\<rparr>"]) (use that in \<open>simp_all add: unowned_def owners_def accounts_def\<close>)
  then show ?thesis
    unfolding Pool_Connect_def wlp_basic wlp_get_m
    by (intro wlp_mono [OF wp_imp_wlp [OF PqConnection_Connect_accounts [OF assms]]])
      (auto simp: wlp_basic share_new_def upd_pool_def wlp_upd_m split: option.splits)
qed

lemma monitor_accounts:
  assumes "accounts M s"
  shows "wp (SetServing b) (\<lambda>_ p. accounts M (snd p)) (h, s)" "wp (ProbeOnce L) (\<lambda>_ p. accounts M (snd p)) (h, s)"
proof -
  show "wp (SetServing b) (\<lambda>_ p. accounts M (snd p)) (h, s)" using assms by (simp add: wp_SetServing)
  show "wp (ProbeOnce L) (\<lambda>_ p. accounts M (snd p)) (h, s)"
    using assms
    by (auto simp: ProbeOnce_def wp_simps split: option.split prod.split
        intro!: wp_mono [OF PqConnection_Connect_accounts [OF assms]] unowned_finish)
qed

lemma OnConnectSuccess_accounts: "accounts M s \<Longrightarrow> wp (OnConnectSuccess L params ms) (\<lambda>_ p. accounts M (snd p)) (h, s)"
  unfolding OnConnectSuccess_def
  by (auto simp: wp_simps intro!: wp_mono [OF monitor_accounts(2)] wp_mono [OF monitor_accounts(1)])

lemma on_monitor_accounts:
  assumes "accounts M s" "\<And>h. wp m (\<lambda>_ p. accounts M (snd p)) (h, s)"
  shows "wp (on_monitor m) (\<lambda>_. accounts M) s"
proof -
  have [simp]: "accounts M (t\<lparr>health_monitor := h\<rparr>) = accounts M t" for t :: "'a shard_world_scheme" and h
    by (simp add: accounts_def owners_def)
  show ?thesis using assms by (auto simp: wp_on_monitor split: option.split)
qed

lemma Shard_Connect_accounts:
  assumes "accounts M s"
  shows "wlp (Shard_Connect L config request) (\<lambda>_. accounts M) s"
proof -
  let ?params = "BuildConnectParams config request"
  have frame: "accounts M (t\<lparr>connect_params := x, executor := y\<rparr>) = accounts M t" for t :: "'a shard_world_scheme" and x y
    by (simp add: accounts_def owners_def)
  have failure: "wlp (bind_m (on_monitor OnConnectFailure) (\<lambda>_. ret_m z)) (\<lambda>_. accounts M) t" if "accounts M t" for t :: "'a shard_world_scheme" and z
    unfolding OnConnectFailure_def wlp_basic
    by (rule wp_imp_wlp [OF on_monitor_accounts [OF that monitor_accounts(1) [OF that]]])
  have success: "wlp (bind_m (on_monitor (OnConnectSuccess L ?params ms)) (\<lambda>_. ret_m z)) (\<lambda>_. accounts M) t" if "accounts M t"
    for t :: "'a shard_world_scheme" and z ms
    unfolding wlp_basic by (intro wp_imp_wlp on_monitor_accounts OnConnectSuccess_accounts that)
  show ?thesis
    unfolding Shard_Connect_def Let_def Configure_def upd_pool_def
    using assms
    by (auto simp: wlp_basic(1) wlp_upd_m frame split: prod.split bool.split if_split intro!: wlp_mono [OF Pool_Connect_accounts] failure success
        simp: wlp_basic(2) [of "upd_m _"] wlp_basic(2) [of "Pool_Connect _ _"])
qed

section \<open>Every history of the service\<close>

text \<open>The RPCs, one after the other.\<close>

datatype shard_rpc = RpcConnect ConnectRequest | RpcQueryStream nat QueryRequest | RpcDisconnect DisconnectRequest

fun serve_rpc :: "libpq \<Rightarrow> (flex \<Rightarrow> string) \<Rightarrow> ServerConfig \<Rightarrow> shard_rpc \<Rightarrow> ('a shard_world_scheme, Status) proc" where
  "serve_rpc L G config (RpcConnect request) = bind_m (Shard_Connect L config request) (\<lambda>(st, _). ret_m st)"
| "serve_rpc L G config (RpcQueryStream fuel request) = QueryStream L G config fuel request"
| "serve_rpc L G config (RpcDisconnect request) = bind_m (Shard_Disconnect config request) (\<lambda>(st, _). ret_m st)"

fun serve_rpcs :: "libpq \<Rightarrow> (flex \<Rightarrow> string) \<Rightarrow> ServerConfig \<Rightarrow> shard_rpc list \<Rightarrow> ('a shard_world_scheme, unit) proc" where
  "serve_rpcs L G config [] = ret_m ()"
| "serve_rpcs L G config (rpc # rpcs) = bind_m (serve_rpc L G config rpc) (\<lambda>_. serve_rpcs L G config rpcs)"

lemma keeps_serve_rpc: "keeps (accounts M) (serve_rpc L G config rpc)"
proof (cases rpc)
  case (RpcConnect request)
  then show ?thesis by (auto simp: keeps_def wlp_basic split: prod.split elim!: wlp_mono [OF Shard_Connect_accounts])
next
  case (RpcQueryStream fuel request)
  then show ?thesis by (auto simp: keeps_def intro: QueryStream_accounts)
next
  case (RpcDisconnect request)
  then show ?thesis by (auto simp: keeps_def wlp_basic Shard_Disconnect_def split: prod.split bool.split)
qed

lemma keeps_serve_rpcs: "keeps (accounts M) (serve_rpcs L G config rpcs)"
  by (induction rpcs) (simp_all only: serve_rpcs.simps keeps_control keeps_bind keeps_serve_rpc)

text \<open>No use after free and no leak of a database connection, whatever the clients ask, PostgreSQL answers and
  libpq reports. After any sequence of RPCs on a fresh service, every call that was made on a handle (a statement or
  \<open>PQfinish\<close>) was made on one that was open at that time, so none was used or closed after its \<open>PQfinish\<close>; the
  handles still open are exactly those that wait in the pool or belong to a session, and the reference count of
  each is the number of places it is kept in.\<close>

theorem connections_memory_safe:
  "case serve_rpcs L G config rpcs (shard_init config monitor) of
     Inl blocked \<Rightarrow> True
   | Inr (_, s') \<Rightarrow>
       safe (history s') \<and>
       open_handles (history s') = set (cm_idle (pool s')) \<union> snd ` set (ss_sessions (session_store s')) \<and>
       (\<forall>c. refs s' c = count_list (cm_idle (pool s') @ map snd (ss_sessions (session_store s'))) c)"
proof -
  have "accounts {#} (shard_init config monitor)"
    by (simp add: accounts_def owners_def shard_init_def ConnectionManager_init_def SessionStore_init_def open_handles_def fun_eq_iff)
  from keepsD [OF keeps_serve_rpcs this]
  have "wlp (serve_rpcs L G config rpcs) (\<lambda>_ s'. accounts {#} s') (shard_init config monitor)" .
  then show ?thesis
    by (auto simp: wlp_def accounts_def owners_def split: sum.splits simp flip: count_mset)
qed

end
