(* ===== verification/Result_Safety.thy ===== *)
theory Result_Safety
  imports Handle_Safety
begin

text \<open>
  Memory safety of the libpq results: every \<open>PGresult\<close> the server reads is freed at most once, and what is not freed is
  counted. A result is owned by a local variable, by the stream (\<open>immediate_result_\<close>) or by
  the loop of \<open>QueryStream\<close> (\<open>last_result\<close>); ownership moves with the pointer.
\<close>

section \<open>Owed results\<close>

fun got :: "history \<Rightarrow> PGresult multiset" where
  "got [] = {#}"
| "got (EvExec c sql (Some x) # h) = add_mset x (got h)"
| "got (EvExecParams c sql ps fmt (Some x) # h) = add_mset x (got h)"
| "got (e # h) = got h"

fun freed :: "history \<Rightarrow> PGresult multiset" where
  "freed [] = {#}"
| "freed (EvClear x # h) = add_mset x (freed h)"
| "freed (e # h) = freed h"

text \<open>A result is freed only after it was read and as often as it was.\<close>

fun frees_once :: "history \<Rightarrow> bool" where
  "frees_once [] = True"
| "frees_once (EvClear x # h) = (frees_once h \<and> count (freed h) x < count (got h) x)"
| "frees_once (e # h) = frees_once h"

definition owed :: "PGresult multiset \<Rightarrow> 'a pg_world_scheme \<Rightarrow> bool" where
  "owed M s \<longleftrightarrow> frees_once (history s) \<and> got (history s) = freed (history s) + M"

definition opt :: "'x option \<Rightarrow> 'x multiset" where
  "opt r = (case r of None \<Rightarrow> {#} | Some x \<Rightarrow> {#x#})"

lemma opt_simps [simp]: "opt None = {#}" "opt (Some x) = {#x#}"
  by (simp_all add: opt_def)

lemma owed_events:
  "owed M (s\<lparr>history := EvExec c sql r # history s\<rparr>) \<longleftrightarrow> frees_once (history s) \<and> got (history s) + opt r = freed (history s) + M"
  "owed M (s\<lparr>history := EvExecParams c sql ps fmt r # history s\<rparr>) \<longleftrightarrow> frees_once (history s) \<and> got (history s) + opt r = freed (history s) + M"
  "owed M (s\<lparr>history := EvClear x # history s\<rparr>) = owed (add_mset x M) s"
  "owed M (s\<lparr>history := EvPoll b # history s\<rparr>) = owed M s" "owed M (s\<lparr>history := EvWrite chunk b # history s\<rparr>) = owed M s"
  "owed M (s\<lparr>history := EvFinish c # history s\<rparr>) = owed M s"
  by (cases r; auto simp: owed_def)+

lemma owed_frame [simp]:
  "owed M (s\<lparr>held := H\<rparr>) = owed M s" "owed M (s\<lparr>refs := x\<rparr>) = owed M s" "owed M (s\<lparr>next_conn := n\<rparr>) = owed M s"
  "owed M (p\<lparr>pool := y\<rparr>) = owed M p" "owed M (t\<lparr>session_store := z\<rparr>) = owed M t" "owed M (u\<lparr>g_cursor_counter := k\<rparr>) = owed M u"
  by (simp_all add: owed_def)

section \<open>Ownership through a computation\<close>

text \<open>
  \<open>frees b K P m\<close>: if the caller of \<open>m\<close> owns \<open>K\<close>, and \<open>b\<close> says that the stream owns nothing, then at the end it owns an
  \<open>R\<close> with \<open>P r R b'\<close> for the value \<open>r\<close>, where \<open>b'\<close> again says that the stream owns nothing. Nothing else changes hands.
\<close>

definition owns :: "bool \<Rightarrow> PGresult multiset \<Rightarrow> PGresult multiset \<Rightarrow> StreamingQuery \<times> 'a pg_world_scheme \<Rightarrow> bool" where
  "owns b K M p \<longleftrightarrow> (b \<longrightarrow> sq_immediate_result (fst p) = None) \<and> owed (M + K + opt (sq_immediate_result (fst p))) (snd p)"

definition frees :: "bool \<Rightarrow> PGresult multiset \<Rightarrow> ('b \<Rightarrow> PGresult multiset \<Rightarrow> bool \<Rightarrow> bool) \<Rightarrow> (StreamingQuery \<times> 'a pg_world_scheme, 'b) proc \<Rightarrow> bool" where
  "frees b K P m \<longleftrightarrow> (\<forall>M p. owns b K M p \<longrightarrow> wlp m (\<lambda>r p'. \<exists>R b'. P r R b' \<and> owns b' R M p') p)"

lemma freesD: "frees b K P m \<Longrightarrow> owns b K M p \<Longrightarrow> wlp m (\<lambda>r p'. \<exists>R b'. P r R b' \<and> owns b' R M p') p"
  unfolding frees_def by blast

text \<open>A computation that gives back all it takes.\<close>

abbreviation neutral :: "bool \<Rightarrow> PGresult multiset \<Rightarrow> (StreamingQuery \<times> 'a pg_world_scheme, 'b) proc \<Rightarrow> bool" where
  "neutral b K m \<equiv> frees b K (\<lambda>_ R b'. R = K \<and> b' = b) m"

lemma frees_mono: "frees b K P m \<Longrightarrow> (\<And>r R b'. P r R b' \<Longrightarrow> Q r R b') \<Longrightarrow> frees b K Q m"
  unfolding frees_def by (blast intro: wlp_mono)

lemma frees_ret: "P a K b \<Longrightarrow> frees b K P (ret_m a)"
  by (auto simp: frees_def wlp_basic)

lemma frees_block: "frees b K P (\<lambda>_. Inl x)"
  by (simp add: frees_def wlp_def)

lemma frees_bind:
  assumes "frees b K P m" "\<And>x R b'. P x R b' \<Longrightarrow> frees b' R Q (f x)"
  shows "frees b K Q (bind_m m f)"
  unfolding frees_def wlp_basic
proof (intro allI impI, goal_cases)
  case (1 M p)
  with assms(1) have "wlp m (\<lambda>r p'. \<exists>R b'. P r R b' \<and> owns b' R M p') p" unfolding frees_def by blast
  then show ?case by (rule wlp_mono) (use assms(2) in \<open>unfold frees_def, blast\<close>)
qed

lemma frees_control:
  "(t \<Longrightarrow> frees b K P m1) \<Longrightarrow> (\<not> t \<Longrightarrow> frees b K P m2) \<Longrightarrow> frees b K P (if t then m1 else m2)"
  "(v = None \<Longrightarrow> frees b K P m0) \<Longrightarrow> (\<And>x. v = Some x \<Longrightarrow> frees b K P (m3 x)) \<Longrightarrow> frees b K P (case v of None \<Rightarrow> m0 | Some x \<Rightarrow> m3 x)"
  "(\<And>x y. z = (x, y) \<Longrightarrow> frees b K P (m4 x y)) \<Longrightarrow> frees b K P (case z of (x, y) \<Rightarrow> m4 x y)"
  by (auto split: option.split prod.split)

lemma owns_held [simp]: "owns b K M (q, s\<lparr>held := H\<rparr>) = owns b K M (q, s)"
  by (simp add: owns_def)

lemma frees_lock:
  assumes "frees b K P m"
  shows "frees b K P (with_lock c m)"
  unfolding frees_def
proof (intro allI impI, goal_cases)
  case (1 M p)
  obtain q s where p: "p = (q, s)" by (cases p)
  have "wlp m (\<lambda>r p'. \<exists>R b'. P r R b' \<and> owns b' R M p') (q, s\<lparr>held := insert c (held s)\<rparr>)"
    using assms 1 p by (simp add: frees_def)
  then show ?case by (auto simp: p with_lock_def wlp_def bind_m_def world_m_def split: sum.splits)
qed

lemma frees_stream:
  "neutral b K (get_m f)" "neutral b K (get_q g)" "(\<And>q. sq_immediate_result (u q) = sq_immediate_result q) \<Longrightarrow> neutral b K (upd_q u)"
  by (auto simp: frees_def owns_def get_q_def upd_q_def wlp_get_m wlp_upd_m)

lemma frees_world:
  assumes "\<And>M. keeps (owed M) m"
  shows "neutral b K (world_m m)"
proof -
  have "wlp (world_m m) (\<lambda>_. owns b K M) p" if "owns b K M p" for M and p :: "StreamingQuery \<times> 'a pg_world_scheme"
    using keepsD [OF assms, of "M + K + opt (sq_immediate_result (fst p))" "snd p"] that
    by (cases p) (auto simp: owns_def wp_world_m elim!: wlp_mono)
  then show ?thesis by (auto simp: frees_def elim!: wlp_mono)
qed

lemma owns_exec:
  "owns b K M (q, s) \<Longrightarrow> owns b (K + opt r) M (q, s\<lparr>history := EvExec c sql r # history s\<rparr>)"
  "owns b K M (q, s) \<Longrightarrow> owns b (K + opt r) M (q, s\<lparr>history := EvExecParams c sql ps fmt r # history s\<rparr>)"
  unfolding owns_def fst_conv snd_conv owed_def by (cases r; simp add: ac_simps)+

lemma frees_calls:
  "frees b K (\<lambda>r R b'. R = K + opt r \<and> b' = b) (Exec L c sql)" "frees b K (\<lambda>r R b'. R = K + opt r \<and> b' = b) (ExecParams L c sql ps fmt)"
  "frees b (K + opt r) (\<lambda>_ R b'. R = K \<and> b' = b) (ClearResult r)" "frees b (K + opt r) (\<lambda>_ R b'. R = K \<and> b' = b) (world_m (PQclear_m r))"
proof -
  show "frees b K (\<lambda>r R b'. R = K + opt r \<and> b' = b) (Exec L c sql)" "frees b K (\<lambda>r R b'. R = K + opt r \<and> b' = b) (ExecParams L c sql ps fmt)"
    by (simp_all add: frees_def stream_calls wp_world_m wlp_execs owns_exec)
  show "frees b (K + opt r) (\<lambda>_ R b'. R = K \<and> b' = b) (world_m (PQclear_m r))"
    by (cases r) (auto simp: frees_def owns_def wp_simps owed_events)
  then show "frees b (K + opt r) (\<lambda>_ R b'. R = K \<and> b' = b) (ClearResult r)" by (simp add: ClearResult_def)
qed

lemma frees_outside: "neutral b K (world_m (get_m k))" "neutral b K (world_m (IsCancelled_m L))" "neutral b K (world_m (Write_m L chunk))" "neutral b K NextCursorName"
  by (auto simp: frees_def owns_def NextCursorName_def wlp_basic wlp_get_m wlp_upd_m wp_simps owed_events)

lemmas frees_rules = frees_bind [OF frees_calls(1)] frees_bind [OF frees_calls(2)] frees_bind [OF frees_calls(3)] frees_bind [OF frees_calls(4)]
  frees_bind [OF frees_stream(1)] frees_bind [OF frees_stream(2)] frees_bind [OF frees_stream(3)] frees_bind [OF frees_outside(1)]
  frees_bind [OF frees_outside(2)] frees_bind [OF frees_outside(3)] frees_bind [OF frees_outside(4)] frees_control frees_lock frees_block frees_ret

section \<open>A stream's methods\<close>

lemma frees_EndTransaction: "neutral b K (EndTransaction L commit err)"
  unfolding EndTransaction_def Let_def by (auto intro!: frees_rules frees_stream)

lemma frees_CloseCursor: "neutral b K (CloseCursor L err)"
  unfolding CloseCursor_def Let_def by (auto intro!: frees_rules frees_stream)

lemma frees_BeginIfNeeded: "neutral b K (BeginIfNeeded L err)"
  unfolding BeginIfNeeded_def Let_def by (auto simp: bind_laws intro!: frees_rules)

lemma frees_DeclareCursor: "neutral b K (DeclareCursor L request err)"
  unfolding DeclareCursor_def Let_def by (auto intro!: frees_rules frees_bind [OF frees_EndTransaction])

lemma frees_OpenCursor: "neutral b K (OpenCursor L request err)"
  unfolding OpenCursor_def by (auto intro!: frees_bind [OF frees_BeginIfNeeded] frees_rules frees_DeclareCursor)

text \<open>What is returned changes hands.\<close>

lemma frees_returns:
  "frees b K (\<lambda>r R b'. R = K + opt (fst r) \<and> b' = b) (ExecuteImmediate L request err)"
  "frees b K (\<lambda>r R b'. R = K + opt (fst r) \<and> b' = b) (FetchCursor L err)"
  unfolding ExecuteImmediate_def FetchCursor_def Let_def by (auto intro!: frees_rules)

lemma frees_Fetch: "frees b K (\<lambda>r R b'. R = K + opt (fst r)) (Fetch L err)"
proof -
  have "wlp (Fetch L err) (\<lambda>r p'. \<exists>R b'. R = K + opt (fst r) \<and> owns b' R M p') (q, s)" if "owns b K M (q, s)" for M q s
  proof (cases "sq_connection q = None \<or> \<not> sq_use_cursor q")
    case True
    with that show ?thesis
      by (auto simp: Fetch_def wlp_basic wlp_get_m upd_q_def wlp_upd_m owns_def ac_simps intro: exI [of _ True] exI [of _ b])
  next
    case False
    then have "Fetch L err (q, s) = FetchCursor L err (q, s)" by (auto simp: Fetch_def bind_m_def)
    moreover have "wlp (FetchCursor L err) (\<lambda>r. owns b (K + opt (fst r)) M) (q, s)"
      using freesD [OF frees_returns(2) that] by simp
    ultimately show ?thesis unfolding wlp_iff by metis
  qed
  then show ?thesis by (auto simp: frees_def)
qed

lemma frees_clear_immediate: "frees b K (\<lambda>_ R b'. R = K \<and> b') clear_immediate"
proof -
  have "wlp clear_immediate (\<lambda>_. owns True K M) (q, s)" if "owns b K M (q, s)" for M q s
    using that by (cases "sq_immediate_result q")
      (auto simp: clear_immediate_def get_q_def upd_q_def stream_calls wp_simps wlp_basic wlp_get_m wlp_upd_m owns_def owed_events)
  then show ?thesis unfolding frees_def by (auto intro: wlp_mono exI [of _ True])
qed

lemma frees_set_immediate: "frees True (K + opt r) (\<lambda>_ R b'. R = K) (upd_q (\<lambda>q. q\<lparr>sq_immediate_result := r\<rparr>))"
  by (auto simp: frees_def owns_def upd_q_def wlp_upd_m ac_simps intro: exI [of _ False])

section \<open>Connections\<close>

lemma owed_Connect: "keeps (owed M) (PqConnection_Connect L params err ms)"
proof -
  have "wp (PqConnection_Connect L params err ms) (\<lambda>_. owed M) s" if "owed M s" for s
    using that unfolding PqConnection_Connect_def
    by (auto simp: wp_simps wp_ApplyStatementTimeout result_status_def Let_def owed_def split: option.splits)
  then show ?thesis by (auto simp: keeps_def intro: wp_imp_wlp)
qed

lemma owed_steps:
  "keeps (owed M) (share_drop c)" "keeps (owed M) (share_new c)" "keeps (owed M) (share_copy c)"
  by (auto simp: keeps_def share_drop_def share_new_def share_copy_def PQfinish_m_def record_event_def wlp_basic wlp_get_m wlp_upd_m owed_def)

lemma owed_containers: "keeps (owed M) (upd_pool f)" "keeps (owed M) notify_pool" "keeps (owed M) (upd_sessions g)"
  by (auto simp: keeps_def upd_pool_def notify_pool_def upd_sessions_def wlp_upd_m owed_def)

lemmas owed_rules = keeps_control keeps_bind owed_Connect owed_steps owed_containers

lemma owed_pool: "keeps (owed M) (Acquire L)" "keeps (owed M) (return_lease L c b)"
proof -
  have "keeps (owed M) Acquire_enter" by (auto simp: keeps_def Acquire_enter_def wlp_def Let_def split: list.split)
  then show "keeps (owed M) (Acquire L)"
    unfolding Acquire_def Acquire_create_def CreateConnection_def by (intro owed_rules)
  show "keeps (owed M) (return_lease L c b)" unfolding return_lease_def Release_def by (intro owed_rules)
qed

lemma owed_GetOrCreate: "keeps (owed M) (GetOrCreate L session_id params err)"
  unfolding GetOrCreate_def open_session_def by (intro owed_rules)

lemma frees_connections:
  "neutral b K (AcquireConnection L request err)" "neutral b K (ReleaseConnection L broken)"
proof -
  note steps = frees_bind [OF frees_world [OF owed_pool(1)]] frees_bind [OF frees_world [OF owed_pool(2)]]
    frees_bind [OF frees_world [OF owed_GetOrCreate]] frees_bind [OF frees_world [OF owed_steps(1)]]
  show "neutral b K (AcquireConnection L request err)" unfolding AcquireConnection_def by (auto intro!: steps frees_rules)
  show "neutral b K (ReleaseConnection L broken)"
    unfolding ReleaseConnection_def by (auto simp: bind_laws intro!: steps frees_rules frees_stream(3))
qed

lemma frees_ends:
  "frees b K (\<lambda>_ R b'. R = K \<and> b') (Close L err)" "frees b K (\<lambda>_ R b'. R = K \<and> b') (Abort L)"
  unfolding Close_def Abort_def
  by (auto simp: bind_laws intro!: frees_bind [OF frees_clear_immediate] frees_rules frees_bind [OF frees_CloseCursor] frees_bind [OF frees_EndTransaction]
      frees_bind [OF frees_connections(2)] frees_mono [OF frees_connections(2)])

lemma frees_OpenImmediate: "frees True K (\<lambda>_ R b'. R = K) (OpenImmediate L request err)"
  unfolding OpenImmediate_def
proof (rule frees_bind [OF frees_returns(1)], goal_cases)
  case (1 x R b')
  obtain result e where x: "x = (result, e)" by (cases x)
  have rest: "frees b'' K (\<lambda>_ R b'. R = K) (if result = None then bind_m (ReleaseConnection L True) (\<lambda>_. ret_m (False, e))
      else bind_m (upd_q (\<lambda>q. q\<lparr>sq_immediate_done := False\<rparr>)) (\<lambda>_. ret_m (True, e)))" for b''
    by (auto intro!: frees_rules frees_bind [OF frees_connections(2)])
  from 1 have "R = K + opt result" "b' = True" by (simp_all add: x)
  then show ?case by (simp only: x split) (rule frees_bind [OF frees_set_immediate], simp only: rest)
qed

lemma frees_Open: "frees True K (\<lambda>_ R b'. R = K) (Open L request err)"
  unfolding Open_def
  by (auto intro!: frees_rules frees_bind [OF frees_connections(1)] frees_mono [OF frees_OpenCursor] frees_OpenImmediate)

section \<open>The service\<close>

text \<open>The loop owns \<open>last_result\<close>; when \<open>QueryStream\<close> returns, what it still owns is lost.\<close>

fun leaves :: "flow \<Rightarrow> PGresult multiset \<Rightarrow> bool \<Rightarrow> bool" where
  "leaves (Return st) R b = (size R \<le> 1 \<and> b)"
| "leaves (Throw what locals) R b = (R = opt (ql_last_result locals))"
| "leaves (Next locals) R b = (R = opt (ql_last_result locals))"

definition quits :: "flow \<Rightarrow> PGresult multiset \<Rightarrow> bool \<Rightarrow> bool" where
  "quits y R b \<longleftrightarrow> leaves y R b \<and> (\<forall>l. y \<noteq> Next l)"

lemma size_opt [simp]: "size (opt r) \<le> Suc 0"
  by (cases r) simp_all

lemma frees_chunks:
  "neutral b K (WriteResultChunk L kind meta payload)" "neutral b K (SendBatchChunk L G schema sent payload)" "neutral b K (WriteErrorChunk L G e)"
proof -
  show chunk: "neutral b K (WriteResultChunk L kind meta payload)" for kind meta payload
    unfolding WriteResultChunk_def by (auto intro!: frees_rules frees_outside)
  show "neutral b K (SendBatchChunk L G schema sent payload)"
    unfolding SendBatchChunk_def Let_def by (auto intro!: frees_rules frees_bind [OF chunk])
  show "neutral b K (WriteErrorChunk L G e)" unfolding WriteErrorChunk_def Let_def by (auto intro!: frees_rules)
qed

lemmas frees_service = frees_rules frees_bind [OF frees_chunks(1)] frees_bind [OF frees_chunks(2)] frees_bind [OF frees_chunks(3)]
  frees_bind [OF frees_ends(1)] frees_bind [OF frees_ends(2)]

lemma frees_send_batch: "frees b (opt (ql_last_result l)) leaves (send_batch L G r i j l)"
  unfolding send_batch_def cancelled_return_def Let_def
  by (auto split: sum.split cxx_error.split intro!: frees_service)

lemma frees_send_batches: "frees b (opt (ql_last_result l)) leaves (send_batches L G fetch w n i l)"
proof (induction L G fetch w n i l arbitrary: b rule: send_batches.induct)
  case (1 L G fetch w n i l)
  show ?case
  proof (cases "i < n \<and> 0 < w \<and> i + w \<le> INT_MAX")
    case True
    have "frees b' R leaves (case y of Next l \<Rightarrow> (send_batches L G fetch w n (i + w) l :: ('a, flow) qs_proc) | _ \<Rightarrow> ret_m y)" if "leaves y R b'" for y R b'
      using that True 1 by (cases y) (auto intro: frees_ret)
    with True show ?thesis by (subst send_batches.simps) (auto intro!: frees_bind [OF frees_send_batch])
  next
    case False
    then show ?thesis by (subst send_batches.simps) (auto intro!: frees_rules)
  qed
qed

lemma frees_trailer:
  "frees b (opt (ql_last_result l)) (\<lambda>y R b'. leaves (fst y) R b') (trailer_only L G fetch l)"
  "frees b (opt (ql_last_result l)) quits (send_trailer L G l)"
  unfolding trailer_only_def send_trailer_def quits_def
  by (auto intro!: frees_service frees_bind [OF frees_calls(4) [where K = "{#}", unfolded add_0]])

lemma frees_handle_portion: "frees b ({#fetch#} + opt (ql_last_result l)) (\<lambda>y R b'. leaves (fst y) R b') (handle_portion L G w fetch l)"
proof -
  have batches: "frees b {#fetch#} (\<lambda>y R b'. leaves (fst y) R b') (bind_m (send_batches L G fetch w n 0 l') (\<lambda>y. ret_m (y, False)))"
    if "ql_last_result l' = Some fetch" for n l' b
    by (rule frees_bind [OF frees_send_batches [of b l' L G fetch w n 0, unfolded that opt_simps]]) (auto intro: frees_ret)
  have trailer: "frees b {#fetch#} (\<lambda>y R b'. leaves (fst y) R b') (trailer_only L G fetch l')" if "ql_last_result l' = Some fetch" for l' b
    using frees_trailer(1) [of b l' L G fetch] that by simp
  show ?thesis
    unfolding handle_portion_def Let_def
    by (rule frees_bind [OF frees_calls(4)])
      (auto intro!: frees_control batches trailer frees_ret frees_bind [OF frees_chunks(3)] frees_bind [OF frees_ends(2)])
qed

lemma frees_stream_loop: "frees b (opt (ql_last_result l)) leaves (stream_loop L G w fuel l)"
proof (induction fuel arbitrary: l b)
  case (Suc fuel)
  have portion: "frees b' (add_mset r (opt (ql_last_result l'))) leaves (bind_m (handle_portion L G w r l') (\<lambda>(y, stop). case y of
      Next l' \<Rightarrow> if stop then ret_m (Next l') else (stream_loop L G w fuel l' :: ('a, flow) qs_proc) | _ \<Rightarrow> ret_m y))" for r l' b'
  proof (rule frees_bind [OF frees_handle_portion [of b' r l', unfolded add_mset_add_single [symmetric] add.commute [of "{#r#}"]]], goal_cases)
    case (1 x R b'')
    then show ?case by (cases x; cases "fst x") (auto intro: frees_ret Suc.IH)
  qed
  show ?case
    unfolding stream_loop.simps Let_def
    by (auto split: option.split intro!: frees_bind [OF frees_outside(2)] frees_bind [OF frees_Fetch] frees_control frees_ret
        frees_bind [OF frees_chunks(3)] frees_bind [OF frees_ends(2)] portion [where l' = "l\<lparr>ql_exec_error := e\<rparr>" for e, simplified])
qed (simp add: frees_block)

lemma frees_stream_rows: "frees b {#} (\<lambda>_ R b'. size R \<le> 1 \<and> b') (stream_rows L G w fuel err)"
proof -
  have loop: "frees b {#} leaves (stream_loop L G w fuel (query_locals_init err) :: ('a, flow) qs_proc)"
    using frees_stream_loop [of b "query_locals_init err" L G w fuel] by (simp add: query_locals_init_def)
  have after: "frees b' (opt (ql_last_result l)) quits (after_loop L G l :: ('a, flow) qs_proc)" for l b'
  proof -
    have trailing: "frees b'' R quits (case y of Next l' \<Rightarrow> (send_trailer L G l' :: ('a, flow) qs_proc) | _ \<Rightarrow> ret_m y)" if "leaves y R b''" for y R b''
      using that by (cases y) (auto simp: quits_def [of "Return _"] quits_def [of "Throw _ _"] intro: frees_ret frees_trailer(2))
    show ?thesis
      unfolding after_loop_def
      by (rule frees_control(1), rule frees_bind [OF frees_send_batch], erule trailing, rule frees_trailer(2))
  qed
  have next_step: "frees b' R quits (case y of Next l \<Rightarrow> (after_loop L G l :: ('a, flow) qs_proc) | _ \<Rightarrow> ret_m y)" if "leaves y R b'" for y R b'
    using that by (cases y) (auto simp: quits_def [of "Return _"] quits_def [of "Throw _ _"] intro: frees_ret after)
  have finish: "frees b' R (\<lambda>_ R b'. size R \<le> 1 \<and> b') (finish_stream L G y :: ('a, Status) qs_proc)" if "quits y R b'" for y R b'
  proof (cases y)
    case (Throw what l)
    with that have R: "R = {#} + opt (ql_last_result l)" by (simp add: quits_def)
    show ?thesis
      unfolding Throw finish_stream_def flow.case R
      by (rule frees_bind [OF frees_calls(4)]) (auto intro!: frees_bind [OF frees_ends(2)] frees_bind [OF frees_chunks(3)] frees_ret)
  qed (use that in \<open>auto simp: finish_stream_def quits_def intro: frees_ret\<close>)
  show ?thesis
    unfolding stream_rows_def by (rule frees_bind [OF loop], rule frees_bind [OF next_step], assumption, erule finish)
qed

lemma frees_run_query: "frees True {#} (\<lambda>_ R b'. size R \<le> 1 \<and> b' \<or> R = {#}) (run_query L G w fuel request)"
  unfolding run_query_def
  by (rule frees_bind [OF frees_Open])
    (auto intro!: frees_control frees_bind [OF frees_chunks(3)] frees_ret frees_mono [OF frees_stream_rows])

section \<open>What a query may lose\<close>

text \<open>C10: no double free of a result, and at most one leaked per query. Whatever PostgreSQL answers and however a query ends, every
  \<open>PQclear\<close> frees a result that was read and not yet freed, and at the end all the results of the query are
  freed except at most one.\<close>

theorem QueryStream_results_safe:
  assumes "QueryStream L G config fuel request s = Inr (st, s')" "owed M s"
  shows "\<exists>K. size K \<le> 1 \<and> owed (M + K) s'"
proof (cases rule: QueryStream_cases [of config request L G fuel s])
  case (run d)
  let ?q = "StreamingQuery_init d (fetch_rows_of config)"
  have lost: "\<exists>K. size K \<le> 1 \<and> owed (M + K) (snd p)" if "owns b R M p" "size R \<le> 1 \<and> b \<or> R = {#}"
    for b R and p :: "StreamingQuery \<times> 'a shard_world_scheme"
    by (rule exI [of _ "R + opt (sq_immediate_result (fst p))"]) (use that in \<open>auto simp: owns_def add.assoc\<close>)
  have "owns True {#} M (?q, s)" using assms(2) by (simp add: owns_def StreamingQuery_init_def)
  from freesD [OF frees_run_query this]
  have "wlp (run_query L G (wire_rows_of config) fuel request) (\<lambda>_ p. \<exists>K. size K \<le> 1 \<and> owed (M + K) (snd p)) (?q, s)"
    by (rule wlp_mono) (blast intro: lost)
  moreover have "wlp destroy_stream (\<lambda>_ p. \<exists>K. size K \<le> 1 \<and> owed (M + K) (snd p)) p" if "\<exists>K. size K \<le> 1 \<and> owed (M + K) (snd p)" for p
    using that keepsD [OF owed_steps(1)]
    by (cases p) (fastforce simp: destroy_stream_def wlp_basic get_q_def wlp_get_m wp_world_m split: option.split elim!: wlp_mono)
  ultimately have "wlp (with_stream ?q (run_query L G (wire_rows_of config) fuel request)) (\<lambda>_ s'. \<exists>K. size K \<le> 1 \<and> owed (M + K) s') s"
    by (intro wlp_with_stream) (auto simp: wlp_basic elim!: wlp_mono)
  from wlpD [OF this] run(4) assms(1) show ?thesis by metis
qed (use assms in \<open>auto intro: exI [of _ "{#}"]\<close>)

text \<open>
  The one that may be lost is \<open>last_result\<close>: a client that goes away before the last chunk is written costs the server
  the memory of the portion it was sending.
\<close>

definition deaf_libpq :: libpq where
  "deaf_libpq = (demo_libpq [])\<lparr>Write := (\<lambda>_ _. False)\<rparr>"

definition delete_request :: QueryRequest where
  "delete_request = demo_request\<lparr>qr_text := ''DELETE FROM t'', qr_params := []\<rparr>"

lemma wp_Abort_owed:
  assumes "sq_connection q = Some c" "c \<notin> held s" "\<not> sq_cursor_open q" "sq_immediate_result q = None" "owed M s"
  shows "wp (Abort L) (\<lambda>_ p. owed M (snd p)) (q, s)"
proof -
  obtain p where run: "Abort L (q, s) = Inr ((), p)" using wp_Abort [of q c s L] assms(1-3) by (auto simp: wp_iff)
  have "owns True {#} M (q, s)" using assms(4,5) by (simp add: owns_def)
  from wlpD [OF freesD [OF frees_ends(2) this] run] show ?thesis by (auto simp: wp_def run owns_def)
qed

lemma deaf_run_query:
  assumes "sq_connection q = Some 0" "0 \<notin> held s" "\<not> sq_cursor_open q" "\<not> sq_use_cursor q" "\<not> sq_immediate_done q"
    "sq_immediate_result q = Some x" "PQresultStatus x = PGRES_COMMAND_OK" "PQnfields x = 0" "owed {#x#} s"
  shows "wp (stream_rows deaf_libpq (\<lambda>_. ''m'') w 1 (Some [])) (\<lambda>st p. status_code st = CANCELLED \<and> owed {#x#} (snd p)) (q, s)"
proof -
  have "owed {#x#} (s\<lparr>history := EvWrite chunk b # EvPoll b' # history s\<rparr>)" for chunk b b' using assms(9) by (simp add: owed_def)
  then show ?thesis
    using assms(1-8)
    by (auto simp: stream_rows_def wp_simps Fetch_def handle_portion_def trailer_only_def WriteResultChunk_def EncodeResultTrailer_def
        query_locals_init_def finish_stream_def deaf_libpq_def demo_libpq_def Let_def mk_status_def intro!: wp_mono [OF wp_Abort_owed])
qed

lemma deaf_client_run:
  "\<exists>st s' x. QueryStream deaf_libpq (\<lambda>_. ''m'') ServerConfig_init 1 delete_request demo_shard = Inr (st, s') \<and>
     status_code st = CANCELLED \<and> owed {#x#} s'"
proof -
  let ?L = deaf_libpq and ?d = ConnectParams_init and ?n = "fetch_rows_of ServerConfig_init" and ?sql = "''DELETE FROM t''"
  let ?x = "command_result PGRES_COMMAND_OK ?sql []"
  have accepted: "\<not> query_refused ServerConfig_init delete_request"
    by (simp add: query_refused_def host_refused_def delete_request_def demo_request_def ServerConfig_init_def cast_int32_def)
  have sql: "\<not> IsTupleStreamingSql ?sql"
    by (simp add: IsTupleStreamingSql_def UpperToken_def TrimSql_def upcase_def substr_def sql_space_def find_last_index_def toupper_def Let_def)
  have "accepts_connections ?L" by (simp add: accepts_connections_def deaf_libpq_def demo_libpq_def demo_exec_def)
  then obtain s0 where acq: "Acquire ?L demo_shard = Inr (Some 0, s0)"
    using accepting_Acquire [of ?L demo_shard] by (auto simp: demo_shard_def shard_init_def ConnectionManager_init_def ConnectParams_init_def)
  have shard: "owed {#} demo_shard" "held demo_shard = {}" "executor demo_shard \<noteq> None" "connect_params demo_shard = Some ?d"
    by (simp_all add: demo_shard_def shard_init_def owed_def)
  have s0: "owed {#} s0" "held s0 = {}" using wlpD [OF keepsD [OF owed_pool(1) shard(1)] acq] Acquire_held [OF acq] shard(2) by simp_all
  have eacq: "Execute_acquire ?L ?d delete_request (Some []) demo_shard = Inr ((Some 0, Some []), s0)"
    using acq by (simp add: Execute_acquire_def delete_request_def demo_request_def bind_m_def)
  have result: "exec_result ?L delete_request 0 h = Some ?x" for h
    by (simp add: exec_result_def deaf_libpq_def demo_libpq_def delete_request_def c_str_def)
  have ok: "IsOkStatus (PQresultStatus ?x)" "PQresultStatus ?x = PGRES_COMMAND_OK" "PQnfields ?x = 0" by (simp_all add: IsOkStatus_def command_result_def)
  let ?s1 = "s0\<lparr>history := EvExecParams 0 (c_str ?sql) (BuildParams delete_request) 1 (Some ?x) # history s0\<rparr>"
  let ?q = "(acquired ?d ?n delete_request 0)\<lparr>sq_immediate_result := Some ?x, sq_immediate_done := False\<rparr>"
  have request: "qr_text delete_request = ?sql" "result_format_of delete_request = 1"
    by (simp_all add: delete_request_def demo_request_def result_format_of_def)
  have "wp (OpenImmediate ?L delete_request (Some [])) (\<lambda>r p. r = (True, Some []) \<and> p = (?q, ?s1)) (acquired ?d ?n delete_request 0, s0)"
    unfolding OpenImmediate_def
    by (simp add: wp_simps wp_ExecuteImmediate s0(2) result ok(1) request Let_def)
  then have "Open ?L delete_request (Some []) (StreamingQuery_init ?d ?n, demo_shard) = Inr ((True, Some []), (?q, ?s1))"
    using Open_acquired [OF eacq, of ?n] sql by (auto simp: request wp_iff)
  moreover have "wp (stream_rows ?L (\<lambda>_. ''m'') (wire_rows_of ServerConfig_init) 1 (Some [])) (\<lambda>st p. status_code st = CANCELLED \<and> owed {#?x#} (snd p)) (?q, ?s1)"
    by (rule deaf_run_query) (use s0 ok sql in \<open>simp_all add: request owed_def acquired_def StreamingQuery_init_def\<close>)
  ultimately obtain st q s2 where run: "run_query ?L (\<lambda>_. ''m'') (wire_rows_of ServerConfig_init) 1 delete_request (StreamingQuery_init ?d ?n, demo_shard) =
      Inr (st, (q, s2))" and st: "status_code st = CANCELLED" "owed {#?x#} s2"
    by (auto simp: run_query_def bind_m_def wp_iff)
  have "wp destroy_stream (\<lambda>_ p. owed {#?x#} (snd p)) (q, s2)"
    using st(2) by (cases "sq_connection q") (simp_all add: destroy_stream_def wp_simps owed_def)
  with run st(1) show ?thesis
    using QueryStream_runs [OF accepted shard(3,4), of ?L "\<lambda>_. ''m''" 1] by (auto simp: with_stream_def bind_m_def wp_iff)
qed

text \<open>The lost result: the last chunk cannot be written, the query is cancelled, and a result stays allocated for ever.\<close>

theorem cancelled_query_leaks_result:
  "\<exists>L request st s' x. QueryStream L (\<lambda>_. ''m'') ServerConfig_init 1 request demo_shard = Inr (st, s') \<and>
     status_code st = CANCELLED \<and> owed {#x#} s'"
  using deaf_client_run by blast

theorem QueryStream_results_safe_witness:
  "\<exists>st s' K. QueryStream deaf_libpq (\<lambda>_. ''m'') ServerConfig_init 1 delete_request demo_shard = Inr (st, s') \<and> size K \<le> 1 \<and> owed K s'"
proof -
  obtain st s' where "QueryStream deaf_libpq (\<lambda>_. ''m'') ServerConfig_init 1 delete_request demo_shard = Inr (st, s')"
    using deaf_client_run by blast
  moreover have "owed {#} demo_shard" by (simp add: demo_shard_def shard_init_def owed_def)
  ultimately show ?thesis using QueryStream_results_safe [of deaf_libpq "\<lambda>_. ''m''" ServerConfig_init 1 delete_request demo_shard st s' "{#}"] by auto
qed

end
