(* ===== verification/Query_Accounts.thy ===== *)
theory Query_Accounts
  imports Query_Delivery Result_Safety
begin

text \<open>
  What a query gives back. The accounts of the connections (\<open>accounts\<close>: every pointer counted, every open handle owned) and of
  the results (\<open>owed\<close>: every result that was read and not freed) are carried through \<open>QueryExecutor::Execute\<close> followed by
  \<open>FinishQuery\<close> (\<open>src/src/pg/query_executor.cpp\<close>), and the first together with the pool's counter through \<open>QueryStream\<close>.
\<close>

section \<open>The executor\<close>

text \<open>The execution owns its connection's pointer and its result.\<close>

definition exec_accounts ::
    "conn multiset \<Rightarrow> PGresult multiset \<Rightarrow> QueryExecution \<times> 'a store_world_scheme \<Rightarrow> bool" where
  "exec_accounts M R p \<longleftrightarrow> accounts (M + ptr (qe_connection (fst p))) (snd p) \<and> owed (R + opt (qe_result (fst p))) (snd p)"

lemma owed_sources: "keeps (owed R) (Execute_acquire L d request err)"
  unfolding Execute_acquire_def by (intro owed_rules owed_pool owed_GetOrCreate)

lemma Execute_acquire_accounts:
  assumes "accounts M s"
  shows "wlp (Execute_acquire L d request err) (\<lambda>(r, _). accounts (M + ptr r)) s"
  using GetOrCreate_accounts [OF assms] Acquire_accounts [OF assms, of L]
  by (auto simp: Execute_acquire_def wlp_basic elim!: wlp_mono split: option.split)

lemma wlp_both: "wlp m P s \<Longrightarrow> wlp m Q s \<Longrightarrow> wlp m (\<lambda>a s'. P a s' \<and> Q a s') s"
  by (auto simp: wlp_def split: sum.splits)

lemma FinishQuery_accounts:
  assumes "exec_accounts M R (e, s)"
  shows "wlp (FinishQuery L) (\<lambda>_. exec_accounts M R) (e, s)"
proof -
  let ?s = "case qe_result e of None \<Rightarrow> s | Some x \<Rightarrow> s\<lparr>history := EvClear x # history s\<rparr>"
  have s: "accounts (M + ptr (qe_connection e)) ?s" "owed R ?s"
    using assms by (auto simp: exec_accounts_def owed_events split: option.split)
  have returned: "wlp (return_lease L c b) (\<lambda>_ t. accounts M t \<and> owed R t) ?s" if "qe_connection e = Some c" for c b
    using s that by (intro wlp_both wp_imp_wlp [OF return_lease_accounts] keepsD [OF owed_pool(2)]) simp_all
  have "wlp (FinishQuery L) Q (e, s) = (case qe_connection e of
      None \<Rightarrow> Q () (e\<lparr>qe_result := None\<rparr>, ?s)
    | Some c \<Rightarrow> if qe_pooled e then wlp (return_lease L c (qe_connection_broken e))
          (\<lambda>_ t. Q () (e\<lparr>qe_result := None, qe_connection := None, qe_pooled := False\<rparr>, t)) ?s
        else Q () (e\<lparr>qe_result := None\<rparr>, ?s))" for Q
    by (cases "qe_result e"; cases "qe_connection e") (simp_all add: FinishQuery_def wp_simps)
  then show ?thesis using s returned
    by (auto simp: exec_accounts_def split: option.split elim!: wlp_mono)
qed

lemma Execute_locked_accounts:
  assumes "exec_accounts M R (e, s)" "qe_connection e = Some c" "qe_result e = None"
  shows "wlp (Execute_locked L request c) (\<lambda>_. exec_accounts M R) (e, s)"
proof -
  let ?r = "PQexecParams L (history s) c (c_str (qr_text request)) (BuildParams request) (result_format_of request)"
  let ?s = "s\<lparr>history := EvExecParams c (c_str (qr_text request)) (BuildParams request) (result_format_of request) ?r # history s\<rparr>"
  have "exec_accounts M R (e\<lparr>qe_connection_broken := b, qe_result := ?r\<rparr>, ?s)" for b
    using assms by (auto simp: exec_accounts_def owed_events) (auto simp: owed_def)
  then show ?thesis
    by (auto simp: Execute_locked_def wlp_basic wp_world_m wlp_execs wlp_get_m wlp_upd_m Let_def intro!: FinishQuery_accounts)
qed

lemma no_execution: "exec_accounts M R (QueryExecution_init, s) \<longleftrightarrow> accounts M s \<and> owed R s"
  by (simp add: exec_accounts_def QueryExecution_init_def)

lemma exec_accounts_held [simp]: "exec_accounts M R (e, s\<lparr>held := H\<rparr>) = exec_accounts M R (e, s)"
  by (simp add: exec_accounts_def)

lemma exec_accounts_lock:
  assumes "wlp body (\<lambda>_. exec_accounts M R) (e, s\<lparr>held := insert c (held s)\<rparr>)"
  shows "wlp (with_lock c body) (\<lambda>_. exec_accounts M R) (e, s)"
  using assms by (auto simp: with_lock_def wlp_def bind_m_def world_m_def split: sum.splits)

lemma Execute_on_accounts:
  assumes "accounts M s" "owed R s"
  shows "wlp (Execute_on L d request err) (\<lambda>_. exec_accounts M R) (QueryExecution_init, s)"
proof -
  have one: "wlp (with_lock c (Execute_locked L request c)) (\<lambda>_. exec_accounts (add_mset c M) R)
      (QueryExecution_init\<lparr>qe_connection := Some c, qe_pooled := b\<rparr>, t\<lparr>refs := (refs t)(c := Suc (refs t c))\<rparr>)"
    if "accounts (add_mset c M) t" "owed R t" for b c and t :: "'a store_world_scheme"
    using that accounts_copy [OF that(1), of c]
    by (intro exec_accounts_lock Execute_locked_accounts) (simp_all add: exec_accounts_def QueryExecution_init_def)
  have drop: "wlp (share_drop c) (\<lambda>_ t. exec_accounts M R (e, t)) t" if "exec_accounts (add_mset c M) R (e, t)"
    for c e and t :: "'a store_world_scheme"
    using that keepsD [OF owed_steps(1)] wp_imp_wlp [OF share_drop_accounts, of c "M + ptr (qe_connection e)" t]
    by (auto simp: exec_accounts_def intro!: wlp_both)
  have "wlp (Execute_acquire L d request err) (\<lambda>(r, _) t. accounts (M + ptr r) t \<and> owed R t) s"
    using wlp_both [OF Execute_acquire_accounts [OF assms(1)] keepsD [OF owed_sources assms(2)]]
    by (rule wlp_mono) auto
  moreover have "wlp (bind_m (world_m (share_copy c)) (\<lambda>_.
      bind_m (upd_m (apfst (\<lambda>e. e\<lparr>qe_connection := Some c, qe_pooled := b\<rparr>))) (\<lambda>_.
      bind_m (with_lock c (Execute_locked L request c)) (\<lambda>_. bind_m (world_m (share_drop c)) (\<lambda>_. ret_m err'))))) (\<lambda>_. exec_accounts M R)
      (QueryExecution_init, t)" if "accounts (add_mset c M) t" "owed R t" for b c err' and t :: "'a store_world_scheme"
    unfolding wlp_basic wp_world_m share_copy_def wlp_upd_m apfst_conv
    by (rule wlp_mono [OF one [OF that]]) (auto simp: wp_world_m intro: drop)
  ultimately show ?thesis
    unfolding Execute_on_def wlp_basic wp_world_m
    by (elim wlp_mono) (auto simp: wlp_basic wp_world_m no_execution split: option.split)
qed

text \<open>C29: Whatever PostgreSQL answers, \<open>Execute\<close> followed by \<open>FinishQuery\<close>, which always returns, gives back all it
  took. Every result it read, a failed statement's too, has been freed exactly once: the results read and not yet freed are
  those from before (\<open>owed R\<close>). The pool's counter is what it was and no connection is locked. On a request without a session no
  pointer is left in the execution, and every open connection is owned by exactly those that the reference counts say: the
  pool's idle queue, the sessions and the caller's \<open>M\<close>; so the connection has gone back to the queue or has been closed. On a
  request with a session the execution still has the session's connection, which is dropped with it.\<close>

theorem Execute_FinishQuery_balanced:
  assumes run: "Execute L d request err s = Inr ((e, err'), s1)"
    and free: "held s = {}" and before: "accounts M s" "owed R s"
  shows "\<exists>e' s2. FinishQuery L (e, s1) = Inr ((), (e', s2)) \<and>
    owed R s2 \<and> qe_result e' = None \<and> cm_in_use (pool s2) = cm_in_use (pool s) \<and> held s2 = {} \<and>
    accounts (M + ptr (qe_connection e')) s2 \<and> (qr_session_id request = [] \<longrightarrow> qe_connection e' = None)"
proof -
  obtain e' s2 where fin: "FinishQuery L (e, s1) = Inr ((), (e', s2))"
    using wp_FinishQuery [of L s1 e] by (auto simp: wp_iff)
  have F: "held s2 = held s1"
    "cm_in_use (pool s2) = cm_in_use (pool s1) - (if qe_pooled e \<and> qe_connection e \<noteq> None then 1 else 0)"
    "e' = (if qe_pooled e \<and> qe_connection e \<noteq> None
      then e\<lparr>qe_result := None, qe_connection := None, qe_pooled := False\<rparr> else e\<lparr>qe_result := None\<rparr>)"
    using wp_FinishQuery [of L s1 e] fin by (auto simp: wp_def)
  have "Execute_on L d request err (QueryExecution_init, s) = Inr (err', (e, s1))"
    using run by (auto simp: Execute_def split: sum.splits)
  from wlpD [OF Execute_on_accounts [OF before] this] have "exec_accounts M R (e, s1)" .
  from wlpD [OF FinishQuery_accounts [OF this] fin] have acc: "accounts (M + ptr (qe_connection e')) s2" "owed R s2"
    using F(3) by (auto simp: exec_accounts_def split: if_splits)
  have "cm_in_use (pool s2) = cm_in_use (pool s) \<and> held s2 = {} \<and> (qr_session_id request = [] \<longrightarrow> qe_connection e' = None)"
    by (rule Execute_leaves [OF run free, THEN conjE]) (use F in \<open>auto split: if_splits\<close>)
  with fin acc F(3) show ?thesis by (intro exI conjI) auto
qed

lemma demo_accounts: "accounts {#} (demo_store 1)" "owed {#} (demo_store 1)"
  by (simp_all add: accounts_def owners_def demo_store_def ConnectionManager_init_def SessionStore_init_def open_handles_def
      fun_eq_iff owed_def)

theorem Execute_FinishQuery_balanced_witness:
  "\<exists>L e err s1 e' s2. Execute L ConnectParams_init demo_request (Some []) (demo_store 1) = Inr ((e, err), s1) \<and>
     FinishQuery L (e, s1) = Inr ((), (e', s2)) \<and>
     PQexecParams L [] 0 ''SELECT x FROM t'' (BuildParams demo_request) 1 =
       Some (command_result PGRES_FATAL_ERROR [] ''relation t does not exist'') \<and>
     owed {#} s2 \<and> cm_in_use (pool s2) = 0 \<and> held s2 = {} \<and> accounts {#} s2"
proof -
  let ?r = "Some (command_result PGRES_FATAL_ERROR [] ''relation t does not exist'')"
  define L where "L = (demo_libpq [])\<lparr>PQexecParams := (\<lambda>_ _ _ _ _. ?r)\<rparr>"
  have "accepts_connections L"
    by (simp add: accepts_connections_def L_def demo_libpq_def demo_exec_def)
  then obtain s0 where "Acquire L (demo_store 1) = Inr (Some 0, s0)"
    using accepting_Acquire [of L "demo_store 1"]
    by (auto simp: demo_store_def ConnectionManager_init_def ConnectParams_init_def)
  then have "Execute_acquire L ConnectParams_init demo_request (Some []) (demo_store 1) = Inr ((Some 0, Some []), s0)"
    by (simp add: Execute_acquire_def demo_request_def bind_m_def)
  from Execute_on_connection [OF this] obtain e s1
    where run: "Execute L ConnectParams_init demo_request (Some []) (demo_store 1) = Inr ((e, Some []), s1)"
    by (auto simp: demo_store_def)
  have free: "held (demo_store 1) = {}" by (simp add: demo_store_def)
  have "cm_in_use (pool (demo_store 1)) = 0" "qr_session_id demo_request = []"
    by (simp_all add: demo_store_def ConnectionManager_init_def demo_request_def)
  moreover have "PQexecParams L [] 0 ''SELECT x FROM t'' (BuildParams demo_request) 1 = ?r" by (simp add: L_def)
  ultimately show ?thesis
    using Execute_FinishQuery_balanced [OF run free demo_accounts] run by fastforce
qed

section \<open>QueryStream\<close>





end
