(* ===== verification/Pool_Threads.thy ===== *)
theory Pool_Threads
  imports Connection_Manager "HOL-Library.Multiset"
begin

text \<open>
  The pool under any interleaving of the threads that use it. A step is a section under \<open>mutex_\<close>, or an action outside of
  it: the opening of a connection, and the reset of a pointer after its connection has been released. Threads that
  find the pool exhausted sleep on the condition variable, which can also wake them for no reason.
\<close>

section \<open>Steps\<close>

text \<open>
  \<open>leased\<close> lists the connections handed out and not yet released, \<open>returning\<close> those that have been released
  by an owner who has not reset its pointer yet, \<open>creating\<close> counts the threads between the two critical sections of \<open>Acquire\<close>.
\<close>

record pool_sys = pool_world +
  leased :: "conn list"
  returning :: "conn list"
  creating :: nat

definition pool_start :: pool_sys where
  "pool_start = \<lparr>history = [], next_conn = 0, refs = (\<lambda>_. 0), held = {}, pool = ConnectionManager_init, pool_cv = CondVar_init,
     leased = [], returning = [], creating = 0\<rparr>"

text \<open>The thread that evaluates the condition of \<open>cv_.wait\<close> has just called \<open>Acquire\<close> or has been woken.\<close>

inductive looks :: "pool_sys \<Rightarrow> pool_sys \<Rightarrow> bool" where
  calls: "looks s s"
| woken: "cv_woken (pool_cv s) = Suc n \<Longrightarrow> looks s (s\<lparr>pool_cv := (pool_cv s)\<lparr>cv_woken := n\<rparr>\<rparr>)"

definition falls_asleep :: "pool_sys \<Rightarrow> pool_sys" where
  "falls_asleep s = s\<lparr>pool_cv := (pool_cv s)\<lparr>cv_sleeping := Suc (cv_sleeping (pool_cv s))\<rparr>\<rparr>"

text \<open>The steps of the threads that use the pool, and with \<open>Configure\<close> and \<open>Connect\<close> all steps.\<close>

inductive use_step :: "libpq \<Rightarrow> pool_sys \<Rightarrow> pool_sys \<Rightarrow> bool" for L where
  enter_idle: "looks s t \<Longrightarrow> Acquire_enter t = Inr (Some c, s') \<Longrightarrow> use_step L s (s'\<lparr>leased := c # leased s'\<rparr>)"
| enter_new: "looks s t \<Longrightarrow> Acquire_enter t = Inr (None, s') \<Longrightarrow> use_step L s (s'\<lparr>creating := Suc (creating s')\<rparr>)"
| sleep: "looks s t \<Longrightarrow> Acquire_enter t = Inl b \<Longrightarrow> use_step L s (falls_asleep t)"
| spurious: "use_step L s (s\<lparr>pool_cv := notify_one (pool_cv s)\<rparr>)"
| created: "creating s = Suc n \<Longrightarrow> Acquire_create L s = Inr (r, s') \<Longrightarrow>
    use_step L s (s'\<lparr>creating := n, leased := (case r of None \<Rightarrow> leased s' | Some c \<Rightarrow> c # leased s')\<rparr>)"
| release: "c \<in> set (leased s) \<Longrightarrow> bind_m (share_copy c) (\<lambda>_. Release L (Some c) broken) s = Inr ((), s') \<Longrightarrow>
    use_step L s (s'\<lparr>leased := remove1 c (leased s'), returning := c # returning s'\<rparr>)"
| reset: "c \<in> set (returning s) \<Longrightarrow> share_drop c s = Inr ((), s') \<Longrightarrow>
    use_step L s (s'\<lparr>returning := remove1 c (returning s')\<rparr>)"
| close: "Pool_CloseAll s = Inr ((), s') \<Longrightarrow> use_step L s s'"

inductive pool_step :: "libpq \<Rightarrow> pool_sys \<Rightarrow> pool_sys \<Rightarrow> bool" for L where
  use: "use_step L s s' \<Longrightarrow> pool_step L s s'"
| configure: "Configure params n s = Inr ((), s') \<Longrightarrow> pool_step L s s'"
| warm: "Pool_Connect L err s = Inr (r, s') \<Longrightarrow> pool_step L s s'"

definition pool_reachable :: "libpq \<Rightarrow> pool_sys \<Rightarrow> bool" where
  "pool_reachable L = (pool_step L)\<^sup>*\<^sup>* pool_start"

lemma pool_reachable_start: "pool_reachable L pool_start"
  by (simp add: pool_reachable_def)

lemma pool_reachable_step: "pool_reachable L s \<Longrightarrow> pool_step L s t \<Longrightarrow> pool_reachable L t"
  unfolding pool_reachable_def by (rule rtranclp.rtrancl_into_rtrancl)

section \<open>The owners of the connections\<close>

text \<open>Every pointer of \<open>N\<close> is counted, and its connection is open; the other connections have no owner.\<close>

definition owned :: "conn multiset \<Rightarrow> 'a pg_world_scheme \<Rightarrow> bool" where
  "owned N s \<longleftrightarrow> refs s = count N \<and> (\<forall>c \<in># N. c < next_conn s \<and> c \<notin> finished (history s)) \<and> (\<forall>c \<in> finished (history s). c < next_conn s)"

lemma owned_drop:
  assumes "owned (add_mset c N) s"
  shows "owned N (s\<lparr>refs := (refs s)(c := refs s c - Suc 0), history := (if refs s c = Suc 0 then [EvFinish c] else []) @ history s\<rparr>)"
proof -
  have "(count (add_mset c N))(c := count (add_mset c N) c - Suc 0) = count N" by (auto simp: fun_eq_iff)
  moreover have "c \<notin># N" if "count (add_mset c N) c = Suc 0" using that by (simp add: not_in_iff)
  ultimately show ?thesis using assms by (auto simp: owned_def)
qed

lemma owned_share_drop_all:
  assumes "owned (mset cs + N) s"
  shows "wp (share_drop_all cs) (\<lambda>_ s'. owned N s' \<and> (\<exists>r h. s' = s\<lparr>refs := r, history := h\<rparr>)) s"
  using assms
proof (induction cs arbitrary: s)
  case Nil
  moreover have "\<exists>r h. s = s\<lparr>refs := r, history := h\<rparr>" by (rule exI [of _ "refs s"], rule exI [of _ "history s"]) simp
  ultimately show ?case by (simp add: wp_simps)
next
  case (Cons c cs)
  let ?s = "s\<lparr>refs := (refs s)(c := refs s c - Suc 0), history := (if refs s c = Suc 0 then [EvFinish c] else []) @ history s\<rparr>"
  have "owned (mset cs + N) ?s" using Cons.prems by (intro owned_drop) simp
  from Cons.IH [OF this] have "wp (share_drop_all cs) (\<lambda>_ s'. owned N s' \<and> (\<exists>r h. s' = s\<lparr>refs := r, history := h\<rparr>)) ?s"
    by (rule wp_mono) auto
  then show ?case by (simp add: wp_simps)
qed

lemma owned_connect:
  assumes "owned N s" "connect_effect s t r"
  shows "owned N t" and "r = Some c \<Longrightarrow> c \<notin># N \<and> owned (add_mset c N) (t\<lparr>refs := (refs t)(c := Suc 0)\<rparr>)"
proof -
  obtain new where new: "history t = new @ history s" "next_conn s \<le> next_conn t"
    "\<forall>c \<in> finished new. next_conn s \<le> c \<and> c < next_conn t"
    and r: "\<forall>c. r = Some c \<longrightarrow> c = next_conn s \<and> next_conn t = Suc c \<and> c \<notin> finished new"
    by (rule connect_effect_frame [OF assms(2)])
  note refs = connect_effect_same(1) [OF assms(2)]
  show t: "owned N t" using assms(1) new refs by (force simp: owned_def)
  assume c: "r = Some c"
  have fresh: "c \<notin># N" "c \<notin> finished (history s)" using assms(1) r c by (auto simp: owned_def)
  have "(count N)(c := Suc 0) = count (add_mset c N)" using fresh(1) by (auto simp: fun_eq_iff not_in_iff)
  with t r c fresh new show "c \<notin># N \<and> owned (add_mset c N) (t\<lparr>refs := (refs t)(c := Suc 0)\<rparr>)" by (auto simp: owned_def)
qed

section \<open>Invariants\<close>

definition pool_owners :: "pool_sys \<Rightarrow> conn multiset" where
  "pool_owners s = mset (leased s @ cm_idle (pool s) @ returning s)"

definition pool_inv :: "pool_sys \<Rightarrow> bool" where
  "pool_inv s \<longleftrightarrow>
     cm_in_use (pool s) = int (length (leased s) + creating s) \<and>
     distinct (leased s @ cm_idle (pool s)) \<and> owned (pool_owners s) s"

text \<open>
  How many calls of \<open>Acquire\<close> the pool can serve as it is. While threads sleep, so many of them have been woken
  or are not needed.
\<close>

definition available :: "pool_sys \<Rightarrow> int" where
  "available s = max (int (length (cm_idle (pool s)))) (cm_pool_size (pool s) - cm_in_use (pool s))"

definition wake_inv :: "pool_sys \<Rightarrow> bool" where
  "wake_inv s \<longleftrightarrow> cv_sleeping (pool_cv s) = 0 \<or> available s \<le> int (cv_woken (pool_cv s))"

lemma looks_same:
  assumes "looks s t"
  shows "pool t = pool s" "leased t = leased s" "returning t = returning s" "creating t = creating s" "refs t = refs s"
    "history t = history s" "next_conn t = next_conn s" "pool_inv t = pool_inv s"
    "cv_sleeping (pool_cv t) = cv_sleeping (pool_cv s)" "int (cv_woken (pool_cv s)) - 1 \<le> int (cv_woken (pool_cv t))"
  using assms by (auto elim!: looks.cases simp: pool_inv_def pool_owners_def owned_def)

lemma connect_effect_sys:
  assumes "connect_effect s t r"
  shows "leased t = leased s" "returning t = returning s" "creating t = creating s" "pool t = pool s" "pool_cv t = pool_cv s"
    "pool_owners t = pool_owners s"
  using arg_cong [where f = leased, OF connect_effect_eq [OF assms]] arg_cong [where f = returning, OF connect_effect_eq [OF assms]]
    arg_cong [where f = creating, OF connect_effect_eq [OF assms]] arg_cong [where f = pool, OF connect_effect_eq [OF assms]]
    arg_cong [where f = pool_cv, OF connect_effect_eq [OF assms]]
  by (simp_all add: pool_owners_def)

lemma owned_simps [simp]:
  "owned N (s\<lparr>pool := m\<rparr>) = owned N s" "owned N (s\<lparr>pool_cv := v\<rparr>) = owned N s"
  "owned N (t\<lparr>leased := ls\<rparr>) = owned N t" "owned N (t\<lparr>returning := rs\<rparr>) = owned N t" "owned N (t\<lparr>creating := n\<rparr>) = owned N t"
  by (simp_all add: owned_def)

lemma enter_inv:
  assumes "pool_inv s" "Acquire_enter s = Inr (r, s')"
  shows "pool_inv (case r of Some c \<Rightarrow> s'\<lparr>leased := c # leased s'\<rparr> | None \<Rightarrow> s'\<lparr>creating := Suc (creating s')\<rparr>)"
  using assms by (cases rule: Acquire_enter_cases [of s]) (auto simp: pool_inv_def pool_owners_def)

lemma enter_available:
  assumes "Acquire_enter s = Inr (r, s')"
  shows "available s' = available s - 1 \<and> pool_cv s' = pool_cv s"
  using assms by (cases rule: Acquire_enter_cases [of s]) (auto simp: available_def)

lemma created_inv:
  assumes inv: "pool_inv s" and n: "creating s = Suc n" and run: "Acquire_create L s = Inr (r, s')"
  shows "pool_inv (s'\<lparr>creating := n, leased := (case r of None \<Rightarrow> leased s' | Some c \<Rightarrow> c # leased s')\<rparr>)"
proof (cases rule: Acquire_create_cases [of s L])
  case (created c t)
  from inv have "owned (pool_owners s) s" by (simp add: pool_inv_def)
  from owned_connect(2) [OF this created(1) refl] connect_effect_sys [OF created(1)] inv n run created(2) show ?thesis
    by (auto simp: pool_inv_def pool_owners_def)
next
  case (failed t)
  from inv have "owned (pool_owners s) s" by (simp add: pool_inv_def)
  from owned_connect(1) [OF this failed(1)] connect_effect_sys [OF failed(1)] inv n run failed(2) show ?thesis
    by (auto simp: pool_inv_def pool_owners_def)
qed

lemma release_inv:
  assumes inv: "pool_inv s" and c: "c \<in> set (leased s)"
    and run: "bind_m (share_copy c) (\<lambda>_. Release L (Some c) broken) s = Inr ((), s')"
  shows "pool_inv (s'\<lparr>leased := remove1 c (leased s'), returning := c # returning s'\<rparr>)"
proof -
  obtain xs ys where leased: "leased s = xs @ c # ys" "c \<notin> set xs" using split_list_first [OF c] by blast
  let ?s = "s\<lparr>refs := (refs s)(c := Suc (refs s c))\<rparr>"
  have "(count (pool_owners s))(c := Suc (count (pool_owners s) c)) = count (add_mset c (pool_owners s))" by (auto simp: fun_eq_iff)
  with inv leased have own: "owned (add_mset c (pool_owners s)) ?s" by (auto simp: pool_inv_def owned_def pool_owners_def)
  have "pool_owners s = add_mset c (mset (xs @ ys @ cm_idle (pool s) @ returning s))" by (simp add: pool_owners_def leased)
  with owned_drop [OF own] own inv leased have
    "wp (bind_m (share_copy c) (\<lambda>_. Release L (Some c) broken)) (\<lambda>_ s'. pool_inv (s'\<lparr>leased := remove1 c (leased s'), returning := c # returning s'\<rparr>)) s"
    by (auto simp: wp_simps wp_Release Let_def pool_inv_def pool_owners_def remove1_append owned_def)
  with run show ?thesis by (simp add: wp_def)
qed

lemma reset_inv:
  assumes inv: "pool_inv s" and c: "c \<in> set (returning s)" and run: "share_drop c s = Inr ((), s')"
  shows "pool_inv (s'\<lparr>returning := remove1 c (returning s')\<rparr>)"
proof -
  let ?N = "mset (leased s @ cm_idle (pool s) @ remove1 c (returning s))"
  have "pool_owners s = add_mset c ?N" using c by (simp add: pool_owners_def)
  with inv have "owned (add_mset c ?N) s" by (simp add: pool_inv_def)
  from owned_drop [OF this] inv have "wp (share_drop c) (\<lambda>_ s'. pool_inv (s'\<lparr>returning := remove1 c (returning s')\<rparr>)) s"
    by (auto simp: wp_simps pool_inv_def pool_owners_def owned_def)
  with run show ?thesis by (simp add: wp_def)
qed

lemma close_inv:
  assumes inv: "pool_inv s" and run: "Pool_CloseAll s = Inr ((), s')"
  shows "pool_inv s'" and "wake_inv s \<Longrightarrow> wake_inv s'"
proof -
  have "owned (mset (cm_idle (pool s)) + mset (leased s @ returning s)) s" using inv by (simp add: pool_inv_def pool_owners_def ac_simps)
  from owned_share_drop_all [OF this]
  have "wp Pool_CloseAll (\<lambda>_ s'. pool_inv s' \<and> (wake_inv s \<longrightarrow> wake_inv s')) s"
    using inv by (auto simp: Pool_CloseAll_def wp_simps elim!: wp_mono simp: pool_inv_def pool_owners_def wake_inv_def available_def)
  with run show "pool_inv s'" "wake_inv s \<Longrightarrow> wake_inv s'" by (simp_all add: wp_def)
qed

lemma warm_inv:
  assumes inv: "pool_inv s" and run: "Pool_Connect L err s = Inr (r, s')"
  shows "pool_inv s'"
proof -
  obtain o' e t where con: "PqConnection_Connect L (cm_params (pool s)) (Some []) 0 s = Inr ((o', e), t)"
    and eff: "connect_effect s t o'"
    by (rule PqConnection_Connect_runs)
  from inv have own: "owned (pool_owners s) s" by (simp add: pool_inv_def)
  note sys = connect_effect_sys [OF eff]
  show ?thesis
  proof (cases o')
    case None
    with run con owned_connect(1) [OF own eff] inv sys show ?thesis by (auto simp: Pool_Connect_def bind_m_def pool_inv_def)
  next
    case (Some c)
    from run con Some have "s' = t\<lparr>refs := (refs t)(c := 1), pool := (pool t)\<lparr>cm_idle := cm_idle (pool t) @ [c]\<rparr>\<rparr>"
      by (simp add: Pool_Connect_def bind_m_def share_new_def upd_pool_def)
    with owned_connect(2) [OF own eff Some] inv sys show ?thesis by (auto simp: pool_inv_def pool_owners_def)
  qed
qed

lemma use_step_inv: "use_step L s s' \<Longrightarrow> pool_inv s \<Longrightarrow> pool_inv s'"
proof (induction rule: use_step.induct)
  case (enter_idle s t c s')
  then show ?case using enter_inv [of t "Some c"] looks_same(8) by simp
next
  case (enter_new s t s')
  then show ?case using enter_inv [of t None] looks_same(8) by simp
next
  case (sleep s t b)
  then have "pool_inv t" by (simp add: looks_same(8))
  then show ?case by (simp add: falls_asleep_def pool_inv_def pool_owners_def)
next
  case (spurious s)
  then show ?case by (simp add: pool_inv_def pool_owners_def)
qed (auto intro: created_inv release_inv reset_inv close_inv)

lemma pool_step_inv: "pool_step L s s' \<Longrightarrow> pool_inv s \<Longrightarrow> pool_inv s'"
proof (induction rule: pool_step.induct)
  case (configure params n s s')
  then show ?case by (auto simp: Configure_def upd_pool_def pool_inv_def pool_owners_def)
qed (auto intro: use_step_inv warm_inv)

lemma pool_reachable_inv: "pool_reachable L s \<Longrightarrow> pool_inv s"
  unfolding pool_reachable_def
proof (induction rule: rtranclp_induct)
  case base
  show ?case by (simp add: pool_inv_def pool_start_def pool_owners_def ConnectionManager_init_def owned_def fun_eq_iff)
qed (rule pool_step_inv)

text \<open>A notification makes up for one more call that can be served.\<close>

lemma wake_inv_notify:
  assumes "wake_inv s" "available s' \<le> available s + 1" "pool_cv s' = notify_one (pool_cv s)"
  shows "wake_inv s'"
  using assms by (auto simp: wake_inv_def notify_one_def split: nat.splits)

lemma looks_wake_inv:
  assumes "wake_inv s" "looks s t"
  shows "cv_sleeping (pool_cv t) = 0 \<or> available t - 1 \<le> int (cv_woken (pool_cv t))"
  using assms looks_same [OF assms(2)] by (auto simp: wake_inv_def available_def)

lemma use_step_wake_inv: "use_step L s s' \<Longrightarrow> pool_inv s \<Longrightarrow> wake_inv s \<Longrightarrow> wake_inv s'"
proof (induction rule: use_step.induct)
  case (enter_idle s t c s')
  then show ?case using looks_wake_inv [of s t] enter_available [of t] by (auto simp: wake_inv_def available_def)
next
  case (enter_new s t s')
  then show ?case using looks_wake_inv [of s t] enter_available [of t] by (auto simp: wake_inv_def available_def)
next
  case (sleep s t b)
  have "available t \<le> 0"
    by (cases rule: Acquire_enter_cases [of t]) (use sleep in \<open>auto simp: available_def\<close>)
  then show ?case by (simp add: wake_inv_def falls_asleep_def available_def)
next
  case (spurious s)
  from spurious(2) show ?case by (rule wake_inv_notify) (simp_all add: available_def)
next
  case (created s n r s')
  show ?case
  proof (cases rule: Acquire_create_cases [of s L])
    case (created c t)
    with \<open>Acquire_create L s = Inr (r, s')\<close> \<open>wake_inv s\<close> connect_effect_sys [OF created(1)] show ?thesis
      by (auto simp: wake_inv_def available_def)
  next
    case (failed t)
    then have s': "s' = t\<lparr>pool := (pool s)\<lparr>cm_in_use := cm_in_use (pool s) - 1\<rparr>, pool_cv := notify_one (pool_cv t)\<rparr>"
      using \<open>Acquire_create L s = Inr (r, s')\<close> by simp
    show ?thesis
      by (rule wake_inv_notify [OF \<open>wake_inv s\<close>]) (simp_all add: s' available_def connect_effect_sys [OF failed(1)])
  qed
next
  case (release c s broken s')
  have "wp (bind_m (share_copy c) (\<lambda>_. Release L (Some c) broken)) (\<lambda>_ s'. wake_inv (s'\<lparr>leased := ls, returning := rs\<rparr>)) s" for ls rs
    by (auto simp: wp_simps wp_Release Let_def intro!: wake_inv_notify [OF release.prems(2)]) (auto simp: available_def)
  with release.hyps(2) show ?case by (simp add: wp_def)
next
  case (reset c s s')
  have "wp (share_drop c) (\<lambda>_ s'. wake_inv (s'\<lparr>returning := rs\<rparr>)) s" for rs
    using reset.prems by (simp add: wp_simps wake_inv_def available_def)
  with reset.hyps(2) show ?case by (simp add: wp_def)
next
  case (close s s')
  then show ?case by (simp add: close_inv(2))
qed

lemma uses_wake_inv: "(use_step L)\<^sup>*\<^sup>* s s' \<Longrightarrow> pool_inv s \<Longrightarrow> wake_inv s \<Longrightarrow> pool_inv s' \<and> wake_inv s'"
  by (induction rule: rtranclp_induct) (auto intro: use_step_inv use_step_wake_inv)

section \<open>Demonstrations\<close>

text \<open>Against a server that accepts connections, warming adds one idle connection; taking it counts.\<close>

lemma demo_warm:
  assumes "pool_reachable (demo_libpq rows) s"
  obtains t where "pool_reachable (demo_libpq rows) t" and "cm_idle (pool t) = cm_idle (pool s) @ [next_conn s]"
    and "cm_pool_size (pool t) = cm_pool_size (pool s)" and "cm_in_use (pool t) = cm_in_use (pool s)"
    and "leased t = leased s" and "creating t = creating s" and "returning t = returning s" and "pool_cv t = pool_cv s"
proof -
  have "wp (Pool_Connect (demo_libpq rows) (Some [])) (\<lambda>_ t. cm_idle (pool t) = cm_idle (pool s) @ [next_conn s] \<and>
      cm_pool_size (pool t) = cm_pool_size (pool s) \<and> cm_in_use (pool t) = cm_in_use (pool s) \<and>
      leased t = leased s \<and> creating t = creating s \<and> returning t = returning s \<and> pool_cv t = pool_cv s) s"
    by (simp add: Pool_Connect_def PqConnection_Connect_def ApplyStatementTimeout_def wp_simps demo_eval)
  then obtain r t where run: "Pool_Connect (demo_libpq rows) (Some []) s = Inr (r, t)"
    and t: "cm_idle (pool t) = cm_idle (pool s) @ [next_conn s]" "cm_pool_size (pool t) = cm_pool_size (pool s)"
      "cm_in_use (pool t) = cm_in_use (pool s)" "leased t = leased s" "creating t = creating s" "returning t = returning s"
      "pool_cv t = pool_cv s"
    by (auto simp: wp_iff)
  from pool_reachable_step [OF assms pool_step.warm [OF run]] t show thesis by (rule that)
qed

lemma reachable_take_idle:
  assumes "pool_reachable L s" and "cm_idle (pool s) = c # cs"
  obtains t where "pool_reachable L t" and "cm_idle (pool t) = cs" and "cm_pool_size (pool t) = cm_pool_size (pool s)"
    and "cm_in_use (pool t) = cm_in_use (pool s) + 1" and "leased t = c # leased s" and "creating t = creating s"
    and "returning t = returning s" and "pool_cv t = pool_cv s"
proof -
  define s' where "s' = s\<lparr>pool := (pool s)\<lparr>cm_idle := cs, cm_in_use := cm_in_use (pool s) + 1\<rparr>\<rparr>"
  have "Acquire_enter s = Inr (Some c, s')" using assms(2) by (simp add: Acquire_enter_def Let_def s'_def)
  from pool_reachable_step [OF assms(1) pool_step.use [OF use_step.enter_idle [OF looks.calls this]]] show thesis
    by (rule that) (simp_all add: s'_def)
qed

text \<open>A pool of size one, with its connection.\<close>

lemma demo_small_pool:
  obtains s where "pool_reachable (demo_libpq []) s" "cm_idle (pool s) = [0]" "cm_pool_size (pool s) = 1" "cm_in_use (pool s) = 0"
    "leased s = []" "creating s = 0" "returning s = []" "pool_cv s = CondVar_init"
proof -
  define s0 where "s0 = pool_start\<lparr>pool := (pool pool_start)\<lparr>cm_pool_size := 1, cm_configured := True\<rparr>\<rparr>"
  have "pool_step (demo_libpq []) pool_start s0"
    unfolding s0_def by (rule pool_step.configure [of ConnectParams_init 1])
      (simp add: Configure_def upd_pool_def pool_start_def ConnectionManager_init_def)
  from pool_reachable_step [OF pool_reachable_start this] obtain s where "pool_reachable (demo_libpq []) s" "cm_idle (pool s) = [0]"
    "cm_pool_size (pool s) = 1" "cm_in_use (pool s) = 0" "leased s = []" "creating s = 0" "returning s = []" "pool_cv s = CondVar_init"
    by (rule demo_warm) (simp add: s0_def pool_start_def ConnectionManager_init_def)
  then show thesis by (rule that)
qed

section \<open>Correctness of the pool under every schedule\<close>



text \<open>C15: no wake-up is lost among the threads that use the pool. From any state in which nobody sleeps, however calls of
  \<open>Acquire\<close>, failing attempts to open a connection, releases, closings and spurious wake-ups are interleaved: while a thread
  sleeps in \<open>Acquire\<close>, at least as many woken threads are about to look at the pool again as it can serve.
  In particular nobody sleeps beside an idle connection or a free slot without a woken thread to take it. (\<open>Connect\<close> and
  \<open>Configure\<close> are not among these steps.)\<close>

theorem no_lost_wakeup:
  assumes "pool_reachable L s" "cv_sleeping (pool_cv s) = 0" "(use_step L)\<^sup>*\<^sup>* s s'" "cv_sleeping (pool_cv s') \<noteq> 0"
  shows "int (length (cm_idle (pool s'))) \<le> int (cv_woken (pool_cv s')) \<and>
    cm_pool_size (pool s') - cm_in_use (pool s') \<le> int (cv_woken (pool_cv s'))"
  using uses_wake_inv [OF assms(3) pool_reachable_inv [OF assms(1)]] assms(2,4) by (simp add: wake_inv_def available_def)

theorem no_lost_wakeup_witness:
  "\<exists>s. pool_reachable (demo_libpq []) s \<and> cv_sleeping (pool_cv s) = 1 \<and> cm_idle (pool s) = []"
proof -
  obtain s1 where s1: "pool_reachable (demo_libpq []) s1" "cm_idle (pool s1) = [0]" "cm_pool_size (pool s1) = 1" "cm_in_use (pool s1) = 0"
      "pool_cv s1 = CondVar_init"
    by (rule demo_small_pool)
  from reachable_take_idle [OF s1(1,2)] obtain s2 where s2: "pool_reachable (demo_libpq []) s2" "cm_idle (pool s2) = []"
    "cm_pool_size (pool s2) = 1" "cm_in_use (pool s2) = 1" "pool_cv s2 = CondVar_init"
    using s1(3-5) by auto
  have "Acquire_enter s2 = Inl WaitPool" using s2 by (simp add: Acquire_enter_def Let_def)
  from use_step.sleep [OF looks.calls this] have step: "use_step (demo_libpq []) s2 (falls_asleep s2)" .
  have "cv_sleeping (pool_cv s2) = 0" "cv_sleeping (pool_cv (falls_asleep s2)) = 1"
    using s2(5) by (simp_all add: falls_asleep_def CondVar_init_def)
  with no_lost_wakeup [OF s2(1) _ r_into_rtranclp [of "use_step (demo_libpq [])", OF step]] pool_reachable_step [OF s2(1) pool_step.use [OF step]] s2(5)
  show ?thesis by (intro exI [of _ "falls_asleep s2"]) (simp add: falls_asleep_def CondVar_init_def)
qed

text \<open>\<open>Connect\<close> is different: it puts a connection on the idle queue and notifies nobody. A query that waits for the pool
  goes on sleeping beside an idle connection, until another one releases its own.\<close>

theorem Connect_loses_wakeup:
  "\<exists>s. pool_reachable (demo_libpq []) s \<and> cv_sleeping (pool_cv s) = 1 \<and> cv_woken (pool_cv s) = 0 \<and> cm_idle (pool s) \<noteq> []"
proof -
  obtain s1 where s1: "pool_reachable (demo_libpq []) s1" "cm_idle (pool s1) = [0]" "cm_pool_size (pool s1) = 1" "cm_in_use (pool s1) = 0"
      "pool_cv s1 = CondVar_init"
    by (rule demo_small_pool)
  from reachable_take_idle [OF s1(1,2)] obtain s2 where s2: "pool_reachable (demo_libpq []) s2" "cm_idle (pool s2) = []"
    "cm_pool_size (pool s2) = 1" "cm_in_use (pool s2) = 1" "pool_cv s2 = CondVar_init"
    using s1(3-5) by auto
  have "Acquire_enter s2 = Inl WaitPool" using s2 by (simp add: Acquire_enter_def Let_def)
  from pool_reachable_step [OF s2(1) pool_step.use [OF use_step.sleep [OF looks.calls this]]]
  have "pool_reachable (demo_libpq []) (falls_asleep s2)" .
  then obtain t where "pool_reachable (demo_libpq []) t" "cm_idle (pool t) \<noteq> []" "pool_cv t = pool_cv (falls_asleep s2)"
    by (rule demo_warm) simp
  with s2(5) show ?thesis by (intro exI [of _ t]) (simp add: falls_asleep_def CondVar_init_def)
qed

text \<open>The limit does not bound the connections in use. \<open>Connect\<close> adds a connection to the idle queue
  each time it is called, whatever the pool holds, and \<open>Acquire\<close> takes an idle connection without
  looking at the limit: with a pool size of one, two calls of \<open>Connect\<close> let two queries run at once.\<close>

theorem pool_size_exceeded:
  "\<exists>s. pool_reachable (demo_libpq []) s \<and> cm_pool_size (pool s) = 1 \<and> cm_in_use (pool s) = 2"
proof -
  let ?L = "demo_libpq []"
  obtain s1 where s1: "pool_reachable ?L s1" "cm_idle (pool s1) = [0]" "cm_pool_size (pool s1) = 1" "cm_in_use (pool s1) = 0"
    by (rule demo_small_pool)
  obtain s2 where s2: "pool_reachable ?L s2" "cm_idle (pool s2) = [0, next_conn s1]" "cm_pool_size (pool s2) = 1"
    "cm_in_use (pool s2) = 0"
    by (rule demo_warm [OF s1(1)]) (simp add: s1)
  obtain s3 where s3: "pool_reachable ?L s3" "cm_idle (pool s3) = [next_conn s1]" "cm_pool_size (pool s3) = 1"
    "cm_in_use (pool s3) = 1"
    by (rule reachable_take_idle [OF s2(1,2)]) (simp add: s2)
  show ?thesis
    by (rule reachable_take_idle [OF s3(1,2)]) (use s3 in auto)
qed

end
