(* ===== verification/Interleaving.thy ===== *)
theory Interleaving
  imports Cxx_Prelude "HOL-Library.Multiset"
begin

text \<open>
  Threads of the server and their interleavings. A computation of the blocking state monad runs from its
  beginning to its end; a thread is the same computation cut into its atomic actions (a section under a mutex,
  an atomic counter, a call of libpq), after each of which the other threads may run. \<open>run\<close> puts the actions
  together again, so that a thread's code is shown to be the sequential definition.

  Every thread has an object of its own (\<open>'q\<close>) and all share the world (\<open>'w\<close>). The contract of the tasks a
  server may start, locale \<open>thread_contract\<close>, is local to an action; what follows for the whole
  system, however the threads are scheduled, is proved once.
\<close>

section \<open>Threads\<close>

datatype ('s, 'a) prog = Ret 'a | Act "'s \<Rightarrow> block + ('s, 'a) prog \<times> 's"

lemma prog_induct [case_names Ret Act]:
  assumes "\<And>a. P (Ret a)" "\<And>f. (\<And>s p s'. f s = Inr (p, s') \<Longrightarrow> P p) \<Longrightarrow> P (Act f)"
  shows "P p"
proof (induction p)
  case (Act f)
  show ?case
  proof (rule assms(2))
    fix s p s'
    assume "f s = Inr (p, s')"
    then show "P p" using Act [of "Inr (p, s')" "(p, s')" p] by (auto simp: image_iff intro: sym)
  qed
qed (rule assms(1))

primrec run :: "('s, 'a) prog \<Rightarrow> ('s, 'a) proc" where
  "run (Ret a) = ret_m a"
| "run (Act f) = (\<lambda>s. case (map_sum id (map_prod run id) \<circ> f) s of Inl b \<Rightarrow> Inl b | Inr (m, s') \<Rightarrow> m s')"

primrec bind_t :: "('s, 'a) prog \<Rightarrow> ('a \<Rightarrow> ('s, 'b) prog) \<Rightarrow> ('s, 'b) prog" where
  "bind_t (Ret a) k = k a"
| "bind_t (Act f) k = Act (map_sum id (map_prod (\<lambda>p. bind_t p k) id) \<circ> f)"

definition atomic :: "('s, 'a) proc \<Rightarrow> ('s, 'a) prog" where
  "atomic m = Act (\<lambda>s. case m s of Inl b \<Rightarrow> Inl b | Inr (a, s') \<Rightarrow> Inr (Ret a, s'))"

lemma run_atomic [simp]: "run (atomic m) = m"
  by (auto simp: atomic_def fun_eq_iff split: sum.split)

lemma run_bind_t [simp]: "run (bind_t p k) = bind_m (run p) (\<lambda>a. run (k a))"
proof (induction p rule: prog_induct)
  case (Act f)
  have "run (bind_t (Act f) k) s = bind_m (run (Act f)) (\<lambda>a. run (k a)) s" for s
    by (cases "f s") (auto simp: bind_m_def Act)
  then show ?case by blast
qed (simp add: fun_eq_iff bind_m_def)

lemma bind_t_assoc: "bind_t (bind_t p f) g = bind_t p (\<lambda>x. bind_t (f x) g)"
proof (induction p rule: prog_induct)
  case (Act h)
  have "map_sum id (map_prod (\<lambda>p. bind_t p g) id) (map_sum id (map_prod (\<lambda>p. bind_t p f) id) (h s)) =
      map_sum id (map_prod (\<lambda>p. bind_t p (\<lambda>x. bind_t (f x) g)) id) (h s)" for s
    by (cases "h s") (auto simp: Act)
  then show ?case by (simp add: comp_def)
qed simp

section \<open>Interleavings\<close>

type_synonym ('q, 'w, 'a) system = "('q \<times> ('q \<times> 'w, 'a) prog) list \<times> 'w"

text \<open>Thread \<open>i\<close> does its next action; a blocked thread cannot.\<close>

inductive thread_step :: "nat \<Rightarrow> ('q, 'w, 'a) system \<Rightarrow> ('q, 'w, 'a) system \<Rightarrow> bool" where
  act: "i < length ts \<Longrightarrow> ts ! i = (q, Act f) \<Longrightarrow> f (q, s) = Inr (p, (q', s')) \<Longrightarrow> thread_step i (ts, s) (ts[i := (q', p)], s')"

inductive_cases thread_stepE: "thread_step i (ts, s) (ts', s')"

text \<open>The system goes on by an action of some thread or by the start of a new one.\<close>

inductive sys_step :: "('q \<times> ('q \<times> 'w, 'a) prog \<Rightarrow> bool) \<Rightarrow> ('q, 'w, 'a) system \<Rightarrow> ('q, 'w, 'a) system \<Rightarrow> bool" for tasks where
  start: "tasks t \<Longrightarrow> sys_step tasks (ts, s) (ts @ [t], s)"
| step: "thread_step i (ts, s) (ts', s') \<Longrightarrow> sys_step tasks (ts, s) (ts', s')"

definition reachable :: "('q \<times> ('q \<times> 'w, 'a) prog \<Rightarrow> bool) \<Rightarrow> 'w \<Rightarrow> ('q, 'w, 'a) system \<Rightarrow> bool" where
  "reachable tasks s0 = (sys_step tasks)\<^sup>*\<^sup>* ([], s0)"

lemma reachable_steps:
  "reachable tasks s0 ([], s0)"
  "reachable tasks s0 (ts, s) \<Longrightarrow> tasks t \<Longrightarrow> reachable tasks s0 (ts @ [t], s)"
  "reachable tasks s0 (ts, s) \<Longrightarrow> thread_step i (ts, s) (ts', s') \<Longrightarrow> reachable tasks s0 (ts', s')"
  unfolding reachable_def by (auto intro: rtranclp.rtrancl_into_rtrancl sys_step.intros)

text \<open>A thread that is left alone runs a part of its program, or all of it, as \<open>run\<close> says.\<close>

lemma reachable_bind:
  assumes "reachable tasks s0 (ts @ [(q, bind_t p k)], s)" "run p (q, s) = Inr (a, (q', s'))"
  shows "reachable tasks s0 (ts @ [(q', k a)], s')"
  using assms
proof (induction p arbitrary: q s rule: prog_induct)
  case (Act f)
  from Act.prems(2) obtain p q1 s1 where step: "f (q, s) = Inr (p, (q1, s1))" and rest: "run p (q1, s1) = Inr (a, (q', s'))"
    by (cases "f (q, s)") auto
  let ?ts = "ts @ [(q, bind_t (Act f) k)]"
  have "thread_step (length ts) (?ts, s) (?ts[length ts := (q1, bind_t p k)], s1)"
    by (rule thread_step.act [where q = q and f = "map_sum id (map_prod (\<lambda>p. bind_t p k) id) \<circ> f"]) (simp_all add: step)
  then have "reachable tasks s0 (ts @ [(q1, bind_t p k)], s1)" using reachable_steps(3) [OF Act.prems(1)] by simp
  from Act.IH [OF step this rest] show ?case .
qed simp

lemma bind_t_Ret [simp]: "bind_t p Ret = p"
proof (induction p rule: prog_induct)
  case (Act f)
  have "map_sum id (map_prod (\<lambda>p. bind_t p Ret) id) (f s) = f s" for s by (cases "f s") (auto simp: Act)
  then show ?case by (simp add: comp_def)
qed simp

lemmas reachable_run = reachable_bind [where k = Ret, unfolded bind_t_Ret]

text \<open>One action of the last thread.\<close>

lemma bind_atomic: "bind_t (atomic m) k = Act (\<lambda>s. case m s of Inl b \<Rightarrow> Inl b | Inr (a, s') \<Rightarrow> Inr (k a, s'))"
  by (auto simp: atomic_def fun_eq_iff split: sum.split)

lemma thread_step_atomic:
  assumes "m (q, s) = Inr (a, (q', s'))"
  shows "thread_step (length ts) (ts @ [(q, bind_t (atomic m) k)], s) (ts @ [(q', k a)], s')"
  using thread_step.act [of "length ts" "ts @ [(q, bind_t (atomic m) k)]" q _ s "k a" q' s'] assms by (simp add: bind_atomic)

lemmas reachable_atomic = reachable_steps(3) [OF _ thread_step_atomic]

section \<open>Contracts\<close>

text \<open>
  \<open>G\<close> relates the objects of all threads to the shared world; \<open>R\<close> is what an action may do. A thread is sound if
  each of its actions keeps \<open>G\<close>, whatever the other threads hold and have done to the world since its last
  one, and obeys \<open>R\<close>; at its end its value and its object satisfy \<open>Q\<close>.
\<close>

inductive sound :: "('q multiset \<Rightarrow> 'w \<Rightarrow> bool) \<Rightarrow> ('q \<times> 'w \<Rightarrow> 'q \<times> 'w \<Rightarrow> bool) \<Rightarrow> ('a \<Rightarrow> 'q \<Rightarrow> bool) \<Rightarrow> 'q \<Rightarrow> ('q \<times> 'w, 'a) prog \<Rightarrow> bool"
  for G R Q where
  Ret: "Q a q \<Longrightarrow> sound G R Q q (Ret a)"
| Act: "(\<forall>M s p q' s'. G (add_mset q M) s \<longrightarrow> f (q, s) = Inr (p, (q', s')) \<longrightarrow>
      G (add_mset q' M) s' \<and> R (q, s) (q', s') \<and> sound G R Q q' p) \<Longrightarrow> sound G R Q q (Act f)"

inductive_simps sound_simps [simp]: "sound G R Q q (Ret a)"

inductive_cases sound_ActE: "sound G R Q q (Act f)"

lemma sound_mono: "sound G R Q q p \<Longrightarrow> (\<And>a q. Q a q \<Longrightarrow> Q' a q) \<Longrightarrow> sound G R Q' q p"
  by (induction rule: sound.induct) (auto intro: sound.intros)

lemma sound_bind:
  assumes "sound G R Q q p" "\<And>a q. Q a q \<Longrightarrow> sound G R Q' q (k a)"
  shows "sound G R Q' q (bind_t p k)"
  using assms(1)
proof (induction rule: sound.induct)
  case (Act q f)
  show ?case
    unfolding bind_t.simps
  proof (rule sound.Act, intro allI impI)
    fix M s p q' s'
    assume G: "G (add_mset q M) s" and run: "(map_sum id (map_prod (\<lambda>p. bind_t p k) id) \<circ> f) (q, s) = Inr (p, (q', s'))"
    then obtain p0 where "f (q, s) = Inr (p0, (q', s'))" "p = bind_t p0 k" by (cases "f (q, s)") auto
    with Act.IH G show "G (add_mset q' M) s' \<and> R (q, s) (q', s') \<and> sound G R Q' q' p" by blast
  qed
qed (simp add: assms(2))

lemma sound_atomic:
  assumes "\<And>M s. G (add_mset q M) s \<Longrightarrow> wlp m (\<lambda>a p'. G (add_mset (fst p') M) (snd p') \<and> R (q, s) p' \<and> Q a (fst p')) (q, s)"
  shows "sound G R Q q (atomic m)"
  unfolding atomic_def
  by (rule sound.Act) (use assms in \<open>auto simp: wlp_iff split: sum.splits\<close>)

lemma sound_blocked: "sound G R Q q (Act (\<lambda>_. Inl b))"
  by (rule sound.Act) simp

locale thread_contract =
  fixes G :: "'q multiset \<Rightarrow> 'w \<Rightarrow> bool"
    and R :: "'q \<times> 'w \<Rightarrow> 'q \<times> 'w \<Rightarrow> bool"
    and Q :: "'a \<Rightarrow> 'q \<Rightarrow> bool"
    and tasks :: "'q \<times> ('q \<times> 'w, 'a) prog \<Rightarrow> bool"
  assumes start_keeps: "tasks (q, p) \<Longrightarrow> G M s \<Longrightarrow> G (add_mset q M) s"
    and tasks_sound: "tasks (q, p) \<Longrightarrow> sound G R Q q p"
begin

definition good :: "('q, 'w, 'a) system \<Rightarrow> bool" where
  "good c \<longleftrightarrow> G (mset (map fst (fst c))) (snd c) \<and> (\<forall>(q, p) \<in> set (fst c). sound G R Q q p)"

lemma thread_step_good:
  assumes "good (ts, s)" "thread_step i (ts, s) (ts', s')"
  shows "good (ts', s')" "R (fst (ts ! i), s) (fst (ts' ! i), s')" "length ts' = length ts" "j \<noteq> i \<Longrightarrow> ts' ! j = ts ! j" "i < length ts"
proof -
  from assms(2) obtain q f p q' where i: "i < length ts" "ts ! i = (q, Act f)" and f: "f (q, s) = Inr (p, (q', s'))"
    and ts': "ts' = ts[i := (q', p)]" by (rule thread_stepE)
  define M where "M = mset (map fst ts) - {#q#}"
  have "q \<in># mset (map fst ts)" using i nth_mem [of i ts] by force
  then have M: "mset (map fst ts) = add_mset q M" by (simp add: M_def)
  have M': "mset (map fst ts') = add_mset q' M" using i by (simp add: ts' map_update mset_update M_def)
  have "sound G R Q q (Act f)" using assms(1) i nth_mem [of i ts] by (auto simp: good_def)
  then have kept: "G (add_mset q' M) s'" and R: "R (q, s) (q', s')" and rest: "sound G R Q q' p"
    using assms(1) f M by (auto simp: good_def elim!: sound_ActE)
  have "sound G R Q x y" if "(x, y) \<in> set ts'" for x y
    using that assms(1) rest set_update_subset_insert [of ts i "(q', p)"] by (auto simp: good_def ts')
  with kept M' show "good (ts', s')" by (auto simp: good_def)
  show "R (fst (ts ! i), s) (fst (ts' ! i), s')" using R i by (simp add: ts')
  show "length ts' = length ts" "j \<noteq> i \<Longrightarrow> ts' ! j = ts ! j" "i < length ts" using i by (simp_all add: ts')
qed

lemma reachable_good:
  assumes "G {#} s0" "reachable tasks s0 c"
  shows "good c"
  using assms(2) unfolding reachable_def
proof (induction rule: rtranclp_induct)
  case base
  show ?case by (simp add: good_def assms(1))
next
  case (step c c')
  from step.hyps(2) step.IH show ?case
  proof (cases rule: sys_step.cases)
    case (start t ts s)
    with step.IH show ?thesis by (cases t) (auto simp: good_def intro: start_keeps tasks_sound)
  qed (auto intro: thread_step_good)
qed

lemma reachable_inv: "G {#} s0 \<Longrightarrow> reachable tasks s0 (ts, s) \<Longrightarrow> G (mset (map fst ts)) s"
  using reachable_good by (fastforce simp: good_def)

lemma reachable_ended: "G {#} s0 \<Longrightarrow> reachable tasks s0 (ts, s) \<Longrightarrow> (q, Ret a) \<in> set ts \<Longrightarrow> Q a q"
  using reachable_good [of s0 "(ts, s)"] by (fastforce simp: good_def)

end

end
