(* ===== verification/Shard_Threads.thy ===== *)
theory Shard_Threads
  imports Handle_Safety Interleaving
begin

text \<open>
  The RPCs of the shard service as threads. gRPC runs every call on a thread of its own; all share the pool,
  the session store and the service object. The code of a call is cut where other threads can come between: every
  section under the mutex of the pool, of the session store, of the service or of a connection is one
  action, and so is every call of libpq or of the stream outside of one. Two cuts are worth
  a word: \<open>Acquire\<close> gives its lock up before it opens a connection, and a connection that is given back
  lies in the pool before its last user has reset its own pointer.

  A connection that is being opened is known to no other thread, so opening it is one action with what is
  then done with it. The actions of a thread, one after the other, are the sequential definition; this
  is shown for every definition.
\<close>

section \<open>Control\<close>

lemma run_control [simp]:
  "run (if b then p else p') = (if b then run p else run p')"
  "run (case v of None \<Rightarrow> p0 | Some x \<Rightarrow> p1 x) = (case v of None \<Rightarrow> run p0 | Some x \<Rightarrow> run (p1 x))"
  "run (case z of (x, y) \<Rightarrow> p2 x y) = (case z of (x, y) \<Rightarrow> run (p2 x y))"
  "run (case w of Inl e \<Rightarrow> p3 e | Inr r \<Rightarrow> p4 r) = (case w of Inl e \<Rightarrow> run (p3 e) | Inr r \<Rightarrow> run (p4 r))"
  "run (case e of RuntimeError m \<Rightarrow> p5 m | SignedOverflow \<Rightarrow> p6) = (case e of RuntimeError m \<Rightarrow> run (p5 m) | SignedOverflow \<Rightarrow> run p6)"
  "run (case f of Return st \<Rightarrow> p7 st | Throw m l \<Rightarrow> p8 m l | Next l \<Rightarrow> p9 l) =
     (case f of Return st \<Rightarrow> run (p7 st) | Throw m l \<Rightarrow> run (p8 m l) | Next l \<Rightarrow> run (p9 l))"
  "run (Act (\<lambda>_. Inl b')) = (\<lambda>_. Inl b')"
  by (simp_all split: option.split prod.split sum.split cxx_error.split flow.split)

lemmas control_cong = if_cong option.case_cong prod.case_cong sum.case_cong cxx_error.case_cong flow.case_cong

declare bind_laws(2,3) [simp]

section \<open>A stream's methods\<close>

type_synonym ('w, 'b) sq_prog = "(StreamingQuery \<times> 'w stream_world_scheme, 'b) prog"

definition keep_lease :: "err_ptr \<Rightarrow> conn option \<Rightarrow> ('w, bool \<times> err_ptr) sq_proc" where
  "keep_lease error_out conn =
     bind_m (upd_q (\<lambda>q. q\<lparr>sq_connection := conn\<rparr>)) (\<lambda>_.
     if conn = None then ret_m (False, set_error error_out ''failed to acquire database connection'')
     else bind_m (upd_q (\<lambda>q. q\<lparr>sq_pooled := True\<rparr>)) (\<lambda>_. ret_m (True, error_out)))"

definition enter_pool :: "err_ptr \<Rightarrow> ('w, (bool \<times> err_ptr) option) sq_proc" where
  "enter_pool error_out =
     bind_m (upd_q (\<lambda>q. q\<lparr>sq_use_session := False\<rparr>)) (\<lambda>_.
     bind_m (world_m Acquire_enter) (\<lambda>conn.
     case conn of None \<Rightarrow> ret_m None | Some c \<Rightarrow> bind_m (keep_lease error_out (Some c)) (\<lambda>r. ret_m (Some r))))"

definition create_lease :: "libpq \<Rightarrow> err_ptr \<Rightarrow> ('w, bool \<times> err_ptr) sq_proc" where
  "create_lease L error_out = bind_m (world_m (Acquire_create L)) (keep_lease error_out)"

definition AcquireConnection_t :: "libpq \<Rightarrow> QueryRequest \<Rightarrow> err_ptr \<Rightarrow> ('w, bool \<times> err_ptr) sq_prog" where
  "AcquireConnection_t L request error_out =
     (if qr_session_id request \<noteq> [] then atomic (AcquireConnection L request error_out)
      else bind_t (atomic (enter_pool error_out)) (\<lambda>r. case r of None \<Rightarrow> atomic (create_lease L error_out) | Some x \<Rightarrow> Ret x))"

text \<open>
  \<open>pooled_\<close> belongs to the thread's own object and is not read between \<open>Release\<close> and its reset, so it is reset with the
  first action: the lease ends where the pool has the connection again.
\<close>

definition give_lease :: "libpq \<Rightarrow> bool \<Rightarrow> ('w, conn option) sq_proc" where
  "give_lease L broken =
     bind_m (get_q sq_connection) (\<lambda>connection.
     case connection of
       None \<Rightarrow> ret_m None
     | Some c \<Rightarrow>
         bind_m (get_q sq_pooled) (\<lambda>pooled.
         bind_m (if pooled then
                   bind_m (world_m (get_m (\<lambda>s. IsHealthy L (history s) c))) (\<lambda>healthy.
                   bind_m (world_m (share_copy c)) (\<lambda>_.
                   world_m (Release L (Some c) (broken \<or> \<not> healthy))))
                 else ret_m ()) (\<lambda>_.
         bind_m (upd_q (\<lambda>q. q\<lparr>sq_pooled := False\<rparr>)) (\<lambda>_. ret_m (Some c)))))"

definition reset_connection :: "conn \<Rightarrow> ('w, unit) sq_proc" where
  "reset_connection c = bind_m (world_m (share_drop c)) (\<lambda>_. upd_q (\<lambda>q. q\<lparr>sq_connection := None\<rparr>))"

definition ReleaseConnection_t :: "libpq \<Rightarrow> bool \<Rightarrow> ('w, unit) sq_prog" where
  "ReleaseConnection_t L broken =
     bind_t (atomic (give_lease L broken)) (\<lambda>r. case r of None \<Rightarrow> Ret () | Some c \<Rightarrow> atomic (reset_connection c))"

definition OpenCursor_t :: "libpq \<Rightarrow> QueryRequest \<Rightarrow> err_ptr \<Rightarrow> ('w, bool \<times> err_ptr) sq_prog" where
  "OpenCursor_t L request error_out =
     bind_t (atomic (BeginIfNeeded L error_out)) (\<lambda>(begun, error_out).
     if \<not> begun then Ret (False, error_out) else atomic (DeclareCursor L request error_out))"

definition OpenImmediate_t :: "libpq \<Rightarrow> QueryRequest \<Rightarrow> err_ptr \<Rightarrow> ('w, bool \<times> err_ptr) sq_prog" where
  "OpenImmediate_t L request error_out =
     bind_t (atomic (ExecuteImmediate L request error_out)) (\<lambda>(result, error_out).
     bind_t (atomic (upd_q (\<lambda>q. q\<lparr>sq_immediate_result := result\<rparr>))) (\<lambda>_.
     if result = None then bind_t (ReleaseConnection_t L True) (\<lambda>_. Ret (False, error_out))
     else bind_t (atomic (upd_q (\<lambda>q. q\<lparr>sq_immediate_done := False\<rparr>))) (\<lambda>_. Ret (True, error_out))))"

definition Open_t :: "libpq \<Rightarrow> QueryRequest \<Rightarrow> err_ptr \<Rightarrow> ('w, bool \<times> err_ptr) sq_prog" where
  "Open_t L request error_out =
     bind_t (atomic (upd_q (\<lambda>q. q\<lparr>sq_request := Some request, sq_use_cursor := IsTupleStreamingSql (qr_text request)\<rparr>))) (\<lambda>_.
     bind_t (AcquireConnection_t L request error_out) (\<lambda>(acquired, error_out).
     if \<not> acquired then Ret (False, error_out)
     else
       bind_t (atomic (get_q sq_use_cursor)) (\<lambda>use_cursor.
       if use_cursor then OpenCursor_t L request error_out else OpenImmediate_t L request error_out)))"

definition Close_t :: "libpq \<Rightarrow> err_ptr \<Rightarrow> ('w, err_ptr) sq_prog" where
  "Close_t L error_out =
     bind_t (atomic clear_immediate) (\<lambda>_.
     bind_t (atomic (get_q sq_use_cursor)) (\<lambda>use_cursor.
     bind_t (if use_cursor then bind_t (atomic (CloseCursor L error_out)) (\<lambda>error_out. atomic (EndTransaction L True error_out))
             else Ret error_out) (\<lambda>error_out.
     bind_t (ReleaseConnection_t L False) (\<lambda>_. Ret error_out))))"

definition Abort_t :: "libpq \<Rightarrow> ('w, unit) sq_prog" where
  "Abort_t L =
     bind_t (atomic clear_immediate) (\<lambda>_.
     bind_t (atomic (get_m fst)) (\<lambda>q.
     bind_t (if sq_use_cursor q \<and> sq_cursor_open q then atomic (CloseCursor L (Some [])) else Ret (Some [])) (\<lambda>ignored.
     bind_t (atomic (get_q sq_started_local_txn)) (\<lambda>started.
     bind_t (if started then atomic (EndTransaction L False ignored) else Ret ignored) (\<lambda>_.
     ReleaseConnection_t L True)))))"

text \<open>Before a query has made its stream, and after it has destroyed it, the thread has no stream.\<close>

definition no_stream :: StreamingQuery where
  "no_stream = StreamingQuery_init ConnectParams_init 0"

definition destroy_t :: "('w, unit) sq_prog" where
  "destroy_t = atomic (bind_m destroy_stream (\<lambda>_. upd_q (\<lambda>_. no_stream)))"

lemma run_AcquireConnection_t [simp]: "run (AcquireConnection_t L request err) = AcquireConnection L request err"
proof (rule ext)
  fix p :: "StreamingQuery \<times> 'a stream_world_scheme"
  show "run (AcquireConnection_t L request err) p = AcquireConnection L request err p"
    by (cases p)
      (auto simp: AcquireConnection_t_def AcquireConnection_def enter_pool_def create_lease_def keep_lease_def bind_m_def world_m_def
        upd_q_def get_q_def Acquire_def split: sum.split option.split)
qed

lemma run_ReleaseConnection_t [simp]: "run (ReleaseConnection_t L broken) = ReleaseConnection L broken"
proof (rule ext)
  fix p :: "StreamingQuery \<times> 'a stream_world_scheme"
  show "run (ReleaseConnection_t L broken) p = ReleaseConnection L broken p"
    by (cases p)
      (auto simp: ReleaseConnection_t_def ReleaseConnection_def give_lease_def reset_connection_def return_lease_def bind_m_def world_m_def
        upd_q_def get_q_def share_drop_def PQfinish_m_def record_event_def split: sum.split option.split)
qed

lemma run_stream_t [simp]:
  "run (OpenCursor_t L request err) = OpenCursor L request err" "run (OpenImmediate_t L request err) = OpenImmediate L request err"
  "run (Close_t L err) = Close L err" "run (Abort_t L) = Abort L"
  by (simp_all add: OpenCursor_t_def OpenCursor_def OpenImmediate_t_def OpenImmediate_def Close_t_def Close_def Abort_t_def Abort_def
      cong: control_cong)

lemma run_Open_t [simp]: "run (Open_t L request err) = Open L request err"
  by (simp add: Open_t_def Open_def cong: control_cong)

section \<open>QueryStream\<close>

type_synonym ('a, 'b) qs_prog = "(StreamingQuery \<times> 'a shard_world_scheme, 'b) prog"

definition SendBatchChunk_t ::
    "libpq \<Rightarrow> (flex \<Rightarrow> string) \<Rightarrow> ResultSchema \<Rightarrow> bool \<Rightarrow> string \<Rightarrow> ('a, bool \<times> bool) qs_prog" where
  "SendBatchChunk_t L G schema_meta batch_sent payload =
     (if payload = [] then Ret (True, batch_sent)
      else
        bind_t (atomic (world_m (IsCancelled_m L))) (\<lambda>cancelled.
        if cancelled then Ret (False, batch_sent)
        else
          let kind = (if batch_sent then CHUNK_KIND_BATCH else CHUNK_KIND_SCHEMA);
              meta = (if batch_sent then [] else EncodeResultSchema G schema_meta)
          in bind_t (atomic (WriteResultChunk L kind meta payload)) (\<lambda>written.
             Ret (if written then (True, True) else (False, batch_sent)))))"

definition cancelled_return_t :: "libpq \<Rightarrow> ('a, flow) qs_prog" where
  "cancelled_return_t L =
     bind_t (Abort_t L) (\<lambda>_.
     bind_t (atomic (world_m (IsCancelled_m L))) (\<lambda>cancelled.
     Ret (Return (mk_status CANCELLED (if cancelled then ''cancelled'' else ''client cancelled stream'')))))"

definition send_batch_t ::
    "libpq \<Rightarrow> (flex \<Rightarrow> string) \<Rightarrow> PGresult option \<Rightarrow> int \<Rightarrow> int \<Rightarrow> query_locals \<Rightarrow> ('a, flow) qs_prog" where
  "send_batch_t L G result row_begin row_end locals =
     (case EncodeRawPgBatch result row_begin row_end of
        Inl SignedOverflow \<Rightarrow> Act (\<lambda>_. Inl Undefined)
      | Inl (RuntimeError what) \<Rightarrow> Ret (Throw what locals)
      | Inr payload \<Rightarrow>
          let locals = locals\<lparr>ql_total_rows := ql_total_rows locals + (row_end - row_begin)\<rparr>
          in bind_t (SendBatchChunk_t L G (ql_schema_meta locals) (ql_batch_sent locals) payload) (\<lambda>(sent, batch_sent).
             if \<not> sent then cancelled_return_t L
             else Ret (Next (locals\<lparr>ql_batch_sent := batch_sent\<rparr>))))"

function send_batches_t ::
    "libpq \<Rightarrow> (flex \<Rightarrow> string) \<Rightarrow> PGresult \<Rightarrow> int \<Rightarrow> int \<Rightarrow> int \<Rightarrow> query_locals \<Rightarrow> ('a, flow) qs_prog" where
  "send_batches_t L G fetch wire_batch_rows num_rows row_begin locals =
     (if row_begin < num_rows \<and> 0 < wire_batch_rows then
        if row_begin + wire_batch_rows > INT_MAX then Act (\<lambda>_. Inl Undefined)
        else
          bind_t (send_batch_t L G (Some fetch) row_begin (min (row_begin + wire_batch_rows) num_rows) locals) (\<lambda>outcome.
          case outcome of
            Next locals' \<Rightarrow> send_batches_t L G fetch wire_batch_rows num_rows (row_begin + wire_batch_rows) locals'
          | _ \<Rightarrow> Ret outcome)
      else Ret (Next locals))"
  by pat_completeness auto
termination
  by (relation "measure (\<lambda>(_, _, _, _, num_rows, row_begin, _). nat (num_rows - row_begin))") auto

declare send_batches_t.simps [simp del]

definition trailer_only_t :: "libpq \<Rightarrow> (flex \<Rightarrow> string) \<Rightarrow> PGresult \<Rightarrow> query_locals \<Rightarrow> ('a, flow \<times> bool) qs_prog" where
  "trailer_only_t L G fetch locals =
     bind_t (atomic (WriteResultChunk L CHUNK_KIND_TRAILER (EncodeResultTrailer G (BuildCommandTrailer fetch)) [])) (\<lambda>written.
     if \<not> written then
       bind_t (Abort_t L) (\<lambda>_. Ret (Return (mk_status CANCELLED ''client cancelled stream''), True))
     else
       bind_t (atomic (world_m (PQclear_m (ql_last_result locals)))) (\<lambda>_.
       bind_t (Close_t L (ql_exec_error locals)) (\<lambda>_. Ret (Return Status_OK, True))))"

definition handle_portion_t ::
    "libpq \<Rightarrow> (flex \<Rightarrow> string) \<Rightarrow> int \<Rightarrow> PGresult \<Rightarrow> query_locals \<Rightarrow> ('a, flow \<times> bool) qs_prog" where
  "handle_portion_t L G wire_batch_rows fetch locals =
     bind_t (atomic (world_m (PQclear_m (ql_last_result locals)))) (\<lambda>_.
     let locals = locals\<lparr>ql_last_result := Some fetch\<rparr>;
         status = PQresultStatus fetch
     in if status \<noteq> PGRES_TUPLES_OK \<and> status \<noteq> PGRES_COMMAND_OK then
          bind_t (atomic (WriteErrorChunk L G (ExtractPgError (Some fetch)))) (\<lambda>_.
          bind_t (Abort_t L) (\<lambda>_. Ret (Return Status_OK, True)))
        else
          let num_fields = PQnfields fetch; num_rows = PQntuples fetch
          in if num_fields = 0 then trailer_only_t L G fetch locals
             else if num_rows = 0 \<and> ql_schema_open locals then Ret (Next locals, True)
             else
               let locals = (if \<not> ql_schema_open locals
                             then locals\<lparr>ql_schema_meta := BuildSchemaMeta fetch, ql_schema_open := True\<rparr> else locals)
               in if num_rows = 0 then Ret (Next locals, False)
                  else bind_t (send_batches_t L G fetch wire_batch_rows num_rows 0 locals) (\<lambda>outcome. Ret (outcome, False)))"

fun stream_loop_t ::
    "libpq \<Rightarrow> (flex \<Rightarrow> string) \<Rightarrow> int \<Rightarrow> nat \<Rightarrow> query_locals \<Rightarrow> ('a, flow) qs_prog" where
  "stream_loop_t L G wire_batch_rows 0 locals = Act (\<lambda>_. Inl OutOfFuel)"
| "stream_loop_t L G wire_batch_rows (Suc fuel) locals =
     bind_t (atomic (world_m (IsCancelled_m L))) (\<lambda>cancelled.
     if cancelled then bind_t (Abort_t L) (\<lambda>_. Ret (Return (mk_status CANCELLED ''cancelled'')))
     else
       bind_t (atomic (Fetch L (ql_exec_error locals))) (\<lambda>(fetch, exec_error).
       let locals = locals\<lparr>ql_exec_error := exec_error\<rparr> in
       case fetch of
         None \<Rightarrow>
           if exec_error \<noteq> Some [] then
             bind_t (atomic (WriteErrorChunk L G (PgErrorMeta_init\<lparr>em_message := the exec_error\<rparr>))) (\<lambda>_.
             bind_t (Abort_t L) (\<lambda>_. Ret (Return Status_OK)))
           else Ret (Next locals)
       | Some r \<Rightarrow>
           bind_t (handle_portion_t L G wire_batch_rows r locals) (\<lambda>(outcome, stop).
           case outcome of
             Next locals' \<Rightarrow> if stop then Ret (Next locals') else stream_loop_t L G wire_batch_rows fuel locals'
           | _ \<Rightarrow> Ret outcome)))"

definition send_trailer_t :: "libpq \<Rightarrow> (flex \<Rightarrow> string) \<Rightarrow> query_locals \<Rightarrow> ('a, flow) qs_prog" where
  "send_trailer_t L G locals =
     bind_t (atomic (WriteResultChunk L CHUNK_KIND_TRAILER (EncodeResultTrailer G (final_trailer locals)) [])) (\<lambda>written.
     if \<not> written then
       bind_t (Abort_t L) (\<lambda>_. Ret (Return (mk_status CANCELLED ''client cancelled stream'')))
     else
       bind_t (atomic (world_m (PQclear_m (ql_last_result locals)))) (\<lambda>_.
       bind_t (Close_t L (ql_exec_error locals)) (\<lambda>_. Ret (Return Status_OK))))"

definition after_loop_t :: "libpq \<Rightarrow> (flex \<Rightarrow> string) \<Rightarrow> query_locals \<Rightarrow> ('a, flow) qs_prog" where
  "after_loop_t L G locals =
     (if ql_schema_open locals \<and> \<not> ql_batch_sent locals then
        bind_t (send_batch_t L G (ql_last_result locals) 0 0 locals) (\<lambda>outcome.
        case outcome of Next locals' \<Rightarrow> send_trailer_t L G locals' | _ \<Rightarrow> Ret outcome)
      else send_trailer_t L G locals)"

definition finish_stream_t :: "libpq \<Rightarrow> (flex \<Rightarrow> string) \<Rightarrow> flow \<Rightarrow> ('a, Status) qs_prog" where
  "finish_stream_t L G outcome =
     (case outcome of
        Return status \<Rightarrow> Ret status
      | Throw what locals \<Rightarrow>
          bind_t (atomic (world_m (PQclear_m (ql_last_result locals)))) (\<lambda>_.
          bind_t (Abort_t L) (\<lambda>_.
          bind_t (atomic (WriteErrorChunk L G (PgErrorMeta_init\<lparr>em_message := what\<rparr>))) (\<lambda>_.
          Ret Status_OK)))
      | Next locals \<Rightarrow> Ret Status_OK)"

definition stream_rows_t ::
    "libpq \<Rightarrow> (flex \<Rightarrow> string) \<Rightarrow> int \<Rightarrow> nat \<Rightarrow> err_ptr \<Rightarrow> ('a, Status) qs_prog" where
  "stream_rows_t L G wire_batch_rows fuel exec_error =
     bind_t (stream_loop_t L G wire_batch_rows fuel (query_locals_init exec_error)) (\<lambda>outcome.
     bind_t (case outcome of Next locals \<Rightarrow> after_loop_t L G locals | _ \<Rightarrow> Ret outcome) (\<lambda>outcome.
     finish_stream_t L G outcome))"

definition run_query_t ::
    "libpq \<Rightarrow> (flex \<Rightarrow> string) \<Rightarrow> int \<Rightarrow> nat \<Rightarrow> QueryRequest \<Rightarrow> ('a, Status) qs_prog" where
  "run_query_t L G wire_batch_rows fuel request =
     bind_t (Open_t L request (Some [])) (\<lambda>(ok, exec_error).
     if \<not> ok then
       bind_t (atomic (WriteErrorChunk L G (PgErrorMeta_init\<lparr>em_message := the exec_error\<rparr>))) (\<lambda>_. Ret Status_OK)
     else stream_rows_t L G wire_batch_rows fuel exec_error)"

text \<open>The parameters are read under \<open>state_mutex_\<close>; then the stream is made.\<close>

definition QueryStream_t ::
    "libpq \<Rightarrow> (flex \<Rightarrow> string) \<Rightarrow> ServerConfig \<Rightarrow> nat \<Rightarrow> QueryRequest \<Rightarrow> ('a, Status) qs_prog" where
  "QueryStream_t L G config fuel request =
     (case ValidateHostIndex config (qr_host_index request) (Some []) of
        (False, message) \<Rightarrow> Ret (mk_status INVALID_ARGUMENT (the message))
      | (True, message) \<Rightarrow>
          (case EnsureQueryRequest request message of
             (False, message) \<Rightarrow> Ret (mk_status INVALID_ARGUMENT (the message))
           | (True, _) \<Rightarrow>
               if cast_int32 (int (length (qr_text request))) > max_query_text_bytes config
               then Ret (mk_status INVALID_ARGUMENT ''query text exceeds MTDD_MAX_QUERY_TEXT_BYTES'')
               else
                 bind_t (atomic (world_m (get_m (\<lambda>s. if executor s = None then None else connect_params s)))) (\<lambda>params.
                 case params of
                   None \<Rightarrow> Ret (mk_status FAILED_PRECONDITION ''Connect must be called first'')
                 | Some defaults \<Rightarrow>
                     let fetch_rows = (if pg_fetch_rows config > 0 then pg_fetch_rows config else 10000);
                         wire_batch_rows = (if pg_wire_batch_rows config > 0 then pg_wire_batch_rows config else 1000)
                     in bind_t (atomic (upd_q (\<lambda>_. StreamingQuery_init defaults fetch_rows))) (\<lambda>_.
                        bind_t (run_query_t L G wire_batch_rows fuel request) (\<lambda>status.
                        bind_t destroy_t (\<lambda>_. Ret status))))))"

section \<open>The other tasks of the server\<close>

text \<open>
  A call on the monitor that has a value; without a monitor the value is not used. \<open>OnConnectSuccess\<close> holds its mutex
  only for the parameters: the test of the probe thread and its start are two actions.
\<close>

definition ask_monitor ::
    "'b \<Rightarrow> (PgHealthMonitor \<times> 'a shard_world_scheme, 'b) proc \<Rightarrow> ('a shard_world_scheme, 'b) proc" where
  "ask_monitor d m s =
     (case health_monitor s of
        None \<Rightarrow> Inr (d, s)
      | Some h \<Rightarrow>
          (case m (h, s) of
             Inl b \<Rightarrow> Inl b
           | Inr (x, (h', s')) \<Rightarrow> Inr (x, s'\<lparr>health_monitor := Some h'\<rparr>)))"

definition start_probe :: "('w, unit) hm_proc" where
  "start_probe = upd_h (\<lambda>h. h\<lparr>hm_stop := False, hm_probe_thread := True\<rparr>)"

definition OnConnectSuccess_t :: "libpq \<Rightarrow> ConnectParams \<Rightarrow> int \<Rightarrow> ('a, unit) qs_prog" where
  "OnConnectSuccess_t L params ms =
     bind_t (atomic (world_m (ask_monitor () (upd_h (\<lambda>h. h\<lparr>hm_params := params, hm_statement_timeout_ms := ms,
       hm_has_params := True\<rparr>))))) (\<lambda>_.
     bind_t (atomic (world_m (ask_monitor False (ProbeOnce L)))) (\<lambda>healthy.
     bind_t (atomic (world_m (ask_monitor () (SetServing healthy)))) (\<lambda>_.
     bind_t (atomic (world_m (ask_monitor True (get_m (\<lambda>p. hm_probe_thread (fst p)))))) (\<lambda>joinable.
     if \<not> joinable then atomic (world_m (ask_monitor () start_probe)) else Ret ()))))"

definition Shard_Connect_t ::
    "libpq \<Rightarrow> ServerConfig \<Rightarrow> ConnectRequest \<Rightarrow> ('a, Status \<times> ConnectResponse) qs_prog" where
  "Shard_Connect_t L config request =
     (case ValidateHostIndex config (cr_host_index request) (Some []) of
        (False, message) \<Rightarrow> Ret (Status_OK, \<lparr>resp_ok = False, resp_message = the message\<rparr>)
      | (True, _) \<Rightarrow>
          let params = BuildConnectParams config request
          in if cp_dbname params = [] \<or> cp_user params = []
             then Ret (Status_OK, \<lparr>resp_ok = False, resp_message = ''dbname and user are required''\<rparr>)
             else
               bind_t (atomic (world_m (Configure params (pool_size config)))) (\<lambda>_.
               bind_t (atomic (world_m (Pool_Connect L (Some [])))) (\<lambda>(connected, error).
               if \<not> connected then
                 bind_t (atomic (world_m (on_monitor OnConnectFailure))) (\<lambda>_.
                 Ret (Status_OK, \<lparr>resp_ok = False, resp_message = the error\<rparr>))
               else
                 bind_t (atomic (world_m (upd_m (\<lambda>s. s\<lparr>connect_params := Some params, executor := Some params\<rparr>)))) (\<lambda>_.
                 bind_t (OnConnectSuccess_t L params (statement_timeout_ms config)) (\<lambda>_.
                 Ret (Status_OK, \<lparr>resp_ok = True, resp_message = ''connected''\<rparr>))))))"

text \<open>An RPC, or one round of the thread that probes PostgreSQL, with the values its pause reads.\<close>

datatype server_task = ServeRpc shard_rpc | ProbeRound "bool list"

fun task_t :: "libpq \<Rightarrow> (flex \<Rightarrow> string) \<Rightarrow> ServerConfig \<Rightarrow> server_task \<Rightarrow> ('a, Status) qs_prog" where
  "task_t L G config (ServeRpc (RpcConnect request)) = bind_t (Shard_Connect_t L config request) (\<lambda>(st, _). Ret st)"
| "task_t L G config (ServeRpc (RpcQueryStream fuel request)) = QueryStream_t L G config fuel request"
| "task_t L G config (ServeRpc (RpcDisconnect request)) = bind_t (atomic (world_m (Shard_Disconnect config request))) (\<lambda>(st, _). Ret st)"
| "task_t L G config (ProbeRound reads) = bind_t (atomic (world_m (on_monitor (ProbeLoop_body L reads)))) (\<lambda>_. Ret Status_OK)"

section \<open>The threads run the sequential code\<close>

lemma run_service_t [simp]:
  "run (SendBatchChunk_t L G schema sent payload) = SendBatchChunk L G schema sent payload"
  "run (cancelled_return_t L) = cancelled_return L"
  by (simp_all add: SendBatchChunk_t_def SendBatchChunk_def cancelled_return_t_def cancelled_return_def Let_def cong: control_cong)

lemma run_send_batch_t [simp]: "run (send_batch_t L G r b e l) = send_batch L G r b e l"
  by (simp add: send_batch_t_def send_batch_def Let_def cong: control_cong)

lemma run_send_batches_t [simp]: "run (send_batches_t L G fetch w n b l) = send_batches L G fetch w n b l"
proof (induction L G fetch w n b l rule: send_batches_t.induct)
  case (1 L G fetch w n b l)
  have "run (case y of Next l' \<Rightarrow> send_batches_t L G fetch w n (b + w) l' | _ \<Rightarrow> Ret y) =
      (case y of Next l' \<Rightarrow> (send_batches L G fetch w n (b + w) l' :: ('a, flow) qs_proc) | _ \<Rightarrow> ret_m y)"
    if "b < n \<and> 0 < w" "\<not> INT_MAX < b + w" for y
    using 1 [OF that] by (cases y) simp_all
  then show ?case
    by (subst send_batches_t.simps, subst send_batches.simps) (simp del: run_control(6) cong: control_cong)
qed

lemma run_handle_portion_t [simp]: "run (handle_portion_t L G w fetch l) = handle_portion L G w fetch l"
  by (simp add: handle_portion_t_def handle_portion_def trailer_only_t_def trailer_only_def Let_def cong: control_cong)

lemma run_stream_loop_t [simp]: "run (stream_loop_t L G w fuel l) = stream_loop L G w fuel l"
  by (induction fuel arbitrary: l) (simp_all add: Let_def cong: control_cong)

lemma run_stream_rows_t [simp]: "run (stream_rows_t L G w fuel err) = stream_rows L G w fuel err"
  by (simp add: stream_rows_t_def stream_rows_def after_loop_t_def after_loop_def send_trailer_t_def send_trailer_def
      finish_stream_t_def finish_stream_def cong: control_cong)

lemma run_query_t [simp]: "run (run_query_t L G w fuel request) = run_query L G w fuel request"
  by (simp add: run_query_t_def run_query_def cong: control_cong)

text \<open>The outcome of a call on a thread without a stream.\<close>

definition on_thread :: "('a shard_world_scheme, 'b) proc \<Rightarrow> ('a, 'b) qs_proc" where
  "on_thread m p = (case m (snd p) of Inl b \<Rightarrow> Inl b | Inr (x, s') \<Rightarrow> Inr (x, (no_stream, s')))"

lemma on_thread_simps [simp]:
  "on_thread (ret_m x) (no_stream, s) = Inr (x, (no_stream, s))" "on_thread (bind_m (get_m f) k) (q, s) = on_thread (k (f s)) (q, s)"
  by (simp_all add: on_thread_def bind_m_def)

lemma run_with_stream:
  "bind_m (upd_q (\<lambda>_. q0)) (\<lambda>_. bind_m m (\<lambda>x. bind_m (run destroy_t) (\<lambda>_. ret_m x))) (q, s) = on_thread (with_stream q0 m) (q, s)"
  by (auto simp: on_thread_def destroy_t_def with_stream_def bind_m_def upd_q_def split: sum.split)

text \<open>The thread of a streamed query is the sequential query cut into its atomic actions. Left alone, it
  gives the same status, writes the same chunks and leaves the same world as \<open>QueryStream\<close>, for every answer of
  PostgreSQL and of the peer, and it blocks or runs out of fuel exactly where that does; its stream object is gone at the end.\<close>

theorem run_QueryStream_t:
  "run (QueryStream_t L G config fuel request) (no_stream, s) = on_thread (QueryStream L G config fuel request) (no_stream, s)"
proof -
  obtain ok m where v: "ValidateHostIndex config (qr_host_index request) (Some []) = (ok, m)" by fastforce
  obtain ok' m' where e: "EnsureQueryRequest request m = (ok', m')" by fastforce
  have get: "bind_m (world_m (get_m f)) k (q, t) = k (f t) (q, t)" for f k q and t :: "'a shard_world_scheme"
    by (simp add: bind_m_def world_m_def)
  show ?thesis
    unfolding QueryStream_t_def QueryStream_def v prod.case e Let_def
    by (cases ok; cases ok'; simp add: get run_with_stream split: option.split)
qed

text \<open>A call that does not look at the service's members runs the same whatever the member is.\<close>

definition blind :: "('s \<Rightarrow> 's) \<Rightarrow> ('s, 'b) proc \<Rightarrow> bool" where
  "blind u m \<longleftrightarrow> (\<forall>s. m (u s) = (case m s of Inl b \<Rightarrow> Inl b | Inr (x, t) \<Rightarrow> Inr (x, u t)))"

lemma blind_intros:
  "blind u (ret_m a)" "blind u m \<Longrightarrow> (\<And>x. blind u (f x)) \<Longrightarrow> blind u (bind_m m f)"
  "blind u m1 \<Longrightarrow> blind u m2 \<Longrightarrow> blind u (if t then m1 else m2)"
  "blind u m0 \<Longrightarrow> (\<And>x. blind u (m3 x)) \<Longrightarrow> blind u (case v of None \<Rightarrow> m0 | Some x \<Rightarrow> m3 x)"
  "(\<And>x y. blind u (m4 x y)) \<Longrightarrow> blind u (case z of (x, y) \<Rightarrow> m4 x y)"
  "(\<And>s. k (u s) = k s) \<Longrightarrow> blind u (get_m k)"
  by (auto simp: blind_def bind_m_def split: sum.split option.split prod.split)

lemma blind_calls:
  fixes x :: "PgHealthMonitor option"
  shows "blind (\<lambda>s. s\<lparr>health_monitor := x\<rparr>) (PQconnectdb_m L info)" "blind (\<lambda>s. s\<lparr>health_monitor := x\<rparr>) (PQexec_m L c sql)"
    "blind (\<lambda>s. s\<lparr>health_monitor := x\<rparr>) (PQclear_m r)" "blind (\<lambda>s. s\<lparr>health_monitor := x\<rparr>) (PQfinish_m c)"
  by (auto simp: blind_def PQconnectdb_m_def PQexec_m_def PQclear_m_def PQfinish_m_def record_event_def Let_def split: option.split)

lemma blind_Connect: "blind (\<lambda>s. s\<lparr>health_monitor := x\<rparr>) (PqConnection_Connect L params err ms)"
  unfolding PqConnection_Connect_def ApplyStatementTimeout_def Let_def
  by (intro blind_intros blind_calls; simp)

lemma blind_world: "blind u m \<Longrightarrow> blind (\<lambda>p. (fst p, u (snd p))) (world_m m)"
  by (auto simp: blind_def world_m_def split: sum.split)

lemma ProbeOnce_blind:
  "ProbeOnce L (h, s\<lparr>health_monitor := x\<rparr>) = (case ProbeOnce L (h, s) of Inl b \<Rightarrow> Inl b | Inr (y, (h', t)) \<Rightarrow> Inr (y, (h', t\<lparr>health_monitor := x\<rparr>)))"
proof -
  have "blind (\<lambda>p. (fst p, (snd p)\<lparr>health_monitor := x\<rparr>)) (ProbeOnce L :: (PgHealthMonitor \<times> 'a shard_world_scheme, bool) proc)"
    unfolding ProbeOnce_def by (intro blind_intros blind_world blind_Connect blind_calls; simp)
  then have "ProbeOnce L (h, s\<lparr>health_monitor := x\<rparr>) =
      (case ProbeOnce L (h, s) of Inl b \<Rightarrow> Inl b | Inr (y, t) \<Rightarrow> Inr (y, (fst t, (snd t)\<lparr>health_monitor := x\<rparr>)))"
    unfolding blind_def by (metis fst_conv snd_conv)
  then show ?thesis by (simp add: split_beta split: sum.split)
qed

lemma run_OnConnectSuccess_t [simp]: "run (OnConnectSuccess_t L params ms) = world_m (on_monitor (OnConnectSuccess L params ms))"
proof (rule ext)
  fix p :: "StreamingQuery \<times> 'a shard_world_scheme"
  obtain q s where p: "p = (q, s)" by (cases p)
  show "run (OnConnectSuccess_t L params ms) p = world_m (on_monitor (OnConnectSuccess L params ms)) p"
  proof (cases "health_monitor s")
    case None
    then show ?thesis by (simp add: p OnConnectSuccess_t_def world_m_def on_monitor_def ask_monitor_def bind_m_def)
  next
    case (Some h)
    then show ?thesis
      by (auto simp: p OnConnectSuccess_t_def OnConnectSuccess_def start_probe_def world_m_def on_monitor_def ask_monitor_def bind_m_def upd_h_def
          SetServing_def ProbeOnce_blind split: sum.split)
  qed
qed

lemma run_Shard_Connect_t: "run (Shard_Connect_t L config request) = world_m (Shard_Connect L config request)"
  by (auto simp: Shard_Connect_t_def Shard_Connect_def bind_m_def world_m_def fun_eq_iff Let_def
      split: prod.split bool.split option.split sum.split)

end
