(* ===== verification/Thread_Contracts.thy ===== *)
theory Thread_Contracts
  imports Shard_Threads
begin

text \<open>
  What an action of the shard service's threads keeps and may do, whatever the other threads hold: the accounts of
  \<open>Handle_Safety\<close> balance for all streams together, no connection is lent twice, lent and idle, or lent and
  kept by a session, and an action makes its calls on the connection its own stream holds or on one it has
  opened. Every task the server can start is shown to obey this contract action by action.
\<close>

section \<open>The contract of an action\<close>

definition lease :: "StreamingQuery \<Rightarrow> conn multiset" where
  "lease q = (if sq_pooled q then ptr (sq_connection q) else {#})"

definition session_use :: "StreamingQuery \<Rightarrow> conn multiset" where
  "session_use q = (if sq_use_session q then ptr (sq_connection q) else {#})"

text \<open>
  The pointers of all streams; what is lent or waits in the pool; what belongs to a session or is used as a session's.
\<close>

definition pointers :: "StreamingQuery multiset \<Rightarrow> conn multiset" where
  "pointers M = (\<Sum>q\<in>#M. ptr (sq_connection q))"

definition lent :: "StreamingQuery multiset \<Rightarrow> 'a pool_world_scheme \<Rightarrow> conn multiset" where
  "lent M s = (\<Sum>q\<in>#M. lease q) + mset (cm_idle (pool s))"

definition pinned :: "StreamingQuery multiset \<Rightarrow> 'a store_world_scheme \<Rightarrow> conn multiset" where
  "pinned M s = (\<Sum>q\<in>#M. session_use q) + mset (map snd (ss_sessions (session_store s)))"

definition apart :: "conn multiset \<Rightarrow> conn multiset \<Rightarrow> bool" where
  "apart X Y \<longleftrightarrow> (\<forall>c. count X c \<le> 1) \<and> set_mset X \<inter> set_mset Y = {}"

text \<open>The accounts balance; no connection is lent twice, or lent and idle, or belongs to a session as well.\<close>

definition shard_inv :: "StreamingQuery multiset \<Rightarrow> 'a store_world_scheme \<Rightarrow> bool" where
  "shard_inv M s \<longleftrightarrow> accounts (pointers M) s \<and> apart (lent M s) (pinned M s) \<and> (\<forall>q \<in># M. sq_pooled q \<longrightarrow> \<not> sq_use_session q)"

lemma mset_simps [simp]:
  "pointers {#} = {#}" "pointers (add_mset q M) = pointers M + ptr (sq_connection q)"
  "lent (add_mset q M) s = lent M s + lease q" "pinned (add_mset q M) s = pinned M s + session_use q"
  by (simp_all add: pointers_def lent_def pinned_def)

text \<open>A statement goes to the stream's own connection, which it holds, or to a new one that is being opened.\<close>

fun exec_on :: "pg_event \<Rightarrow> conn option" where
  "exec_on (EvExec c sql r) = Some c"
| "exec_on (EvExecParams c sql ps fmt r) = Some c"
| "exec_on e = None"

definition holding :: "StreamingQuery \<Rightarrow> bool" where
  "holding q \<longleftrightarrow> sq_pooled q \<or> sq_use_session q"

definition own_calls :: "StreamingQuery \<times> 'a pg_world_scheme \<Rightarrow> StreamingQuery \<times> 'a pg_world_scheme \<Rightarrow> bool" where
  "own_calls p p' \<longleftrightarrow>
     (\<exists>es. history (snd p') = es @ history (snd p) \<and>
        (\<forall>e \<in> set es. \<forall>c. exec_on e = Some c \<longrightarrow> next_conn (snd p) \<le> c \<or> sq_connection (fst p) = Some c \<and> holding (fst p)))"

text \<open>Between two methods a stream has a connection only if it holds it.\<close>

definition settled :: "StreamingQuery \<Rightarrow> bool" where
  "settled q \<longleftrightarrow> sq_connection q = None \<or> holding q"

abbreviation act_sound :: "('b \<Rightarrow> StreamingQuery \<Rightarrow> bool) \<Rightarrow> StreamingQuery \<Rightarrow> (StreamingQuery \<times> 'a stream_world_scheme, 'b) prog \<Rightarrow> bool" where
  "act_sound \<equiv> sound shard_inv own_calls"

section \<open>Actions that leave the containers alone\<close>

definition same_key :: "StreamingQuery \<Rightarrow> StreamingQuery \<Rightarrow> bool" where
  "same_key q q' \<longleftrightarrow> sq_connection q' = sq_connection q \<and> sq_pooled q' = sq_pooled q \<and> sq_use_session q' = sq_use_session q"

lemma same_key_simps [simp]:
  "same_key q q" "same_key q (q'\<lparr>sq_use_cursor := b\<rparr>) = same_key q q'" "same_key q (q'\<lparr>sq_started_local_txn := b\<rparr>) = same_key q q'"
  "same_key q (q'\<lparr>sq_cursor_open := b\<rparr>) = same_key q q'" "same_key q (q'\<lparr>sq_immediate_done := b\<rparr>) = same_key q q'"
  "same_key q (q'\<lparr>sq_immediate_result := r\<rparr>) = same_key q q'" "same_key q (q'\<lparr>sq_cursor_name := t\<rparr>) = same_key q q'"
  "same_key q (q'\<lparr>sq_request := x\<rparr>) = same_key q q'"
  by (simp_all add: same_key_def)

lemma same_key_cong:
  "same_key q q' \<Longrightarrow> sq_connection q' = sq_connection q" "same_key q q' \<Longrightarrow> lease q' = lease q" "same_key q q' \<Longrightarrow> session_use q' = session_use q"
  "same_key q q' \<Longrightarrow> holding q' = holding q" "same_key q q' \<Longrightarrow> settled q' = settled q"
  by (simp_all add: same_key_def lease_def session_use_def holding_def settled_def)

definition frame_at :: "StreamingQuery \<Rightarrow> 'w store_world_scheme \<Rightarrow> StreamingQuery \<times> 'w store_world_scheme \<Rightarrow> bool" where
  "frame_at q0 s0 p \<longleftrightarrow>
     same_key q0 (fst p) \<and> pool (snd p) = pool s0 \<and> session_store (snd p) = session_store s0 \<and>
     (\<exists>es. history (snd p) = es @ history s0 \<and> (\<forall>e \<in> set es. \<forall>c. exec_on e = Some c \<longrightarrow> sq_connection q0 = Some c))"

lemma frame_at_event:
  "frame_at q0 s0 (q, s) \<Longrightarrow> (\<And>c. exec_on e = Some c \<Longrightarrow> sq_connection q0 = Some c) \<Longrightarrow> frame_at q0 s0 (q, s\<lparr>history := e # history s\<rparr>)"
  by (auto simp: frame_at_def intro: exI [of _ "e # es" for es])

lemma frame_stream:
  "keeps (frame_at q0 s0) m \<Longrightarrow> keeps (frame_at q0 s0) (with_lock c m)"
  "(\<And>q. sq_connection q = sq_connection q0 \<Longrightarrow> keeps (frame_at q0 s0) (f q)) \<Longrightarrow> keeps (frame_at q0 s0) (bind_m (get_m fst) f)"
  "(\<And>q. sq_connection q = sq_connection q0 \<Longrightarrow> keeps (frame_at q0 s0) (g (k q))) \<Longrightarrow> keeps (frame_at q0 s0) (bind_m (get_q k) g)"
  "(\<And>q. same_key q (u q)) \<Longrightarrow> keeps (frame_at q0 s0) (upd_q u)"
  by (auto intro: keeps_with_lock simp: frame_at_def)
    (auto simp: keeps_def wlp_basic wlp_get_m get_q_def upd_q_def wlp_upd_m frame_at_def same_key_def)

lemma frame_calls:
  "keeps (frame_at q0 s0) (ClearResult x)" "keeps (frame_at q0 s0) (world_m (PQclear_m x))" "keeps (frame_at q0 s0) (world_m (get_m k))"
  "keeps (frame_at q0 s0) (world_m (IsCancelled_m L))" "keeps (frame_at q0 s0) (world_m (Write_m L chunk))"
  "sq_connection q0 = Some c \<Longrightarrow> keeps (frame_at q0 s0) (Exec L c sql)"
  "sq_connection q0 = Some c \<Longrightarrow> keeps (frame_at q0 s0) (ExecParams L c sql ps fmt)"
  by (auto simp: keeps_def stream_calls wlp_execs wp_simps wlp_basic wlp_get_m Let_def split: option.split intro!: frame_at_event)

lemma frame_NextCursorName: "keeps (frame_at q0 s0) NextCursorName"
  by (auto simp: keeps_def NextCursorName_def wp_simps wlp_basic wlp_get_m wlp_upd_m frame_at_def)

lemmas frame_rules = frame_stream keeps_control keeps_bind frame_calls frame_NextCursorName

lemma frame_methods:
  "keeps (frame_at q0 s0) (EndTransaction L commit err)" "keeps (frame_at q0 s0) (CloseCursor L err)"
  "keeps (frame_at q0 s0) (FetchCursor L err)"
  unfolding EndTransaction_def CloseCursor_def FetchCursor_def
  by (rule frame_stream(2); cases "sq_connection q0"; auto simp: Let_def intro!: frame_rules)+

lemma frame_clear_immediate: "keeps (frame_at q0 s0) clear_immediate"
  unfolding clear_immediate_def by (auto intro!: frame_rules)

lemma frame_open_methods:
  assumes "sq_connection q0 = Some c"
  shows "keeps (frame_at q0 s0) (BeginIfNeeded L err)" "keeps (frame_at q0 s0) (DeclareCursor L request err)"
    "keeps (frame_at q0 s0) (ExecuteImmediate L request err)"
  unfolding BeginIfNeeded_def DeclareCursor_def ExecuteImmediate_def
  using assms by (auto simp: Let_def intro!: frame_rules frame_methods)

lemma frame_Fetch: "keeps (frame_at q0 s0) (Fetch L err)"
  unfolding Fetch_def by (auto intro!: frame_rules frame_methods)

lemma frame_inv:
  assumes "shard_inv (add_mset q M) s" "frame_at q s (q', s')" "accounts (pointers M + ptr (sq_connection q')) s'"
  shows "shard_inv (add_mset q' M) s'"
proof -
  have "lent (add_mset q' M) s' = lent (add_mset q M) s" "pinned (add_mset q' M) s' = pinned (add_mset q M) s"
    using assms(2) by (simp_all add: frame_at_def lent_def pinned_def same_key_cong)
  moreover have "sq_pooled q' \<longrightarrow> \<not> sq_use_session q'" using assms(1,2) by (simp add: shard_inv_def frame_at_def same_key_def)
  ultimately show ?thesis using assms(1,3) by (simp add: shard_inv_def)
qed

lemma sound_steady:
  fixes m :: "('w, 'b) sq_proc"
  assumes "settled q" "\<And>M. keeps (stream_at M (sq_connection q)) m" "\<And>s. keeps (frame_at q s) m"
  shows "act_sound (\<lambda>_. same_key q) q (atomic m)"
proof (rule sound_atomic)
  fix M and s :: "'w stream_world_scheme"
  assume inv: "shard_inv (add_mset q M) s"
  then have "stream_at (pointers M) (sq_connection q) (q, s)" by (simp add: shard_inv_def stream_at_def)
  from keepsD [OF assms(2) this] have acc: "wlp m (\<lambda>_. stream_at (pointers M) (sq_connection q)) (q, s)" .
  have "frame_at q s (q, s)" by (simp add: frame_at_def)
  from keepsD [OF assms(3) this] have "wlp m (\<lambda>_. frame_at q s) (q, s)" .
  with acc show "wlp m (\<lambda>a p'. shard_inv (add_mset (fst p') M) (snd p') \<and> own_calls (q, s) p' \<and> same_key q (fst p')) (q, s)"
    unfolding wlp_iff
  proof (intro allI impI, goal_cases)
    case (1 a p')
    obtain q' s' where p': "p' = (q', s')" by (cases p')
    from 1 have fr: "frame_at q s (q', s')" and "accounts (pointers M + ptr (sq_connection q')) s'" by (auto simp: p' stream_at_def)
    from frame_inv [OF inv this] show ?case using fr assms(1) by (auto simp: p' frame_at_def own_calls_def settled_def)
  qed
qed

section \<open>Actions that open connections or move pointers\<close>

text \<open>Statements only on connections that are new.\<close>

definition fresh_calls :: "'a pg_world_scheme \<Rightarrow> 'a pg_world_scheme \<Rightarrow> bool" where
  "fresh_calls s0 s \<longleftrightarrow> next_conn s0 \<le> next_conn s \<and>
     (\<exists>es. history s = es @ history s0 \<and> (\<forall>e \<in> set es. \<forall>c. exec_on e = Some c \<longrightarrow> next_conn s0 \<le> c))"

lemma fresh_calls_simps [simp]:
  "fresh_calls s s" "fresh_calls s0 (s\<lparr>refs := r\<rparr>) = fresh_calls s0 s" "fresh_calls s0 (s\<lparr>held := H\<rparr>) = fresh_calls s0 s"
  by (simp_all add: fresh_calls_def)

lemma fresh_calls_event:
  "fresh_calls s0 s \<Longrightarrow> (\<And>c. exec_on e = Some c \<Longrightarrow> next_conn s0 \<le> c) \<Longrightarrow> fresh_calls s0 (s\<lparr>history := e # history s\<rparr>)"
  by (auto simp: fresh_calls_def intro: exI [of _ "e # es" for es])

lemma fresh_Connect: "keeps (fresh_calls s0) (PqConnection_Connect L params err ms)"
proof -
  have "wp (PqConnection_Connect L params err ms) (\<lambda>_ t. next_conn s \<le> next_conn t \<and>
      (\<exists>es. history t = es @ history s \<and> (\<forall>e \<in> set es. \<forall>c. exec_on e = Some c \<longrightarrow> next_conn s \<le> c))) s" for s
    unfolding PqConnection_Connect_def
    by (auto simp: wp_simps wp_ApplyStatementTimeout result_status_def Let_def split: option.splits)
  then show ?thesis
    unfolding keeps_def fresh_calls_def
    by (intro allI impI) (rule wlp_mono [OF wp_imp_wlp], assumption, fastforce)
qed

lemma fresh_refs: "keeps (fresh_calls s0) (upd_m (\<lambda>s. s\<lparr>refs := f (refs s)\<rparr>))" "keeps (fresh_calls s0) (PQfinish_m c)"
  by (auto simp: keeps_def PQfinish_m_def record_event_def wlp_upd_m intro!: fresh_calls_event)

lemma fresh_steps:
  "keeps (fresh_calls s0) (share_drop c)" "keeps (fresh_calls s0) (share_new c)" "keeps (fresh_calls s0) (share_copy c)"
  unfolding share_drop_def share_new_def share_copy_def by (intro keeps_control keeps_bind fresh_refs)+

lemma fresh_containers:
  "keeps (fresh_calls s0) (upd_pool f)" "keeps (fresh_calls s0) notify_pool" "keeps (fresh_calls s0') (upd_sessions g)"
  by (auto simp: keeps_def upd_pool_def notify_pool_def upd_sessions_def wlp_upd_m fresh_calls_def)

lemmas fresh_rules = keeps_control keeps_bind fresh_Connect fresh_steps fresh_containers

lemma fresh_pool:
  "keeps (fresh_calls s0) Acquire_enter" "keeps (fresh_calls s0) (Acquire_create L)" "keeps (fresh_calls s0) (Release L r b)"
  "keeps (fresh_calls s0) (Pool_Connect L err)" "keeps (fresh_calls s0) (Configure params n)"
proof -
  show "keeps (fresh_calls s0) Acquire_enter"
    by (auto simp: keeps_def Acquire_enter_def wlp_def Let_def fresh_calls_def split: list.split)
qed (auto simp: Acquire_create_def CreateConnection_def Release_def Pool_Connect_def Configure_def intro!: fresh_rules)

lemma fresh_GetOrCreate: "keeps (fresh_calls s0) (GetOrCreate L session_id params err)"
  unfolding GetOrCreate_def open_session_def by (intro fresh_rules)

text \<open>The pool's and the store's connections have numbers below the next one.\<close>

lemma inv_bound:
  assumes "shard_inv M s" "c \<in># lent M s + pinned M s"
  shows "c < next_conn s"
proof -
  have "lease q \<subseteq># ptr (sq_connection q)" "session_use q \<subseteq># ptr (sq_connection q)" for q
    by (simp_all add: lease_def session_use_def)
  then have "set_mset (lease q) \<subseteq> set_mset (ptr (sq_connection q))" "set_mset (session_use q) \<subseteq> set_mset (ptr (sq_connection q))" for q
    by (simp_all add: set_mset_mono)
  then have "c \<in># pointers M + owners s" using assms(2) by (fastforce simp: lent_def pinned_def pointers_def owners_def)
  then show ?thesis using assms(1) accountsD(3) by (auto simp: shard_inv_def)
qed

lemma inv_step:
  assumes inv: "shard_inv (add_mset q M) s" and acc: "accounts (pointers M + ptr (sq_connection q')) s'"
    and lent: "lent (add_mset q' M) s' \<subseteq># lent (add_mset q M) s + F"
    and pinned: "set_mset (pinned (add_mset q' M) s') \<subseteq> set_mset (pinned (add_mset q M) s) \<union> N"
    and new: "\<And>c. count F c \<le> 1" "\<And>c. c \<in># F \<Longrightarrow> next_conn s \<le> c" "\<And>c. c \<in> N \<Longrightarrow> next_conn s \<le> c" "set_mset F \<inter> N = {}"
    and kind: "sq_pooled q' \<longrightarrow> \<not> sq_use_session q'"
  shows "shard_inv (add_mset q' M) s'"
proof -
  let ?X = "lent (add_mset q M) s" and ?Y = "pinned (add_mset q M) s"
  have apart: "\<And>c. count ?X c \<le> 1" "set_mset ?X \<inter> set_mset ?Y = {}" using inv by (auto simp: shard_inv_def apart_def)
  have old: "c < next_conn s" if "c \<in># ?X \<or> c \<in># ?Y" for c using inv_bound [OF inv] that by (auto simp del: mset_simps)
  have "count ?X c = 0" if "c \<in># F" for c using old [of c] new(2) [OF that] by (meson leD not_in_iff)
  then have "count (?X + F) c \<le> 1" for c
    using apart(1) [of c] new(1) [of c] by (cases "c \<in># F") (simp_all add: not_in_iff del: mset_simps)
  then have "count (lent (add_mset q' M) s') c \<le> 1" for c using mset_subset_eq_count [OF lent, of c] le_trans by blast
  moreover have "set_mset (?X + F) \<inter> (set_mset ?Y \<union> N) = {}"
    using apart(2) old new(2,3,4) by (fastforce simp del: mset_simps)
  then have "set_mset (lent (add_mset q' M) s') \<inter> set_mset (pinned (add_mset q' M) s') = {}"
    using pinned set_mset_mono [OF lent] by blast
  ultimately show ?thesis using inv acc kind by (simp add: shard_inv_def apart_def)
qed

lemma own_calls_fresh: "fresh_calls s s' \<Longrightarrow> own_calls (q, s) (q', s')"
  by (auto simp: fresh_calls_def own_calls_def)

lemma wlp_fresh: "keeps (fresh_calls s) m \<Longrightarrow> wlp m (\<lambda>_. fresh_calls s) s"
  by (simp add: keepsD)

lemma invD: "shard_inv (add_mset q M) s \<Longrightarrow> accounts (pointers M + ptr (sq_connection q)) s"
  by (simp add: shard_inv_def)

text \<open>The first section of \<open>Acquire\<close>: an idle connection becomes a lease.\<close>

lemma sound_enter_pool:
  assumes "sq_connection q = None" "\<not> sq_pooled q"
  shows "act_sound (\<lambda>r q'. case r of None \<Rightarrow> sq_connection q' = None \<and> \<not> sq_pooled q' \<and> \<not> sq_use_session q'
      | Some x \<Rightarrow> settled q' \<and> (fst x \<longrightarrow> sq_connection q' \<noteq> None)) q (atomic (enter_pool err))"
proof (rule sound_atomic)
  fix M and s :: "'a stream_world_scheme"
  assume inv: "shard_inv (add_mset q M) s"
  have "accounts (pointers M) s" using invD [OF inv] assms by simp
  note acc = wlpD [OF Acquire_enter_accounts [OF this]] and fresh = wlpD [OF wlp_fresh [OF fresh_pool(1)]]
  show "wlp (enter_pool err) (\<lambda>r p'. shard_inv (add_mset (fst p') M) (snd p') \<and> own_calls (q, s) p' \<and>
      (case r of None \<Rightarrow> sq_connection (fst p') = None \<and> \<not> sq_pooled (fst p') \<and> \<not> sq_use_session (fst p')
       | Some x \<Rightarrow> settled (fst p') \<and> (fst x \<longrightarrow> sq_connection (fst p') \<noteq> None))) (q, s)"
  proof (cases rule: Acquire_enter_cases [of s])
    case (idle c cs)
    let ?q = "q\<lparr>sq_use_session := False, sq_connection := Some c, sq_pooled := True\<rparr>"
    have "shard_inv (add_mset ?q M) (s\<lparr>pool := (pool s)\<lparr>cm_idle := cs, cm_in_use := cm_in_use (pool s) + 1\<rparr>\<rparr>)"
      by (rule inv_step [OF inv, where F = "{#}" and N = "{}"])
        (use acc [OF idle(2)] idle(1) assms in \<open>auto simp: lent_def pinned_def lease_def session_use_def\<close>)
    with own_calls_fresh [OF fresh [OF idle(2)]] show ?thesis
      by (simp add: enter_pool_def keep_lease_def wlp_def bind_m_def upd_q_def world_m_def idle(2) settled_def holding_def)
  next
    case reserve
    let ?q = "q\<lparr>sq_use_session := False\<rparr>"
    have "shard_inv (add_mset ?q M) (s\<lparr>pool := (pool s)\<lparr>cm_in_use := cm_in_use (pool s) + 1\<rparr>\<rparr>)"
      by (rule inv_step [OF inv, where F = "{#}" and N = "{}"])
        (use acc [OF reserve(3)] assms in \<open>auto simp: lent_def pinned_def lease_def session_use_def\<close>)
    with own_calls_fresh [OF fresh [OF reserve(3)]] assms show ?thesis
      by (simp add: enter_pool_def wlp_def bind_m_def upd_q_def world_m_def reserve(3))
  qed (simp add: enter_pool_def wlp_def bind_m_def upd_q_def world_m_def)
qed

text \<open>The second: a new connection is a lease from the start.\<close>

lemma sound_create_lease:
  assumes "sq_connection q = None" "\<not> sq_pooled q" "\<not> sq_use_session q"
  shows "act_sound (\<lambda>r q'. settled q' \<and> (fst r \<longrightarrow> sq_connection q' \<noteq> None)) q (atomic (create_lease L err))"
proof (rule sound_atomic)
  fix M and s :: "'a stream_world_scheme"
  assume inv: "shard_inv (add_mset q M) s"
  have "accounts (pointers M) s" using invD [OF inv] assms by simp
  note acc = wlpD [OF Acquire_create_accounts [OF this]] and fresh = wlpD [OF wlp_fresh [OF fresh_pool(2)]]
  show "wlp (create_lease L err) (\<lambda>r p'. shard_inv (add_mset (fst p') M) (snd p') \<and> own_calls (q, s) p' \<and>
      settled (fst p') \<and> (fst r \<longrightarrow> sq_connection (fst p') \<noteq> None)) (q, s)"
  proof (cases rule: Acquire_create_cases [of s L])
    case (created c t)
    have c: "c = next_conn s" using created(1) by (auto elim: connect_effect_frame)
    have "shard_inv (add_mset (q\<lparr>sq_connection := Some c, sq_pooled := True\<rparr>) M) (t\<lparr>refs := (refs t)(c := 1)\<rparr>)"
      by (rule inv_step [OF inv, where F = "{#c#}" and N = "{}"])
        (use acc [OF created(2)] c assms connect_effect_pool [OF created(1)] connect_effect_store [OF created(1)] in
          \<open>auto simp: lent_def pinned_def lease_def session_use_def\<close>)
    with own_calls_fresh [OF fresh [OF created(2)]] show ?thesis
      by (simp add: create_lease_def keep_lease_def wlp_def bind_m_def upd_q_def world_m_def created(2) settled_def holding_def)
  next
    case (failed t)
    have "shard_inv (add_mset (q\<lparr>sq_connection := None\<rparr>) M) 
        (t\<lparr>pool := (pool s)\<lparr>cm_in_use := cm_in_use (pool s) - 1\<rparr>, pool_cv := notify_one (pool_cv t)\<rparr>)"
      by (rule inv_step [OF inv, where F = "{#}" and N = "{}"])
        (use acc [OF failed(2)] assms connect_effect_store [OF failed(1)] in \<open>auto simp: lent_def pinned_def lease_def session_use_def\<close>)
    with own_calls_fresh [OF fresh [OF failed(2)]] show ?thesis
      by (simp add: create_lease_def keep_lease_def wlp_def bind_m_def upd_q_def world_m_def failed(2) settled_def)
  qed
qed

text \<open>A session's connection: one of the store's, or a new one.\<close>

definition store_step :: "conn option \<Rightarrow> 'a store_world_scheme \<Rightarrow> 'a store_world_scheme \<Rightarrow> bool" where
  "store_step r s t \<longleftrightarrow> pool t = pool s \<and>
     set_option r \<union> snd ` set (ss_sessions (session_store t)) \<subseteq> snd ` set (ss_sessions (session_store s)) \<union> {next_conn s..}"

lemma set_update_values: "snd ` set (AList.update k v al) \<subseteq> insert v (snd ` set al)"
  by (induction al) auto

lemma open_session_step: "wlp (open_session L session_id params err) (\<lambda>x. store_step (fst x) s) s"
proof -
  obtain r e t where run: "PqConnection_Connect L params (Some []) 0 s = Inr ((r, e), t)" and eff: "connect_effect s t r"
    by (rule PqConnection_Connect_runs)
  note same = connect_effect_pool [OF eff] connect_effect_store [OF eff]
  have new: "c = next_conn s" if "r = Some c" for c using eff that by (auto elim: connect_effect_frame)
  have run': "wlp (PqConnection_Connect L params (Some []) 0) Q s = Q (r, e) t" for Q by (simp add: wlp_def run)
  show ?thesis
    using same new set_update_values [of session_id "next_conn s" "ss_sessions (session_store s)"]
    by (cases r)
      (auto simp: open_session_def wlp_basic wlp_get_m wlp_upd_m run' store_step_def share_new_def share_copy_def upd_sessions_def)
qed

lemma GetOrCreate_step: "wlp (GetOrCreate L session_id params err) (\<lambda>x. store_step (fst x) s) s"
proof -
  have same: "store_step None s s" by (simp add: store_step_def)
  have drop: "wlp (share_drop c) Q t = Q () (t\<lparr>refs := (refs t)(c := refs t c - 1), history := (if refs t c = 1 then [EvFinish c] else []) @ history t\<rparr>)"
    for c Q and t :: "'a store_world_scheme"
    by (simp add: share_drop_def wlp_basic wlp_get_m wlp_upd_m PQfinish_m_def record_event_def)
  have mono: "store_step r s t" if "store_step r u t" "pool u = pool s" "next_conn u = next_conn s"
      "snd ` set (ss_sessions (session_store u)) \<subseteq> snd ` set (ss_sessions (session_store s))" for r t and u :: "'a store_world_scheme"
    using that unfolding store_step_def by simp blast
  show ?thesis
  proof (cases "map_of (ss_sessions (session_store s)) session_id")
    case None
    then show ?thesis using open_session_step [of L session_id params err s]
      by (auto simp: GetOrCreate_def wlp_basic wlp_get_m store_step_def)
  next
    case (Some c)
    have "c \<in> snd ` set (ss_sessions (session_store s))" using imageI [OF map_of_SomeD [OF Some], of snd] by simp
    with Some show ?thesis
      by (auto simp: GetOrCreate_def wlp_basic wlp_get_m share_copy_def wlp_upd_m upd_sessions_def drop store_step_def [of _ s "_\<lparr>refs := _\<rparr>"]
          intro!: same wlp_mono [OF open_session_step] elim!: mono simp: AList.delete_eq)
  qed
qed

lemma sound_acquire_session:
  assumes "sq_connection q = None" "\<not> sq_pooled q" "qr_session_id request \<noteq> []"
  shows "act_sound (\<lambda>r q'. settled q' \<and> (fst r \<longrightarrow> sq_connection q' \<noteq> None)) q (atomic (AcquireConnection L request err))"
proof (rule sound_atomic)
  fix M and s :: "'a stream_world_scheme"
  assume inv: "shard_inv (add_mset q M) s"
  have base: "accounts (pointers M) s" using invD [OF inv] assms by simp
  let ?create = "GetOrCreate L (qr_session_id request) (sq_session_defaults q) err"
  have "wlp ?create (\<lambda>x t. store_step (fst x) s t \<and> accounts (pointers M + ptr (fst x)) t \<and> fresh_calls s t) s"
    using GetOrCreate_step [of L "qr_session_id request" "sq_session_defaults q" err s] GetOrCreate_accounts [OF base] wlp_fresh [OF fresh_GetOrCreate]
    unfolding wlp_iff by fastforce
  moreover have "shard_inv (add_mset q' M) t \<and> own_calls (q, s) (q', t)"
    if t: "store_step r s t" "accounts (pointers M + ptr r) t" "fresh_calls s t" and q': "sq_connection q' = r" "\<not> sq_pooled q'" for r t q'
  proof
    show "shard_inv (add_mset q' M) t"
    proof (rule inv_step [OF inv, where F = "{#}" and N = "{next_conn s..}"])
      show "lent (add_mset q' M) t \<subseteq># lent (add_mset q M) s + {#}" using t(1) q' assms by (simp add: lent_def lease_def store_step_def)
      show "set_mset (pinned (add_mset q' M) t) \<subseteq> set_mset (pinned (add_mset q M) s) \<union> {next_conn s..}"
        using t(1) q' by (cases r) (auto simp: pinned_def session_use_def store_step_def)
    qed (use t q' in auto)
    show "own_calls (q, s) (q', t)" using t(3) by (rule own_calls_fresh)
  qed
  ultimately show "wlp (AcquireConnection L request err) (\<lambda>r p'. shard_inv (add_mset (fst p') M) (snd p') \<and> own_calls (q, s) p' \<and>
      settled (fst p') \<and> (fst r \<longrightarrow> sq_connection (fst p') \<noteq> None)) (q, s)"
    using assms
    by (auto simp: AcquireConnection_def wlp_basic get_q_def upd_q_def wlp_get_m wlp_upd_m wp_world_m settled_def holding_def elim!: wlp_mono)
qed

text \<open>The pointers a stream gives up.\<close>

lemma sound_give_lease:
  assumes "settled q"
  shows "act_sound (\<lambda>r q'. r = sq_connection q' \<and> \<not> (r \<noteq> None \<and> sq_pooled q')) q (atomic (give_lease L broken))"
proof (rule sound_atomic)
  fix M and s :: "'a stream_world_scheme"
  assume inv: "shard_inv (add_mset q M) s"
  show "wlp (give_lease L broken) (\<lambda>r p'. shard_inv (add_mset (fst p') M) (snd p') \<and> own_calls (q, s) p' \<and>
      r = sq_connection (fst p') \<and> \<not> (r \<noteq> None \<and> sq_pooled (fst p'))) (q, s)"
  proof (cases "\<exists>c. sq_connection q = Some c \<and> sq_pooled q")
    case False
    have "own_calls (q, s) (q', s)" for q' by (rule own_calls_fresh) simp
    moreover have "shard_inv (add_mset (q\<lparr>sq_pooled := False\<rparr>) M) s"
      by (rule inv_step [OF inv, where F = "{#}" and N = "{}"])
        (use invD [OF inv] False in \<open>auto simp: lent_def pinned_def lease_def session_use_def\<close>)
    ultimately show ?thesis using False inv
      by (auto simp: give_lease_def wlp_basic get_q_def upd_q_def wlp_get_m wlp_upd_m split: option.split)
  next
    case True
    then obtain c where q: "sq_connection q = Some c" "sq_pooled q" by blast
    let ?s = "s\<lparr>refs := (refs s)(c := Suc (refs s c))\<rparr>"
    let ?b = "broken \<or> \<not> IsHealthy L (history s) c"
    have copied: "accounts (add_mset c (add_mset c (pointers M))) ?s"
      by (rule accounts_copy) (use invD [OF inv] q in simp_all)
    have "wp (Release L (Some c) ?b) (\<lambda>_ t. session_store t = session_store ?s \<and>
        mset (cm_idle (pool t)) \<subseteq># add_mset c (mset (cm_idle (pool ?s)))) ?s"
      by (auto simp: Release_def wp_simps upd_pool_def)
    with Release_accounts [OF copied, of L ?b] have "wlp (Release L (Some c) ?b) (\<lambda>_ t. accounts (add_mset c (pointers M)) t \<and>
        session_store t = session_store s \<and> mset (cm_idle (pool t)) \<subseteq># add_mset c (mset (cm_idle (pool s))) \<and> fresh_calls s t) ?s"
      using keepsD [OF fresh_pool(3), of s ?s L "Some c" ?b] by (auto simp: wp_iff wlp_iff)
    moreover have "shard_inv (add_mset (q\<lparr>sq_pooled := False\<rparr>) M) t"
      if "accounts (add_mset c (pointers M)) t" "session_store t = session_store s" "mset (cm_idle (pool t)) \<subseteq># add_mset c (mset (cm_idle (pool s)))" for t
      by (rule inv_step [OF inv, where F = "{#}" and N = "{}"])
        (use that q in \<open>auto simp: lent_def pinned_def lease_def session_use_def\<close>)
    ultimately show ?thesis
      by (auto simp: give_lease_def wlp_basic get_q_def upd_q_def wlp_get_m wlp_upd_m wp_world_m share_copy_def q intro: own_calls_fresh elim!: wlp_mono)
  qed
qed

lemma share_drop_step:
  assumes "accounts (add_mset c M) s"
  shows "wlp (share_drop c) (\<lambda>_ t. accounts M t \<and> pool t = pool s \<and> session_store t = session_store s \<and> fresh_calls s t) s"
proof -
  have "wlp (share_drop c) (\<lambda>_ t. pool t = pool s \<and> session_store t = session_store s) s"
    by (simp add: share_drop_def wlp_basic wlp_get_m wlp_upd_m PQfinish_m_def record_event_def)
  with wp_imp_wlp [OF share_drop_accounts [OF assms]] wlp_fresh [where s = s, OF fresh_steps(1) [of s c]] show ?thesis unfolding wlp_iff by blast
qed

lemma sound_reset:
  assumes "sq_connection q = Some c" "\<not> sq_pooled q"
  shows "act_sound (\<lambda>_ q'. sq_connection q' = None) q (atomic (reset_connection c))"
proof (rule sound_atomic)
  fix M and s :: "'a stream_world_scheme"
  assume inv: "shard_inv (add_mset q M) s"
  have "shard_inv (add_mset (q\<lparr>sq_connection := None\<rparr>) M) t" if "accounts (pointers M) t" "pool t = pool s" "session_store t = session_store s" for t
    by (rule inv_step [OF inv, where F = "{#}" and N = "{}"])
      (use that assms in \<open>auto simp: lent_def pinned_def lease_def session_use_def\<close>)
  then show "wlp (reset_connection c) (\<lambda>_ p'. shard_inv (add_mset (fst p') M) (snd p') \<and> own_calls (q, s) p' \<and> sq_connection (fst p') = None) (q, s)"
    using share_drop_step [of c "pointers M" s] invD [OF inv] assms
    by (auto simp: reset_connection_def wlp_basic upd_q_def wlp_upd_m wp_world_m intro: own_calls_fresh elim!: wlp_mono)
qed

lemma no_stream_simps [simp]:
  "sq_connection no_stream = None" "\<not> sq_pooled no_stream" "\<not> sq_use_session no_stream" "lease no_stream = {#}" "session_use no_stream = {#}"
  "settled no_stream"
  by (simp_all add: no_stream_def StreamingQuery_init_def lease_def session_use_def settled_def)

lemma sound_destroy_t: "act_sound (\<lambda>_ q'. q' = no_stream) q destroy_t"
  unfolding destroy_t_def
proof (rule sound_atomic)
  fix M and s :: "'a stream_world_scheme"
  assume inv: "shard_inv (add_mset q M) s"
  have gone: "shard_inv (add_mset no_stream M) t" if "accounts (pointers M) t" "pool t = pool s" "session_store t = session_store s" for t
    by (rule inv_step [OF inv, where F = "{#}" and N = "{}"]) (use that in \<open>auto simp: lent_def pinned_def\<close>)
  show "wlp (bind_m destroy_stream (\<lambda>_. upd_q (\<lambda>_. no_stream))) (\<lambda>_ p'. shard_inv (add_mset (fst p') M) (snd p') \<and> own_calls (q, s) p' \<and> fst p' = no_stream) (q, s)"
  proof (cases "sq_connection q")
    case None
    then show ?thesis
      using gone [of s] invD [OF inv] own_calls_fresh [of s s]
      by (simp add: destroy_stream_def wlp_basic get_q_def upd_q_def wlp_get_m wlp_upd_m)
  next
    case (Some c)
    then show ?thesis
      using share_drop_step [of c "pointers M" s] invD [OF inv] gone
      by (auto simp: destroy_stream_def wlp_basic get_q_def upd_q_def wlp_get_m wlp_upd_m wp_world_m intro: own_calls_fresh elim!: wlp_mono)
  qed
qed

section \<open>Methods\<close>

lemma sound_AcquireConnection_t:
  assumes "sq_connection q = None" "\<not> sq_pooled q"
  shows "act_sound (\<lambda>r q'. settled q' \<and> (fst r \<longrightarrow> sq_connection q' \<noteq> None)) q (AcquireConnection_t L request err)"
proof (cases "qr_session_id request = []")
  case True
  then show ?thesis
    unfolding AcquireConnection_t_def
    by (auto intro!: sound_bind [OF sound_enter_pool [OF assms]] sound_create_lease simp del: not_None_eq split: option.splits)
next
  case False
  with sound_acquire_session [OF assms] show ?thesis by (simp add: AcquireConnection_t_def)
qed

lemma sound_ReleaseConnection_t: "settled q \<Longrightarrow> act_sound (\<lambda>_ q'. sq_connection q' = None) q (ReleaseConnection_t L broken)"
  unfolding ReleaseConnection_t_def
  by (rule sound_bind, erule sound_give_lease) (auto intro!: sound_reset split: option.split)

text \<open>A thread that is sound wherever its stream is settled, and leaves it so.\<close>

definition calm :: "(StreamingQuery \<times> 'w stream_world_scheme, 'b) prog \<Rightarrow> bool" where
  "calm p \<longleftrightarrow> (\<forall>q. settled q \<longrightarrow> act_sound (\<lambda>_. settled) q p)"

lemma calmD: "calm p \<Longrightarrow> settled q \<Longrightarrow> act_sound (\<lambda>_. settled) q p"
  by (simp add: calm_def)

lemma calm_control:
  "calm (Ret a)" "calm (Act (\<lambda>_. Inl b))" "calm p \<Longrightarrow> (\<And>x. calm (k x)) \<Longrightarrow> calm (bind_t p k)"
  "(t \<Longrightarrow> calm p1) \<Longrightarrow> (\<not> t \<Longrightarrow> calm p2) \<Longrightarrow> calm (if t then p1 else p2)"
  "calm p0 \<Longrightarrow> (\<And>x. calm (p3 x)) \<Longrightarrow> calm (case v of None \<Rightarrow> p0 | Some x \<Rightarrow> p3 x)"
  "(\<And>x y. calm (p4 x y)) \<Longrightarrow> calm (case z of (x, y) \<Rightarrow> p4 x y)"
  by (auto simp: calm_def intro: sound_blocked sound_bind split: option.split prod.split)

lemma calm_cxx:
  "(\<And>e. calm (fl e)) \<Longrightarrow> (\<And>x. calm (fr x)) \<Longrightarrow> calm (case w of Inl e \<Rightarrow> fl e | Inr x \<Rightarrow> fr x)"
  "(\<And>m. calm (k1 m)) \<Longrightarrow> calm k2 \<Longrightarrow> calm (case e of RuntimeError m \<Rightarrow> k1 m | SignedOverflow \<Rightarrow> k2)"
  "(\<And>st. calm (r st)) \<Longrightarrow> (\<And>m l. calm (t m l)) \<Longrightarrow> (\<And>l. calm (n l)) \<Longrightarrow>
     calm (case f of Return st \<Rightarrow> r st | Throw m l \<Rightarrow> t m l | Next l \<Rightarrow> n l)"
  by (auto split: sum.split cxx_error.split flow.split)

lemma calm_steady: "(\<And>M r. keeps (stream_at M r) m) \<Longrightarrow> (\<And>q s. keeps (frame_at q s) m) \<Longrightarrow> calm (atomic m)"
  unfolding calm_def by (intro allI impI sound_mono [OF sound_steady]) (auto simp: same_key_cong)

lemma calm_None: "(\<And>q. settled q \<Longrightarrow> act_sound (\<lambda>_ q'. sq_connection q' = None) q p) \<Longrightarrow> calm p"
  unfolding calm_def by (intro allI impI) (rule sound_mono, assumption, simp add: settled_def)

lemma calm_ReleaseConnection_t: "calm (ReleaseConnection_t L broken)"
  by (rule calm_None) (rule sound_ReleaseConnection_t)

lemma calm_calls:
  "calm (atomic (EndTransaction L commit err))" "calm (atomic (CloseCursor L err))" "calm (atomic (Fetch L err))" "calm (atomic clear_immediate)"
  "calm (atomic (world_m (PQclear_m x)))" "calm (atomic (world_m (IsCancelled_m L)))"
  by (intro calm_steady keeps_EndTransaction keeps_CloseCursor keeps_Fetch keeps_clear_immediate keeps_calls frame_methods frame_Fetch
      frame_clear_immediate frame_calls)+

lemma calm_chunks: "calm (atomic (WriteResultChunk L kind meta payload))" "calm (atomic (WriteErrorChunk L G e))"
  unfolding WriteResultChunk_def WriteErrorChunk_def Let_def
  by (intro calm_steady keeps_control keeps_bind keeps_calls frame_calls)+

lemma calm_get: "calm (atomic (get_m fst))" "calm (atomic (get_q f))"
  by (intro calm_steady keeps_control keeps_get_q)+

lemma calm_upd: "(\<And>q. same_key q (u q)) \<Longrightarrow> calm (atomic (upd_q u))"
  by (intro calm_steady keeps_stream frame_stream) (simp_all add: same_key_def)

lemmas calm_rules = calm_control calm_cxx calm_calls calm_chunks calm_get calm_ReleaseConnection_t

lemma calm_ends: "calm (Close_t L err)" "calm (Abort_t L)"
  unfolding Close_t_def Abort_t_def by (intro calm_rules)+

lemma sound_open_methods:
  assumes "settled q" "sq_connection q \<noteq> None"
  shows "act_sound (\<lambda>_. settled) q (OpenCursor_t L request err)" "act_sound (\<lambda>_. settled) q (OpenImmediate_t L request err)"
proof -
  obtain c where c: "sq_connection q = Some c" using assms(2) by blast
  have steady: "act_sound (\<lambda>_. same_key q) q (atomic (BeginIfNeeded L err))" "act_sound (\<lambda>_. same_key q) q (atomic (ExecuteImmediate L request err))"
    by (rule sound_steady [OF assms(1)]; auto simp: c intro: keeps_open_methods frame_open_methods [OF c])+
  have decl: "act_sound (\<lambda>_. settled) q' (atomic (DeclareCursor L request e))" if "same_key q q'" for q' e
  proof -
    have c': "sq_connection q' = Some c" and "settled q'" using that assms(1) c by (simp_all add: same_key_cong)
    from this(2) have "act_sound (\<lambda>_. same_key q') q' (atomic (DeclareCursor L request e))"
      by (rule sound_steady; auto simp: c' intro: keeps_open_methods frame_open_methods [OF c'])
    then show ?thesis by (rule sound_mono) (use \<open>settled q'\<close> in \<open>simp add: same_key_cong\<close>)
  qed
  have same: "settled q'" if "same_key q q'" for q' using that assms(1) by (simp add: same_key_cong)
  show "act_sound (\<lambda>_. settled) q (OpenCursor_t L request err)"
    unfolding OpenCursor_t_def by (rule sound_bind [OF steady(1)]) (auto split: prod.split intro: decl same)
  have rest: "calm (bind_t (atomic (upd_q (\<lambda>q. q\<lparr>sq_immediate_result := result\<rparr>))) (\<lambda>_.
      if result = None then bind_t (ReleaseConnection_t L True) (\<lambda>_. Ret (False, e))
      else bind_t (atomic (upd_q (\<lambda>q. q\<lparr>sq_immediate_done := False\<rparr>))) (\<lambda>_. Ret (True, e))))" for result e
    by (intro calm_rules calm_upd) simp_all
  show "act_sound (\<lambda>_. settled) q (OpenImmediate_t L request err)"
    unfolding OpenImmediate_t_def
    by (rule sound_bind [OF steady(2)], unfold split_beta) (rule calmD [OF rest], erule same)
qed

lemma sound_Open_t:
  assumes "sq_connection q = None" "\<not> sq_pooled q"
  shows "act_sound (\<lambda>_. settled) q (Open_t L request err)"
proof -
  have start: "act_sound (\<lambda>_ q'. sq_connection q' = None \<and> \<not> sq_pooled q') q
      (atomic (upd_q (\<lambda>q. q\<lparr>sq_request := Some request, sq_use_cursor := IsTupleStreamingSql (qr_text request)\<rparr>)))"
    by (rule sound_mono [OF sound_steady]) (use assms in \<open>auto simp: settled_def same_key_def intro!: keeps_stream frame_stream\<close>)
  have get: "act_sound (\<lambda>_ q'. same_key q q') q (atomic (get_q f))" if "settled q" for q and f :: "StreamingQuery \<Rightarrow> bool"
    by (rule sound_steady [OF that]) (rule keeps_get_q)+
  have "act_sound (\<lambda>_. settled) q (bind_t (atomic (get_q sq_use_cursor)) (\<lambda>use_cursor.
      if use_cursor then OpenCursor_t L request e else OpenImmediate_t L request e))" if "settled q" "sq_connection q \<noteq> None" for q e
    by (rule sound_bind [OF get [OF that(1)]]) (use that in \<open>auto simp: same_key_cong intro!: sound_open_methods\<close>)
  then show ?thesis
    unfolding Open_t_def
    by (intro sound_bind [OF start] sound_bind [OF sound_AcquireConnection_t]) (auto split: prod.split)
qed

section \<open>The tasks\<close>

lemma calm_batches: "calm (cancelled_return_t L)" "calm (SendBatchChunk_t L G schema sent payload)" "calm (send_batch_t L G r b e locals)"
proof -
  show returns: "calm (cancelled_return_t L)" unfolding cancelled_return_t_def by (intro calm_rules calm_ends)
  have chunk: "calm (SendBatchChunk_t L G schema sent payload)" for schema sent payload
    unfolding SendBatchChunk_t_def Let_def by (intro calm_rules)
  then show "calm (SendBatchChunk_t L G schema sent payload)" .
  show "calm (send_batch_t L G r b e locals)" unfolding send_batch_t_def Let_def by (intro calm_rules chunk returns)
qed

lemma calm_send_batches_t: "calm (send_batches_t L G fetch w n b locals)"
proof (induction L G fetch w n b locals rule: send_batches_t.induct)
  case (1 L G fetch w n b locals)
  have "calm (case outcome of Next l \<Rightarrow> (send_batches_t L G fetch w n (b + w) l :: ('a, flow) qs_prog) | _ \<Rightarrow> Ret outcome)"
    if "b < n \<and> 0 < w" "\<not> INT_MAX < b + w" for outcome
    by (cases outcome) (use 1 [OF that refl] in \<open>auto intro: calm_control\<close>)
  then show ?case
    by (subst send_batches_t.simps) (intro calm_control calm_batches; assumption)
qed

lemma calm_stream_loop_t: "calm (stream_loop_t L G w fuel locals)"
proof (induction fuel arbitrary: locals)
  case (Suc fuel)
  have "calm (handle_portion_t L G w fetch l)" for fetch l
    unfolding handle_portion_t_def trailer_only_t_def Let_def by (intro calm_rules calm_ends calm_send_batches_t)
  with Suc show ?case unfolding stream_loop_t.simps Let_def by (intro calm_rules calm_ends)
qed (simp add: calm_control)

lemma calm_stream_rows_t: "calm (stream_rows_t L G w fuel err)"
  unfolding stream_rows_t_def after_loop_t_def send_trailer_t_def finish_stream_t_def
  by (intro calm_rules calm_ends calm_batches calm_stream_loop_t)

lemma sound_run_query_t:
  assumes "sq_connection q = None" "\<not> sq_pooled q"
  shows "act_sound (\<lambda>_. settled) q (run_query_t L G w fuel request)"
proof -
  have rest: "calm (if \<not> ok then bind_t (atomic (WriteErrorChunk L G (PgErrorMeta_init\<lparr>em_message := the e\<rparr>))) (\<lambda>_. Ret Status_OK)
      else stream_rows_t L G w fuel e)" for ok e
    by (intro calm_rules calm_stream_rows_t)
  show ?thesis
    unfolding run_query_t_def
    by (rule sound_bind [OF sound_Open_t [OF assms]], unfold split_beta) (rule calmD [OF rest])
qed

text \<open>A task that works on the world alone.\<close>

definition idle_step :: "'a store_world_scheme \<Rightarrow> 'a store_world_scheme \<Rightarrow> bool" where
  "idle_step s t \<longleftrightarrow> fresh_calls s t \<and> session_store t = session_store s \<and>
     (\<exists>r. mset (cm_idle (pool t)) = mset (cm_idle (pool s)) + ptr r \<and> (\<forall>c. r = Some c \<longrightarrow> next_conn s \<le> c))"

lemma sound_world:
  assumes "\<And>M s. accounts M s \<Longrightarrow> wlp m (\<lambda>_. accounts M) s" "\<And>s. wlp m (\<lambda>_. idle_step s) s"
  shows "act_sound (\<lambda>_ q. q = no_stream) no_stream (atomic (world_m m))"
proof (rule sound_atomic)
  fix M and s :: "'a stream_world_scheme"
  assume inv: "shard_inv (add_mset no_stream M) s"
  have "shard_inv (add_mset no_stream M) t" if acc: "accounts (pointers M) t" and step: "idle_step s t" for t
  proof -
    obtain r where "mset (cm_idle (pool t)) = mset (cm_idle (pool s)) + ptr r" "\<forall>c. r = Some c \<longrightarrow> next_conn s \<le> c"
      using step by (auto simp: idle_step_def)
    with acc step show ?thesis
      by (intro inv_step [OF inv, where F = "ptr r" and N = "{}"]) (auto simp: lent_def pinned_def idle_step_def ptr_def split: option.splits)
  qed
  moreover have "wlp m (\<lambda>_ t. accounts (pointers M) t \<and> idle_step s t \<and> fresh_calls s t) s"
    using assms(1) [of "pointers M" s] assms(2) [of s] invD [OF inv] unfolding wlp_iff idle_step_def by simp
  ultimately show "wlp (world_m m) (\<lambda>_ p'. shard_inv (add_mset (fst p') M) (snd p') \<and> own_calls (no_stream, s) p' \<and> fst p' = no_stream) (no_stream, s)"
    by (auto simp: wp_world_m intro: own_calls_fresh elim!: wlp_mono)
qed

lemma Connect_containers: "wlp (PqConnection_Connect L params err ms) (\<lambda>_ t. pool t = pool s \<and> session_store t = session_store s) s"
proof -
  obtain r e t where "PqConnection_Connect L params err ms s = Inr ((r, e), t)" and eff: "connect_effect s t r"
    by (rule PqConnection_Connect_runs)
  then show ?thesis using connect_effect_pool [OF eff] connect_effect_store [OF eff] by (simp add: wlp_def)
qed

lemma idle_Configure: "wlp (Configure params n) (\<lambda>_. idle_step s) s"
  by (auto simp: Configure_def upd_pool_def wlp_upd_m idle_step_def fresh_calls_def intro: exI [of _ None])

lemma idle_Pool_Connect: "wlp (Pool_Connect L err) (\<lambda>_. idle_step s) s"
proof -
  obtain r e t where run: "PqConnection_Connect L (cm_params (pool s)) (Some []) 0 s = Inr ((r, e), t)" and eff: "connect_effect s t r"
    by (rule PqConnection_Connect_runs)
  have c: "c = next_conn s" if "r = Some c" for c using eff that by (auto elim: connect_effect_frame)
  have run': "wlp (PqConnection_Connect L (cm_params (pool s)) (Some []) 0) Q s = Q (r, e) t" for Q by (simp add: wlp_def run)
  have "wlp (Pool_Connect L err) (\<lambda>_ t. session_store t = session_store s \<and>
      (\<exists>r. mset (cm_idle (pool t)) = mset (cm_idle (pool s)) + ptr r \<and> (\<forall>c. r = Some c \<longrightarrow> next_conn s \<le> c))) s"
    using connect_effect_pool [OF eff] connect_effect_store [OF eff] c
    by (cases r) (auto simp: Pool_Connect_def wlp_basic wlp_get_m wlp_upd_m run' share_new_def upd_pool_def intro: exI [of _ None] exI [of _ r])
  then show ?thesis using wlp_fresh [where s = s, OF fresh_pool(4) [of s L err]] unfolding wlp_iff idle_step_def by blast
qed

text \<open>The monitor opens and closes connections of its own and touches nothing else.\<close>

definition probes :: "'a store_world_scheme \<Rightarrow> 'h \<times> 'a store_world_scheme \<Rightarrow> bool" where
  "probes s0 p \<longleftrightarrow> fresh_calls s0 (snd p) \<and> pool (snd p) = pool s0 \<and> session_store (snd p) = session_store s0"

lemma probes_calls: "keeps (probes s0) (upd_h f)" "keeps (probes s0) (world_m (PQfinish_m c))" "keeps (probes s0) (world_m (PqConnection_Connect L params err ms))"
proof -
  show "keeps (probes s0) (world_m (PqConnection_Connect L params err ms))"
  proof (unfold keeps_def, intro allI impI, goal_cases)
    case p: (1 p)
    have "wlp (PqConnection_Connect L params err ms) (\<lambda>_ t. fresh_calls s0 t \<and> pool t = pool s0 \<and> session_store t = session_store s0) (snd p)"
      using keepsD [OF fresh_Connect, of s0 "snd p" L params err ms] Connect_containers [of L params err ms "snd p"] p
      unfolding wlp_iff probes_def by metis
    then show ?case
      by (cases p) (auto simp: wp_world_m probes_def elim!: wlp_mono)
  qed
qed (auto simp: keeps_def upd_h_def wlp_upd_m probes_def wp_world_m PQfinish_m_def record_event_def intro: fresh_calls_event)

lemma probes_monitor:
  "keeps (probes s0) (SetServing b)" "keeps (probes s0) (ProbeOnce L)" "keeps (probes s0) OnConnectFailure" "keeps (probes s0) (ProbeLoop_body L reads)"
  "keeps (probes s0) (upd_h f)" "keeps (probes s0) (get_m g)" "keeps (probes s0) start_probe"
proof -
  show serving: "keeps (probes s0) (SetServing b)" for b unfolding SetServing_def by (intro keeps_control keeps_bind probes_calls)
  show probe: "keeps (probes s0) (ProbeOnce L)" unfolding ProbeOnce_def by (intro keeps_control keeps_bind probes_calls)
  show "keeps (probes s0) OnConnectFailure" unfolding OnConnectFailure_def by (rule serving)
  have "wlp (pause n reads) (\<lambda>_. probes s0) p" if "probes s0 p" for n p
    using that by (induction n reads rule: pause.induct) (auto simp: wlp_def)
  then have "keeps (probes s0) (pauses n reads)" for n by (auto simp: keeps_def pauses_def wlp_def)
  then show "keeps (probes s0) (ProbeLoop_body L reads)"
    unfolding ProbeLoop_body_def by (intro keeps_control keeps_bind serving probe probes_calls)
qed (simp_all add: start_probe_def keeps_def wlp_get_m upd_h_def wlp_upd_m probes_def)

lemma on_monitor_asks: "on_monitor m = ask_monitor () m"
  by (simp add: on_monitor_def ask_monitor_def fun_eq_iff split: option.split sum.split)

lemma idle_ask_monitor:
  assumes "\<And>s0. keeps (probes s0) m"
  shows "wlp (ask_monitor d m) (\<lambda>_. idle_step s) s"
proof -
  have m: "wlp m (\<lambda>_. probes s) (h, s)" for h by (rule keepsD [OF assms]) (simp add: probes_def)
  have idle: "idle_step s (t\<lparr>health_monitor := x\<rparr>)" if "probes s (h, t)" for t :: "'a shard_world_scheme" and h :: PgHealthMonitor and x
    using that by (auto simp: probes_def idle_step_def fresh_calls_def intro: exI [of _ None])
  show ?thesis
  proof (cases "health_monitor s")
    case None
    then show ?thesis by (auto simp: ask_monitor_def wlp_def idle_step_def intro: exI [of _ None])
  next
    case (Some h)
    with m [of h] idle show ?thesis by (auto simp: ask_monitor_def wlp_def split: sum.splits)
  qed
qed

lemma ProbeLoop_body_accounts:
  assumes "accounts M s"
  shows "wlp (ProbeLoop_body L reads) (\<lambda>_ p. accounts M (snd p)) (h, s)"
proof -
  have "wlp (pause n reads) (\<lambda>_ p. accounts M (snd p)) p" if "accounts M (snd p)" for n and p :: "PgHealthMonitor \<times> 'a store_world_scheme"
    using that by (induction n reads rule: pause.induct) (auto simp: wlp_def)
  then have pause: "wlp (pauses n reads) (\<lambda>_ p. accounts M (snd p)) p" if "accounts M (snd p)" for n and p :: "PgHealthMonitor \<times> 'a store_world_scheme"
    using that by (auto simp: pauses_def wlp_def)
  have serve: "wlp (SetServing b) (\<lambda>_. wlp (if \<not> b then upd_h f else ret_m ()) (\<lambda>_. wlp (pauses n reads) (\<lambda>_ p. accounts M (snd p)))) p"
    if "accounts M (snd p)" for b f n and p :: "PgHealthMonitor \<times> 'a store_world_scheme"
    using wp_imp_wlp [OF monitor_accounts(1) [OF that], of b "fst p"]
    by (auto simp: upd_h_def wlp_upd_m wlp_basic elim!: wlp_mono intro!: pause)
  show ?thesis
    using assms by (auto simp: ProbeLoop_body_def wlp_basic wlp_get_m intro!: pause wlp_mono [OF wp_imp_wlp [OF monitor_accounts(2) [OF assms]]] serve)
qed

lemma ask_monitor_accounts:
  assumes "accounts M s" and "\<And>h. wlp m (\<lambda>_ p. accounts M (snd p)) (h, s)"
  shows "wlp (ask_monitor d m) (\<lambda>_. accounts M) s"
proof -
  have "accounts M (t\<lparr>health_monitor := h\<rparr>) = accounts M t" for t :: "'a shard_world_scheme" and h
    by (simp add: accounts_def owners_def)
  then show ?thesis
    using assms by (fastforce simp: ask_monitor_def wlp_def split: option.splits sum.splits)
qed

abbreviation task_sound :: "('b \<Rightarrow> StreamingQuery \<Rightarrow> bool) \<Rightarrow> StreamingQuery \<Rightarrow> ('a, 'b) qs_prog \<Rightarrow> bool" where
  "task_sound \<equiv> sound shard_inv own_calls"

lemma sound_QueryStream_t: "task_sound (\<lambda>_ q. q = no_stream) no_stream (QueryStream_t L G config fuel request)"
proof -
  have read: "task_sound (\<lambda>_ q. q = no_stream) no_stream (atomic (world_m (get_m f)))" for f :: "'a shard_world_scheme \<Rightarrow> ConnectParams option"
    by (rule sound_world) (auto simp: wlp_get_m idle_step_def intro: exI [of _ None])
  have make: "task_sound (\<lambda>_ q. sq_connection q = None \<and> \<not> sq_pooled q) no_stream (atomic (upd_q (\<lambda>_. StreamingQuery_init d k)))" for d k
    by (rule sound_atomic) (auto simp: upd_q_def wlp_upd_m shard_inv_def lent_def pinned_def lease_def session_use_def StreamingQuery_init_def
        intro: own_calls_fresh)
  have query: "task_sound (\<lambda>_ q. q = no_stream) no_stream (bind_t (atomic (upd_q (\<lambda>_. StreamingQuery_init d k)))
      (\<lambda>_. bind_t (run_query_t L G w fuel request) (\<lambda>status. bind_t destroy_t (\<lambda>_. Ret status))))" for d k w
    by (rule sound_bind [OF make], rule sound_bind [OF sound_run_query_t]) (auto intro: sound_bind [OF sound_destroy_t])
  show ?thesis
    unfolding QueryStream_t_def Let_def
    by (auto split: prod.split bool.split option.split intro!: sound_bind [OF read] query)
qed

lemma sound_ask_monitor:
  assumes "\<And>s0. keeps (probes s0) m" and "\<And>M h s. accounts M s \<Longrightarrow> wlp m (\<lambda>_ p. accounts M (snd p)) (h, s)"
  shows "task_sound (\<lambda>_ q. q = no_stream) no_stream (atomic (world_m (ask_monitor d m)))"
  by (rule sound_world [OF ask_monitor_accounts idle_ask_monitor]) (auto intro: assms)

lemma sound_OnConnectSuccess_t: "task_sound (\<lambda>_ q. q = no_stream) no_stream (OnConnectSuccess_t L params ms)"
proof -
  let ?Q = "\<lambda>_ q. q = no_stream"
  have store: "task_sound ?Q no_stream (atomic (world_m (ask_monitor () (upd_h f))))" for f
    by (rule sound_ask_monitor [OF probes_monitor(5)]) (simp add: upd_h_def wlp_upd_m)
  have probe: "task_sound ?Q no_stream (atomic (world_m (ask_monitor False (ProbeOnce L))))"
    by (rule sound_ask_monitor [OF probes_monitor(2)]) (intro wp_imp_wlp monitor_accounts(2))
  have serve: "task_sound ?Q no_stream (atomic (world_m (ask_monitor () (SetServing b))))" for b
    by (rule sound_ask_monitor [OF probes_monitor(1)]) (intro wp_imp_wlp monitor_accounts(1))
  have joinable: "task_sound ?Q no_stream (atomic (world_m (ask_monitor True (get_m g))))" for g
    by (rule sound_ask_monitor [OF probes_monitor(6)]) (simp add: wlp_get_m)
  show ?thesis
    unfolding OnConnectSuccess_t_def start_probe_def
    by (auto intro!: sound_bind [OF store] sound_bind [OF probe] sound_bind [OF serve] sound_bind [OF joinable] store)
qed

lemma sound_Shard_Connect_t: "task_sound (\<lambda>_ q. q = no_stream) no_stream (Shard_Connect_t L config request)"
proof -
  let ?Q = "\<lambda>_ q. q = no_stream"
  have configure: "task_sound ?Q no_stream (atomic (world_m (Configure params n)))" for params n
    by (rule sound_world [OF _ idle_Configure]) (simp add: Configure_def upd_pool_def wlp_upd_m)
  have connect: "task_sound ?Q no_stream (atomic (world_m (Pool_Connect L err)))" for err
    by (rule sound_world [OF Pool_Connect_accounts idle_Pool_Connect])
  have members: "task_sound ?Q no_stream (atomic (world_m (upd_m (\<lambda>s. s\<lparr>connect_params := x, executor := y\<rparr>))))" for x y
    by (rule sound_world) (auto simp: wlp_upd_m accounts_def owners_def idle_step_def fresh_calls_def intro: exI [of _ None])
  have failure: "task_sound ?Q no_stream (atomic (world_m (on_monitor OnConnectFailure)))"
    unfolding on_monitor_asks OnConnectFailure_def
    by (rule sound_ask_monitor [OF probes_monitor(1)]) (intro wp_imp_wlp monitor_accounts(1))
  show ?thesis
    unfolding Shard_Connect_t_def Let_def
    by (auto split: prod.split bool.split intro!: sound_bind [OF configure] sound_bind [OF connect] sound_bind [OF members] sound_bind [OF failure]
        sound_bind [OF sound_OnConnectSuccess_t])
qed

lemma sound_task_t: "task_sound (\<lambda>_ q. q = no_stream) no_stream (task_t L G config task)"
proof (cases "(L, G, config, task)" rule: task_t.cases)
  case (1 L G config request)
  then show ?thesis by (auto split: prod.split intro!: sound_bind [OF sound_Shard_Connect_t])
next
  case (2 L G config fuel request)
  then show ?thesis by (simp add: sound_QueryStream_t)
next
  case (3 L G config request)
  have "task_sound (\<lambda>_ q. q = no_stream) no_stream (atomic (world_m (Shard_Disconnect config request)))"
    by (rule sound_world) (auto simp: Shard_Disconnect_def wlp_basic idle_step_def split: prod.split bool.split intro: exI [of _ None])
  then show ?thesis using 3 by (auto split: prod.split elim: sound_bind)
next
  case (4 L G config reads)
  have "task_sound (\<lambda>_ q. q = no_stream) no_stream (atomic (world_m (on_monitor (ProbeLoop_body L reads))))"
    unfolding on_monitor_asks by (rule sound_ask_monitor [OF probes_monitor(4) ProbeLoop_body_accounts])
  then show ?thesis using 4 by (auto elim: sound_bind)
qed

end
