(* ===== verification/Concurrent_Queries.thy ===== *)
theory Concurrent_Queries
  imports Thread_Contracts
begin

text \<open>
  What holds of the shard service however its threads are scheduled: no connection is used after it is closed,
  none is leaked, and the statements of a query on a pooled connection are never mixed with
  those of another one. The tasks obey the contract of \<open>Thread_Contracts\<close>, and locale \<open>thread_contract\<close>
  makes it a property of the system. Two schedules that end badly are reached at the end: queries of one session
  on one connection, and a probe thread started twice.
\<close>

section \<open>Every schedule of the server\<close>

definition server_tasks :: "libpq \<Rightarrow> (flex \<Rightarrow> string) \<Rightarrow> ServerConfig \<Rightarrow> StreamingQuery \<times> ('a, Status) qs_prog \<Rightarrow> bool" where
  "server_tasks L G config t \<longleftrightarrow> fst t = no_stream \<and> snd t \<in> range (task_t L G config)"

interpretation shard_threads: thread_contract shard_inv own_calls "\<lambda>_ q. q = no_stream" "server_tasks L G config" for L G config
  by unfold_locales (auto simp: server_tasks_def shard_inv_def lent_def pinned_def intro: sound_task_t)

lemma shard_inv_init: "shard_inv {#} (shard_init config monitor)"
  by (simp add: shard_inv_def apart_def lent_def pinned_def pointers_def accounts_def owners_def shard_init_def ConnectionManager_init_def
      SessionStore_init_def open_handles_def fun_eq_iff)

lemmas shard_threads_inv = shard_threads.reachable_inv [OF shard_inv_init]

text \<open>C3: no use after free and no leak under any schedule. However the actions of any number of concurrent RPCs and
  of the health probe are interleaved, and whatever PostgreSQL answers, every statement and every \<open>PQfinish\<close> is made
  on a handle that is open at that time; the open handles are exactly those some running
  query points to, those in the pool and those of the sessions, each counted as often as it is kept; and a query that has
  ended keeps none.\<close>

theorem concurrent_memory_safe:
  assumes "reachable (server_tasks L G config) (shard_init config monitor) (ts, s)"
  shows "safe (history s) \<and>
    open_handles (history s) = set_mset (pointers (mset (map fst ts))) \<union> set (cm_idle (pool s)) \<union> snd ` set (ss_sessions (session_store s)) \<and>
    refs s = count (pointers (mset (map fst ts)) + mset (cm_idle (pool s)) + mset (map snd (ss_sessions (session_store s)))) \<and>
    (\<forall>q st. (q, Ret st) \<in> set ts \<longrightarrow> sq_connection q = None)"
proof -
  have "shard_inv (mset (map fst ts)) s" by (rule shard_threads_inv [OF assms])
  moreover have "sq_connection q = None" if "(q, Ret st) \<in> set ts" for q st
    using shard_threads.reachable_ended [OF shard_inv_init assms that] by simp
  ultimately show ?thesis by (auto simp: shard_inv_def accounts_def owners_def add.assoc)
qed

text \<open>A demonstration: a client connects, and a query takes the connection from the pool.\<close>

definition demo_connect :: ConnectRequest where
  "demo_connect = \<lparr>cr_host_index = 0, cr_dbname = ''app'', cr_user = ''web'', cr_password = [], cr_port = 5432, cr_host = [],
     cr_sslmode = [], cr_connect_timeout = [], cr_application_name = [], cr_database = []\<rparr>"

abbreviation demo_reachable :: "(StreamingQuery, shard_world, Status) system \<Rightarrow> bool" where
  "demo_reachable \<equiv> reachable (server_tasks (demo_libpq []) (\<lambda>_. ''m'') ServerConfig_init) (shard_init ServerConfig_init None)"

lemma demo_task: "server_tasks L G config (no_stream, task_t L G config task)"
  by (simp add: server_tasks_def)

lemma demo_connected:
  obtains s where "demo_reachable ([(no_stream, Ret Status_OK)], s)" and "cm_idle (pool s) = [0]" and "executor s \<noteq> None"
    and "connect_params s \<noteq> None" and "ss_sessions (session_store s) = []" and "ss_max_sessions (session_store s) = 512"
proof -
  have "wp (Shard_Connect (demo_libpq []) ServerConfig_init demo_connect) (\<lambda>r s. fst r = Status_OK \<and> cm_idle (pool s) = [0] \<and>
      executor s \<noteq> None \<and> connect_params s \<noteq> None \<and> ss_sessions (session_store s) = [] \<and> ss_max_sessions (session_store s) = 512)
      (shard_init ServerConfig_init None)"
    by (simp add: Shard_Connect_def ValidateHostIndex_def ServerConfig_init_def demo_connect_def BuildConnectParams_def ResolveDbName_def
        Let_def wp_simps Configure_def upd_pool_def Pool_Connect_def wp_on_monitor shard_init_def ConnectionManager_init_def
        SessionStore_init_def PqConnection_Connect_def wp_ApplyStatementTimeout demo_eval)
  then obtain resp s where run: "Shard_Connect (demo_libpq []) ServerConfig_init demo_connect (shard_init ServerConfig_init None) = Inr ((Status_OK, resp), s)"
    and s: "cm_idle (pool s) = [0]" "executor s \<noteq> None" "connect_params s \<noteq> None" "ss_sessions (session_store s) = []" "ss_max_sessions (session_store s) = 512"
    by (auto simp: wp_iff)
  let ?task = "task_t (demo_libpq []) (\<lambda>_. ''m'') ServerConfig_init (ServeRpc (RpcConnect demo_connect))"
  have "run ?task (no_stream, shard_init ServerConfig_init None) = Inr (Status_OK, (no_stream, s))"
    by (simp add: run_Shard_Connect_t bind_m_def world_m_def run)
  moreover have "demo_reachable ([] @ [(no_stream, ?task)], shard_init ServerConfig_init None)"
    by (rule reachable_steps(2), rule reachable_steps(1), rule demo_task)
  ultimately have "demo_reachable ([] @ [(no_stream, Ret Status_OK)], s)" by (intro reachable_run)
  with s show thesis by (intro that) simp_all
qed

text \<open>A query begins: its stream is made, and it asks for a connection.\<close>

lemma QueryStream_t_begins:
  assumes "\<not> query_refused config request"
  obtains k k' k'' where "QueryStream_t L G config fuel request =
      bind_t (atomic (world_m (get_m (\<lambda>s. if executor s = None then None else connect_params s)))) (k :: _ \<Rightarrow> ('a, Status) qs_prog)"
    and "\<And>d. k (Some d) = bind_t (atomic (upd_q (\<lambda>_. StreamingQuery_init d (fetch_rows_of config)))) (\<lambda>_. bind_t
        (atomic (upd_q (\<lambda>q. q\<lparr>sq_request := Some request, sq_use_cursor := IsTupleStreamingSql (qr_text request)\<rparr>))) (\<lambda>_.
        bind_t (AcquireConnection_t L request (Some [])) k'))"
  using assms
  by (auto simp: QueryStream_t_def query_refused_def ValidateHostIndex_eq EnsureQueryRequest_eq run_query_t_def Open_t_def bind_t_assoc
      fetch_rows_of_def Let_def intro!: that)

lemma demo_begins:
  assumes "demo_reachable (ts, s)" "executor s \<noteq> None" "connect_params s \<noteq> None" "\<not> query_refused ServerConfig_init request"
  obtains q k where "demo_reachable (ts @ [(q, bind_t (AcquireConnection_t (demo_libpq []) request (Some [])) k)], s)"
    and "sq_connection q = None"
proof -
  obtain d where d: "connect_params s = Some d" using assms(3) by blast
  let ?L = "demo_libpq []" and ?G = "\<lambda>_ :: flex. ''m''"
  obtain k k' where task: "QueryStream_t ?L ?G ServerConfig_init 3 request =
      bind_t (atomic (world_m (get_m (\<lambda>s. if executor s = None then None else connect_params s)))) (k :: _ \<Rightarrow> (unit, Status) qs_prog)"
    and k: "\<And>d. k (Some d) = bind_t (atomic (upd_q (\<lambda>_. StreamingQuery_init d (fetch_rows_of ServerConfig_init)))) (\<lambda>_. bind_t
        (atomic (upd_q (\<lambda>q. q\<lparr>sq_request := Some request, sq_use_cursor := IsTupleStreamingSql (qr_text request)\<rparr>))) (\<lambda>_.
        bind_t (AcquireConnection_t ?L request (Some [])) k'))"
    using QueryStream_t_begins [OF assms(4), of ?L ?G 3] by blast
  let ?q = "StreamingQuery_init d (fetch_rows_of ServerConfig_init)"
  let ?q' = "?q\<lparr>sq_request := Some request, sq_use_cursor := IsTupleStreamingSql (qr_text request)\<rparr>"
  have "demo_reachable (ts @ [(no_stream, QueryStream_t ?L ?G ServerConfig_init 3 request)], s)"
    using reachable_steps(2) [OF assms(1) demo_task [where task = "ServeRpc (RpcQueryStream 3 request)"]] by simp
  then have "demo_reachable (ts @ [(no_stream, k (Some d))], s)"
    unfolding task by (rule reachable_atomic) (simp add: world_m_def assms(2) d)
  then have "demo_reachable (ts @ [(?q, bind_t (atomic (upd_q (\<lambda>q. q\<lparr>sq_request := Some request, sq_use_cursor := IsTupleStreamingSql (qr_text request)\<rparr>)))
      (\<lambda>_. bind_t (AcquireConnection_t ?L request (Some [])) k'))], s)"
    unfolding k by (rule reachable_atomic) (simp add: upd_q_def)
  then have "demo_reachable (ts @ [(?q', bind_t (AcquireConnection_t ?L request (Some [])) k')], s)"
    by (rule reachable_atomic) (simp add: upd_q_def)
  then show thesis by (rule that) (simp add: StreamingQuery_init_def)
qed

lemma demo_query_accepted: "\<not> query_refused ServerConfig_init demo_request"
  by (simp add: query_refused_def host_refused_def demo_request_def ServerConfig_init_def cast_int32_def)

lemma demo_leased:
  obtains ts s where "demo_reachable (ts, s)" and "length ts = 2" and "sq_pooled (fst (ts ! 1))" and "sq_connection (fst (ts ! 1)) = Some 0"
    and "cm_idle (pool s) = []" and "executor s \<noteq> None" and "connect_params s \<noteq> None"
proof -
  obtain s where s: "demo_reachable ([(no_stream, Ret Status_OK)], s)" "cm_idle (pool s) = [0]" "executor s \<noteq> None" "connect_params s \<noteq> None"
    by (rule demo_connected)
  from demo_begins [OF s(1,3,4) demo_query_accepted] obtain q k where
    at: "demo_reachable ([(no_stream, Ret Status_OK)] @ [(q, bind_t (AcquireConnection_t (demo_libpq []) demo_request (Some [])) k)], s)" by metis
  let ?s = "s\<lparr>pool := (pool s)\<lparr>cm_idle := [], cm_in_use := cm_in_use (pool s) + 1\<rparr>\<rparr>"
  let ?q = "q\<lparr>sq_use_session := False, sq_connection := Some 0, sq_pooled := True\<rparr>"
  have enter: "enter_pool (Some []) (q, s) = Inr (Some (True, Some []), (?q, ?s))"
    using s(2) by (simp add: enter_pool_def keep_lease_def bind_m_def upd_q_def world_m_def Acquire_enter_def Let_def)
  have pooled: "AcquireConnection_t (demo_libpq []) demo_request (Some []) = bind_t (atomic (enter_pool (Some [])))
      (\<lambda>r. case r of None \<Rightarrow> atomic (create_lease (demo_libpq []) (Some [])) | Some x \<Rightarrow> Ret x)"
    by (simp add: AcquireConnection_t_def demo_request_def)
  have "demo_reachable ([(no_stream, Ret Status_OK)] @ [(?q, k (True, Some []))], ?s)"
    using reachable_atomic [OF at [unfolded pooled bind_t_assoc] enter] by simp
  with s(3,4) show thesis by (intro that [of "[(no_stream, Ret Status_OK), (?q, k (True, Some []))]" ?s]) simp_all
qed

theorem concurrent_memory_safe_witness:
  "\<exists>ts s. demo_reachable (ts, s) \<and> safe (history s) \<and> open_handles (history s) = insert 0 (snd ` set (ss_sessions (session_store s)))"
proof -
  obtain s where s: "demo_reachable ([(no_stream, Ret Status_OK)], s)" "cm_idle (pool s) = [0]" by (rule demo_connected)
  from concurrent_memory_safe [OF s(1)] s show ?thesis by auto
qed

text \<open>Two elements of a list at different places.\<close>

lemma mset_two:
  assumes "i < length xs" "j < length xs" "i \<noteq> j"
  obtains M where "mset xs = add_mset (xs ! i) (add_mset (xs ! j) M)"
proof -
  have "mset xs = add_mset (xs ! i) (mset (take i xs) + mset (drop (Suc i) xs))"
    by (subst id_take_nth_drop [OF assms(1)]) simp
  moreover have "xs ! j \<in># mset (take i xs) + mset (drop (Suc i) xs)"
  proof (cases "j < i")
    case True
    then have "take i xs ! j \<in> set (take i xs)" using assms by (intro nth_mem) simp
    with True show ?thesis by simp
  next
    case False
    then have "drop (Suc i) xs ! (j - Suc i) \<in> set (drop (Suc i) xs)" using assms by (intro nth_mem) auto
    with False assms show ?thesis by simp
  qed
  ultimately show thesis using that by (metis insert_DiffM)
qed

lemma pointers_member: "q \<in># M \<Longrightarrow> sq_connection q = Some c \<Longrightarrow> c \<in># pointers M"
  by (drule multi_member_split) auto

lemma finished_iff: "c \<in> finished h \<longleftrightarrow> EvFinish c \<in> set h"
  by (induction h rule: finished.induct) auto

lemma conn_of_cases: "conn_of e = Some c \<Longrightarrow> exec_on e = Some c \<or> e = EvFinish c"
  by (cases e) auto

text \<open>C4: isolation of the queries on the pool. While a query holds a connection of the pool, no other thread makes any call
  on that connection, a statement or \<open>PQfinish\<close>, whatever the schedule: its transaction
  holds its own statements only, and the answers it reads are those to its own.\<close>

theorem pooled_query_isolated:
  assumes "reachable (server_tasks L G config) (shard_init config monitor) (ts, s)"
    and "i < length ts" "sq_pooled (fst (ts ! i))" "sq_connection (fst (ts ! i)) = Some c"
    and "thread_step j (ts, s) (ts', s')" "j \<noteq> i"
  shows "\<exists>es. history s' = es @ history s \<and> (\<forall>e \<in> set es. conn_of e \<noteq> Some c)"
proof -
  let ?q = "fst (ts ! i)" and ?r = "fst (ts ! j)"
  note good = shard_threads.reachable_good [OF shard_inv_init assms(1)]
  note step = shard_threads.thread_step_good [OF good assms(5)]
  have inv: "shard_inv (mset (map fst ts)) s" by (rule shard_threads_inv [OF assms(1)])
  have inv': "shard_inv (mset (map fst ts')) s'" using step(1) by (simp add: shard_threads.good_def)
  obtain M where M: "mset (map fst ts) = add_mset ?q (add_mset ?r M)"
    using mset_two [of i "map fst ts" j] assms(2,6) step(5) by (metis length_map nth_map)
  have lent: "c \<in># lent (mset (map fst ts)) s" unfolding M using assms(3,4) by (simp add: lease_def)
  have "\<not> (sq_connection ?r = Some c \<and> holding ?r)"
  proof
    assume r: "sq_connection ?r = Some c \<and> holding ?r"
    show False
    proof (cases "sq_pooled ?r")
      case True
      then have "2 \<le> count (lent (mset (map fst ts)) s) c" unfolding M using assms(3,4) r by (simp add: lease_def)
      with inv show False by (metis apart_def numeral_le_one_iff order.trans semiring_norm(69) shard_inv_def)
    next
      case False
      then have "c \<in># pinned (mset (map fst ts)) s" unfolding M using r by (simp add: session_use_def holding_def)
      with lent inv show False by (auto simp: shard_inv_def apart_def)
    qed
  qed
  moreover have "c < next_conn s" using inv_bound [OF inv] lent by simp
  ultimately obtain es where es: "history s' = es @ history s" "\<forall>e \<in> set es. exec_on e \<noteq> Some c"
    using step(2) unfolding own_calls_def fst_conv snd_conv by (metis leD)
  have "fst (ts' ! i) \<in># mset (map fst ts')" "sq_connection (fst (ts' ! i)) = Some c"
    using step(3,4) assms(2,4,6) nth_mem [of i "map fst ts'"] by auto
  then have "c \<in># pointers (mset (map fst ts'))" by (rule pointers_member)
  then have "c \<in> open_handles (history s')" using inv' unfolding shard_inv_def accounts_def by simp
  then have "EvFinish c \<notin> set es" using es(1) by (auto simp: open_handles_def finished_iff)
  with es show ?thesis using conn_of_cases by blast
qed

theorem pooled_query_isolated_witness:
  "\<exists>ts s ts' s' es. demo_reachable (ts, s) \<and> sq_connection (fst (ts ! 1)) = Some 0 \<and> thread_step 2 (ts, s) (ts', s') \<and>
     history s' = es @ history s \<and> (\<forall>e \<in> set es. conn_of e \<noteq> Some 0)"
proof -
  obtain ts s where at: "demo_reachable (ts, s)" "length ts = 2" "sq_pooled (fst (ts ! 1))" "sq_connection (fst (ts ! 1)) = Some 0"
    by (rule demo_leased)
  let ?t = "(no_stream, task_t (demo_libpq []) (\<lambda>_. ''m'') ServerConfig_init (ServeRpc (RpcQueryStream 3 demo_request)))"
  have started: "demo_reachable (ts @ [?t], s)" using reachable_steps(2) [OF at(1) demo_task] .
  let ?read = "world_m (get_m (\<lambda>s :: shard_world. if executor s = None then None else connect_params s))"
  obtain k where task: "QueryStream_t (demo_libpq []) (\<lambda>_. ''m'') ServerConfig_init 3 demo_request = bind_t (atomic ?read) k"
    by (rule QueryStream_t_begins [OF demo_query_accepted, of "demo_libpq []" "\<lambda>_. ''m''" 3])
  have "?read (no_stream, s) = Inr (if executor s = None then None else connect_params s, (no_stream, s))" by (simp add: world_m_def)
  from thread_step_atomic [where m = ?read, OF this, of ts k] at(2)
  obtain ts' where step: "thread_step 2 (ts @ [?t], s) (ts', s)" by (auto simp: task)
  from pooled_query_isolated [OF started _ _ _ step, of 1 0] at step started show ?thesis by (force simp: nth_append)
qed

text \<open>
  Sessions are not isolated in this way: the store hands the same connection to every query of a session, also while
  another one is running on it. The second one then finds the first one's transaction open and works inside it, and
  the first one's \<open>COMMIT\<close> or \<open>ROLLBACK\<close> ends the transaction the second one's cursor lives in.
\<close>

abbreviation demo_session_request :: QueryRequest where
  "demo_session_request \<equiv> demo_request\<lparr>qr_session_id := ''s''\<rparr>"

lemma demo_session_acquired:
  assumes "ss_sessions (session_store s) = [] \<and> ss_max_sessions (session_store s) = 512 \<or> ss_sessions (session_store s) = [(''s'', c)]"
    "executor s \<noteq> None" "connect_params s \<noteq> None"
  obtains c' q' s' where "AcquireConnection (demo_libpq []) demo_session_request (Some []) (q, s :: shard_world) = Inr ((True, Some []), (q', s'))"
    and "sq_connection q' = Some c'" "sq_use_session q'" "ss_sessions (session_store s') = [(''s'', c')]" "executor s' \<noteq> None" "connect_params s' \<noteq> None"
    and "ss_sessions (session_store s) = [(''s'', c)] \<Longrightarrow> c' = c"
proof -
  have "wp (AcquireConnection (demo_libpq []) demo_session_request (Some [])) (\<lambda>r p. r = (True, Some []) \<and>
      (\<exists>c'. sq_connection (fst p) = Some c' \<and> ss_sessions (session_store (snd p)) = [(''s'', c')] \<and>
        (ss_sessions (session_store s) = [(''s'', c)] \<longrightarrow> c' = c)) \<and> sq_use_session (fst p) \<and>
      executor (snd p) \<noteq> None \<and> connect_params (snd p) \<noteq> None) (q, s)"
    using assms
    by (auto simp: AcquireConnection_def GetOrCreate_def open_session_def upd_sessions_def demo_request_def wp_simps PqConnection_Connect_def
        wp_ApplyStatementTimeout cast_int32_def IsHealthy_def demo_eval)
  then show thesis by (auto simp: wp_iff intro!: that)
qed

lemma demo_session_query:
  assumes "demo_reachable (ts, s)" "executor s \<noteq> None" "connect_params s \<noteq> None"
    "ss_sessions (session_store s) = [] \<and> ss_max_sessions (session_store s) = 512 \<or> ss_sessions (session_store s) = [(''s'', c)]"
  obtains q p s' c' where "demo_reachable (ts @ [(q, p)], s')" "sq_connection q = Some c'" "sq_use_session q"
    "ss_sessions (session_store s') = [(''s'', c')]" "executor s' \<noteq> None" "connect_params s' \<noteq> None"
    "ss_sessions (session_store s) = [(''s'', c)] \<Longrightarrow> c' = c"
proof -
  have "\<not> query_refused ServerConfig_init demo_session_request" using demo_query_accepted by (simp add: query_refused_def)
  from demo_begins [OF assms(1-3) this] obtain q k where
    at: "demo_reachable (ts @ [(q, bind_t (AcquireConnection_t (demo_libpq []) demo_session_request (Some [])) k)], s)" by metis
  obtain c' q' s' where acq: "AcquireConnection (demo_libpq []) demo_session_request (Some []) (q, s) = Inr ((True, Some []), (q', s'))"
    and q': "sq_connection q' = Some c'" "sq_use_session q'" "ss_sessions (session_store s') = [(''s'', c')]" "executor s' \<noteq> None"
    "connect_params s' \<noteq> None" "ss_sessions (session_store s) = [(''s'', c)] \<Longrightarrow> c' = c"
    using demo_session_acquired [OF assms(4,2,3), of q] by metis
  have "AcquireConnection_t (demo_libpq []) demo_session_request (Some []) = atomic (AcquireConnection (demo_libpq []) demo_session_request (Some []))"
    by (simp add: AcquireConnection_t_def)
  from reachable_atomic [OF at [unfolded this] acq] show thesis by (rule that [OF _ q'])
qed

text \<open>Two queries of one session that run at the same time are on one connection.\<close>

theorem session_connection_shared:
  "\<exists>ts s c. demo_reachable (ts, s) \<and> length ts = 3 \<and> sq_connection (fst (ts ! 1)) = Some c \<and> sq_connection (fst (ts ! 2)) = Some c"
proof -
  obtain s where s: "demo_reachable ([(no_stream, Ret Status_OK)], s)" "executor s \<noteq> None" "connect_params s \<noteq> None"
    "ss_sessions (session_store s) = []" "ss_max_sessions (session_store s) = 512" by (rule demo_connected)
  obtain q p s' c where a: "demo_reachable ([(no_stream, Ret Status_OK)] @ [(q, p)], s')" "sq_connection q = Some c"
    "ss_sessions (session_store s') = [(''s'', c)]" "executor s' \<noteq> None" "connect_params s' \<noteq> None"
    using demo_session_query [OF s(1-3), of 0] s(4,5) by metis
  obtain q' p' s'' where "demo_reachable (([(no_stream, Ret Status_OK)] @ [(q, p)]) @ [(q', p')], s'')" "sq_connection q' = Some c"
    using demo_session_query [OF a(1,4,5), of c] a(3) by metis
  with a(2) show ?thesis by (intro exI [of _ "[(no_stream, Ret Status_OK), (q, p), (q', p')]"] exI [of _ s''] exI [of _ c]) simp
qed

text \<open>
  The test whether the probe thread runs and its start are not one critical section: two clients that connect at the
  same time can both find that there is none. The one that starts it second assigns to a joinable
  \<open>std::thread\<close>, which ends the process.
\<close>

abbreviation watched_reachable :: "(StreamingQuery, shard_world, Status) system \<Rightarrow> bool" where
  "watched_reachable \<equiv>
     reachable (server_tasks (demo_libpq []) (\<lambda>_. ''m'') ServerConfig_init) (shard_init ServerConfig_init (Some (PgHealthMonitor_init 30)))"

definition unprobed :: "'a shard_world_scheme \<Rightarrow> bool" where
  "unprobed s \<longleftrightarrow> (\<exists>h. health_monitor s = Some h \<and> \<not> hm_probe_thread h)"

lemma wp_ask_monitor:
  "wp (ask_monitor d m) Q s =
     (case health_monitor s of
        None \<Rightarrow> Q d s
      | Some h \<Rightarrow> wp m (\<lambda>x p. Q x ((snd p)\<lparr>health_monitor := Some (fst p)\<rparr>)) (h, s))"
  by (auto simp: ask_monitor_def wp_def split: option.splits sum.splits)

lemma demo_unprobed:
  assumes "unprobed s"
  shows "wp (Configure params n) (\<lambda>_. unprobed) s" "wp (upd_m (\<lambda>s. s\<lparr>connect_params := x, executor := y\<rparr>)) (\<lambda>_. unprobed) s"
    "wp (Pool_Connect (demo_libpq []) (Some [])) (\<lambda>r s'. fst r \<and> unprobed s') s"
    "wp (ask_monitor () (upd_h (\<lambda>h. h\<lparr>hm_params := params, hm_statement_timeout_ms := ms, hm_has_params := True\<rparr>))) (\<lambda>_. unprobed) s"
    "wp (ask_monitor False (ProbeOnce (demo_libpq []))) (\<lambda>_. unprobed) s" "wp (ask_monitor () (SetServing b)) (\<lambda>_. unprobed) s"
    "wp (ask_monitor True (get_m (\<lambda>p. hm_probe_thread (fst p)))) (\<lambda>joinable s'. \<not> joinable \<and> unprobed s') s"
    "wp (ask_monitor () start_probe) (\<lambda>_ s'. \<exists>h. health_monitor s' = Some h \<and> hm_probe_thread h) s"
  using assms
  by (auto simp: unprobed_def wp_simps Configure_def upd_pool_def Pool_Connect_def PqConnection_Connect_def wp_ApplyStatementTimeout
      wp_ask_monitor wp_SetServing ProbeOnce_def start_probe_def wp_world_m PQfinish_m_def demo_eval)

text \<open>A step of a thread on the world, as its weakest precondition says.\<close>

lemma reachable_world:
  assumes "reachable tasks s0 (ts @ [(q, bind_t (atomic (world_m m)) k)], s)" "wp m Q s"
  obtains x s' where "reachable tasks s0 (ts @ [(q, k x)], s')" "Q x s'"
proof -
  from assms(2) obtain x s' where m: "m s = Inr (x, s')" and Q: "Q x s'" by (auto simp: wp_iff)
  have "reachable tasks s0 (ts @ [(q, k x)], s')" by (rule reachable_atomic [OF assms(1)]) (simp add: world_m_def m)
  with Q show thesis by (rule that [rotated])
qed

lemma Shard_Connect_t_begins:
  obtains params k k' where "Shard_Connect_t L ServerConfig_init demo_connect =
      bind_t (atomic (world_m (Configure params (pool_size ServerConfig_init)))) (\<lambda>_.
      bind_t (atomic (world_m (Pool_Connect L (Some [])))) (k :: _ \<Rightarrow> ('a, _) qs_prog))"
    and "\<And>r. fst r \<Longrightarrow> k r = bind_t (atomic (world_m (upd_m (\<lambda>s. s\<lparr>connect_params := Some params, executor := Some params\<rparr>)))) (\<lambda>_.
      bind_t (OnConnectSuccess_t L params (statement_timeout_ms ServerConfig_init)) k')"
proof -
  let ?params = "BuildConnectParams ServerConfig_init demo_connect"
  have "ValidateHostIndex ServerConfig_init (cr_host_index demo_connect) (Some []) = (True, Some [])"
    "cp_dbname ?params \<noteq> []" "cp_user ?params \<noteq> []"
    by (simp_all add: ValidateHostIndex_def ServerConfig_init_def demo_connect_def BuildConnectParams_def ResolveDbName_def Let_def)
  then show thesis
    by (intro that [of ?params _ "\<lambda>_. Ret (Status_OK, \<lparr>resp_ok = True, resp_message = ''connected''\<rparr>)"],
        simp add: Shard_Connect_t_def Let_def) (simp add: case_prod_beta)
qed

lemma demo_before_start:
  assumes "watched_reachable (ts @ [(q, bind_t (OnConnectSuccess_t (demo_libpq []) params ms) k)], s)" "unprobed s"
  obtains s' where "watched_reachable (ts @ [(q, bind_t (atomic (world_m (ask_monitor () start_probe))) k)], s')" "unprobed s'"
  using assms unfolding OnConnectSuccess_t_def bind_t_assoc
  apply -
  apply (erule reachable_world [OF _ demo_unprobed(4)], assumption)
  apply (erule reachable_world [OF _ demo_unprobed(5)], assumption)
  apply (erule reachable_world [OF _ demo_unprobed(6)], assumption)
  apply (erule reachable_world [OF _ demo_unprobed(7)], assumption)
  by simp

lemma demo_connecting:
  assumes "watched_reachable (ts, s)" "unprobed s"
  obtains s' k where "watched_reachable (ts @ [(no_stream, bind_t (atomic (world_m (ask_monitor () start_probe))) k)], s')" "unprobed s'"
proof -
  let ?L = "demo_libpq []"
  obtain params and k k' :: "_ \<Rightarrow> (unit, _) qs_prog" where task: "Shard_Connect_t ?L ServerConfig_init demo_connect =
      bind_t (atomic (world_m (Configure params (pool_size ServerConfig_init)))) (\<lambda>_. bind_t (atomic (world_m (Pool_Connect ?L (Some [])))) k)"
    and k: "\<And>r. fst r \<Longrightarrow> k r = bind_t (atomic (world_m (upd_m (\<lambda>s. s\<lparr>connect_params := Some params, executor := Some params\<rparr>)))) (\<lambda>_.
      bind_t (OnConnectSuccess_t ?L params (statement_timeout_ms ServerConfig_init)) k')"
    using Shard_Connect_t_begins [of ?L] by blast
  have "watched_reachable (ts @ [(no_stream, task_t ?L (\<lambda>_. ''m'') ServerConfig_init (ServeRpc (RpcConnect demo_connect)))], s)"
    by (rule reachable_steps(2) [OF assms(1) demo_task])
  then obtain s1 where 1: "watched_reachable (ts @ [(no_stream, bind_t (atomic (world_m (Pool_Connect ?L (Some [])))) (\<lambda>r. bind_t (k r) (\<lambda>(st, _). Ret st)))], s1)" "unprobed s1"
    unfolding task_t.simps task bind_t_assoc by (rule reachable_world [OF _ demo_unprobed(1) [OF assms(2)]])
  obtain r s2 where 2: "watched_reachable (ts @ [(no_stream, bind_t (k r) (\<lambda>(st, _). Ret st))], s2)" "fst r" "unprobed s2"
    by (rule reachable_world [OF 1(1) demo_unprobed(3) [OF 1(2)]]) blast
  obtain s3 where 3: "watched_reachable (ts @ [(no_stream, bind_t (OnConnectSuccess_t ?L params (statement_timeout_ms ServerConfig_init))
      (\<lambda>u. bind_t (k' u) (\<lambda>(st, _). Ret st)))], s3)" "unprobed s3"
    by (rule reachable_world [OF 2(1) [unfolded k [OF 2(2)] bind_t_assoc] demo_unprobed(2) [OF 2(3)]])
  from 3 show thesis by (rule demo_before_start) (rule that)
qed

text \<open>Two clients connect at the same time, the second one has started the probe thread, and the next action of the
  first one is to start it again.\<close>

theorem probe_thread_started_twice:
  "\<exists>ts s k h. watched_reachable (ts, s) \<and> snd (ts ! 0) = bind_t (atomic (world_m (ask_monitor () start_probe))) k \<and>
     health_monitor s = Some h \<and> hm_probe_thread h"
proof -
  have "unprobed (shard_init ServerConfig_init (Some (PgHealthMonitor_init 30)))"
    by (simp add: unprobed_def shard_init_def PgHealthMonitor_init_def)
  from demo_connecting [OF reachable_steps(1) this] obtain s k where
    first: "watched_reachable ([(no_stream, bind_t (atomic (world_m (ask_monitor () start_probe))) k)], s)" "unprobed s"
    unfolding append_Nil by blast
  from demo_connecting [OF first] obtain s' k' where
    "watched_reachable (([(no_stream, bind_t (atomic (world_m (ask_monitor () start_probe))) k)]) @
       [(no_stream, bind_t (atomic (world_m (ask_monitor () start_probe))) k')], s')" "unprobed s'" by blast
  from reachable_world [OF this(1) demo_unprobed(8) [OF this(2)]] obtain h p s'' where
    "watched_reachable ([(no_stream, bind_t (atomic (world_m (ask_monitor () start_probe))) k)] @ [(no_stream, p)], s'')"
    "health_monitor s'' = Some h" "hm_probe_thread h" by blast
  then show ?thesis
    by (intro exI [of _ "[(no_stream, bind_t (atomic (world_m (ask_monitor () start_probe))) k), (no_stream, p)]"] exI [of _ s'']) auto
qed

end
