(* ===== verification/Client_Request.thy ===== *)
theory Client_Request
  imports Shard_Service
begin

text \<open>
  The requests of \<open>src/integration/lib/grpc-query-client.js\<close>, the other side of the checks and of the parameter
  buffers of the server. A value that is neither \<open>null\<close>, \<open>undefined\<close> nor a buffer is
  given by the UTF-8 bytes of \<open>String(value)\<close>; an absent property is \<open>None\<close>.
\<close>

datatype js_value = JsNull | JsUndefined | JsBuffer string | JsText string

record js_query =
  jq_text :: "string option"
  jq_row_mode :: "string option"
  jq_values :: "js_value list option"
  jq_types :: "32 word option list option"

record js_credentials =
  jc_database :: string
  jc_user :: string
  jc_password :: string
  jc_port :: int

definition js_default :: "'x option \<Rightarrow> 'x \<Rightarrow> 'x" where
  "js_default v d = (case v of None \<Rightarrow> d | Some x \<Rightarrow> x)"

definition encodeQueryParam :: "js_value \<Rightarrow> 32 word option \<Rightarrow> QueryParam" where
  "encodeQueryParam value oid =
     (case value of
        JsNull \<Rightarrow> \<lparr>qp_oid = js_default oid 0, qp_format = 0, qp_value = []\<rparr>
      | JsUndefined \<Rightarrow> \<lparr>qp_oid = js_default oid 0, qp_format = 0, qp_value = []\<rparr>
      | JsBuffer bytes \<Rightarrow> \<lparr>qp_oid = js_default oid 0, qp_format = 1, qp_value = bytes\<rparr>
      | JsText bytes \<Rightarrow> \<lparr>qp_oid = js_default oid 0, qp_format = 0, qp_value = bytes\<rparr>)"

text \<open>An index past the end of the types is \<open>undefined\<close>.\<close>

definition type_at :: "'x option list \<Rightarrow> nat \<Rightarrow> 'x option" where
  "type_at types i = (if i < length types then types ! i else None)"

definition buildLibpqQueryParams :: "js_query \<Rightarrow> QueryParam list" where
  "buildLibpqQueryParams req =
     (let vals = js_default (jq_values req) []; types = js_default (jq_types req) []
      in map (\<lambda>(i, value). encodeQueryParam value (type_at types i)) (enumerate 0 vals))"

definition buildConnectRequest :: "int \<Rightarrow> js_credentials \<Rightarrow> string \<Rightarrow> ConnectRequest" where
  "buildConnectRequest hostIndex credentials roleHost =
     \<lparr>cr_host_index = hostIndex, cr_dbname = jc_database credentials, cr_user = jc_user credentials, cr_password = jc_password credentials,
      cr_port = jc_port credentials, cr_host = roleHost, cr_sslmode = [], cr_connect_timeout = [], cr_application_name = [],
      cr_database = jc_database credentials\<rparr>"

definition buildQueryRequestPayload :: "int \<Rightarrow> js_query \<Rightarrow> string option \<Rightarrow> QueryRequest" where
  "buildQueryRequestPayload hostIndex req sessionId =
     \<lparr>qr_host_index = hostIndex, qr_text = js_default (jq_text req) [], qr_name = [], qr_row_mode = js_default (jq_row_mode req) [],
      qr_session_id = js_default sessionId [], qr_params = buildLibpqQueryParams req, qr_result_format = 1\<rparr>"

section \<open>What libpq is given\<close>

text \<open>The value a parameter is meant to have, \<open>None\<close> for SQL's \<open>NULL\<close>.\<close>

fun sql_value :: "js_value \<Rightarrow> string option" where
  "sql_value JsNull = None"
| "sql_value JsUndefined = None"
| "sql_value (JsBuffer bytes) = Some bytes"
| "sql_value (JsText bytes) = Some bytes"

text \<open>libpq's documented reading of the four arrays: a null pointer is SQL's \<open>NULL\<close>; a parameter in text format is read up to its
  first zero byte, one in binary format by its length.\<close>

definition libpq_reads :: "ParamBuffers \<Rightarrow> nat \<Rightarrow> string option" where
  "libpq_reads ps i = map_option (\<lambda>bytes. if pb_formats ps ! i = 0 then c_str bytes else take (nat (pb_lengths ps ! i)) bytes)
     (pb_values ps ! i)"

text \<open>What the arrays can carry: no zero byte in a text, and a length that fits an \<open>int\<close>.\<close>

fun passable :: "js_value \<Rightarrow> bool" where
  "passable JsNull = True"
| "passable JsUndefined = True"
| "passable (JsBuffer bytes) = (int (length bytes) \<le> INT_MAX)"
| "passable (JsText bytes) = (CHR 0x00 \<notin> set bytes \<and> int (length bytes) \<le> INT_MAX)"

text \<open>The calls of \<open>PQexecParams\<close> in a history, the last first.\<close>

fun exec_params :: "history \<Rightarrow> (conn \<times> string \<times> ParamBuffers \<times> int) list" where
  "exec_params [] = []"
| "exec_params (EvExecParams c sql ps fmt r # h) = (c, sql, ps, fmt) # exec_params h"
| "exec_params (e # h) = exec_params h"

lemma exec_params_ran [simp]: "exec_params (ran L c sql h) = exec_params h"
  by (simp add: ran_def split: option.split)

lemma exec_params_finish: "set xs \<subseteq> {EvFinish c} \<Longrightarrow> exec_params (xs @ h) = exec_params h"
  by (induction xs) auto

text \<open>\<open>Open\<close> calls it once, with the arrays of the request, unless the transaction it needs cannot be begun.\<close>

lemma OpenCursor_exec_params:
  assumes "sq_connection q = Some c" "c \<notin> held s" and "OpenCursor L request err (q, s) = Inr ((ok, err'), (q', s'))"
  shows "exec_params (history s') = exec_params (history s) \<and> \<not> ok \<or>
    (\<exists>sql. exec_params (history s') = (c, sql, BuildParams request, result_format_of request) # exec_params (history s))"
  using assms(3,1,2)
  by (auto simp: run_wp OpenCursor_def wp_simps wp_BeginIfNeeded wp_DeclareCursor Let_def declared_def
      split: if_splits PGTransactionStatusType.splits option.splits)

lemma OpenImmediate_exec_params:
  assumes "sq_connection q = Some c" "c \<notin> held s"
  shows "wp (OpenImmediate L request err) (\<lambda>_ p. \<exists>sql. exec_params (history (snd p)) =
    (c, sql, BuildParams request, result_format_of request) # exec_params (history s)) (q, s)"
proof -
  have released: "wp (ReleaseConnection L True) (\<lambda>_ p. \<exists>sql. exec_params (history (snd p)) =
      (c, sql, BuildParams request, result_format_of request) # exec_params (history s)) (q1, s1)"
    if "sq_connection q1 = Some c" "exec_params (history s1) = (c, sql, BuildParams request, result_format_of request) # exec_params (history s)"
    for q1 s1 sql
    by (rule wp_mono [OF wp_ReleaseConnection [OF that(1)]]) (use that(2) in \<open>auto simp: gives_up_def exec_params_finish\<close>)
  from assms show ?thesis
    by (auto simp: OpenImmediate_def wp_simps wp_ExecuteImmediate Let_def split: option.splits intro!: released)
qed

lemma Open_exec_params:
  assumes "held s = {}" "Execute_acquire L d request err s = Inr ((Some c, err0), s0)"
    "Open L request err (StreamingQuery_init d k, s) = Inr ((ok, err'), (q, s'))"
  shows "exec_params (history s') = exec_params (history s0) \<and> \<not> ok \<or>
    (\<exists>sql. exec_params (history s') = (c, sql, BuildParams request, result_format_of request) # exec_params (history s0))"
proof -
  have c: "c \<notin> held s0" using Execute_acquire_frame [OF assms(2)] assms(1) by simp
  show ?thesis
  proof (cases "IsTupleStreamingSql (qr_text request)")
    case True
    with assms(3) have "OpenCursor L request err0 (acquired d k request c, s0) = Inr ((ok, err'), (q, s'))"
      by (simp add: Open_acquired [OF assms(2)])
    from OpenCursor_exec_params [OF _ c this] show ?thesis by simp
  next
    case False
    with assms(3) OpenImmediate_exec_params [OF _ c, of "acquired d k request c" L request err0] show ?thesis
      by (auto simp: Open_acquired [OF assms(2)] wp_def)
  qed
qed

lemma BuildParams_nth:
  assumes "i < length (qr_params request)"
  shows "length (pb_values (BuildParams request)) = length (qr_params request)"
    "pb_values (BuildParams request) ! i = (let p = qr_params request ! i in if qp_value p = [] \<and> qp_format p = 0 then None else Some (qp_value p))"
    "pb_lengths (BuildParams request) ! i = cast_int32 (int (length (qp_value (qr_params request ! i))))"
    "pb_formats (BuildParams request) ! i = qp_format (qr_params request ! i)"
    "pb_types (BuildParams request) ! i = qp_oid (qr_params request ! i)"
  using assms by (simp_all add: BuildParams_def foldl_push_param Let_def)

lemma buildLibpqQueryParams_nth:
  assumes "jq_values req = Some vs"
  shows "length (buildLibpqQueryParams req) = length vs"
    "i < length vs \<Longrightarrow> buildLibpqQueryParams req ! i = encodeQueryParam (vs ! i) (type_at (js_default (jq_types req) []) i)"
  using assms by (simp_all add: buildLibpqQueryParams_def js_default_def Let_def nth_enumerate_eq)

definition arrives :: "ParamBuffers \<Rightarrow> nat \<Rightarrow> js_value \<Rightarrow> 32 word option \<Rightarrow> bool" where
  "arrives ps i v oid \<longleftrightarrow>
     libpq_reads ps i = (if v = JsText [] then None else sql_value v) \<and>
     pb_lengths ps ! i = (case sql_value v of None \<Rightarrow> 0 | Some bytes \<Rightarrow> int (length bytes)) \<and>
     pb_formats ps ! i = (case v of JsBuffer _ \<Rightarrow> 1 | _ \<Rightarrow> 0) \<and>
     pb_types ps ! i = js_default oid 0"

lemma BuildParams_arrive:
  assumes "jq_values req = Some vs" "i < length vs" "passable (vs ! i)"
  shows "arrives (BuildParams (buildQueryRequestPayload hostIndex req sessionId)) i (vs ! i) (type_at (js_default (jq_types req) []) i)"
proof -
  let ?request = "buildQueryRequestPayload hostIndex req sessionId"
  have params: "qr_params ?request = buildLibpqQueryParams req" by (simp add: buildQueryRequestPayload_def)
  note ps = buildLibpqQueryParams_nth [OF assms(1)]
  have "i < length (qr_params ?request)" using assms(2) ps by (simp add: params)
  note BuildParams_nth [OF this]
  with ps assms(2,3) show ?thesis
    by (cases "vs ! i") (auto simp: arrives_def libpq_reads_def params encodeQueryParam_def INT_MAX_def Let_def)
qed

text \<open>C11: the parameters of a query arrive. When the server opens the client's query on a connection, it calls \<open>PQexecParams\<close>
  on that connection once, or, if it fails, at most once; the call asks for binary results and has one entry for each value the
  client passed, at its position: libpq reads from the four arrays exactly the value's bytes, with
  \<open>NULL\<close> for \<open>null\<close> and \<open>undefined\<close>, its length, the binary format exactly for
  buffers, and the type of that position, or none. The one exception is the empty text, which arrives as \<open>NULL\<close>. The values are texts
  without a zero byte and buffers, of at most \<open>INT_MAX\<close> bytes.\<close>

theorem client_parameters_arrive:
  assumes req: "jq_values req = Some vs" "\<forall>v \<in> set vs. passable v" "request = buildQueryRequestPayload hostIndex req sessionId"
    and run: "held s = {}" "Execute_acquire L d request err s = Inr ((Some c, err0), s0)"
      "Open L request err (StreamingQuery_init d k, s) = Inr ((ok, err'), (q, s'))"
  shows "\<exists>calls. exec_params (history s') = calls @ exec_params (history s0) \<and>
    length calls \<le> 1 \<and> (ok \<longrightarrow> length calls = 1) \<and>
    (\<forall>(c', sql, ps, fmt) \<in> set calls. c' = c \<and> fmt = 1 \<and> length (pb_values ps) = length vs \<and>
      (\<forall>i < length vs. arrives ps i (vs ! i) (type_at (js_default (jq_types req) []) i)))"
proof -
  have "length (pb_values (BuildParams request)) = length vs"
    using buildLibpqQueryParams_nth(1) [OF req(1)] by (simp add: req(3) buildQueryRequestPayload_def BuildParams_def foldl_push_param)
  moreover have "\<forall>i < length vs. arrives (BuildParams request) i (vs ! i) (type_at (js_default (jq_types req) []) i)"
    using BuildParams_arrive [OF req(1)] req(2) by (simp add: req(3))
  moreover have "result_format_of request = 1" by (simp add: req(3) buildQueryRequestPayload_def result_format_of_def)
  ultimately show ?thesis
    using Open_exec_params [OF run] by (elim disjE conjE exE) (force intro: exI [of _ "[]"], force intro: exI [of _ "[_]"])
qed

definition demo_query :: js_query where
  "demo_query = \<lparr>jq_text = Some ''SELECT x FROM t'', jq_row_mode = None, jq_values = Some [JsText ''7'', JsBuffer [CHR 0x00], JsNull],
     jq_types = Some [Some 23]\<rparr>"

theorem client_parameters_arrive_witness:
  "\<exists>err' q s' sql ps. Open (demo_libpq []) (buildQueryRequestPayload 0 demo_query None) (Some [])
       (StreamingQuery_init ConnectParams_init 10, demo_stream) = Inr ((True, err'), (q, s')) \<and>
     (0, sql, ps, 1) \<in> set (exec_params (history s')) \<and> libpq_reads ps 0 = Some ''7'' \<and>
     libpq_reads ps 1 = Some [CHR 0x00] \<and> libpq_reads ps 2 = None \<and> pb_types ps ! 0 = 23"
proof -
  let ?L = "demo_libpq []" and ?r = "buildQueryRequestPayload 0 demo_query None"
  have sqltext: "qr_text ?r = qr_text demo_request" "qr_session_id ?r = []"
    by (simp_all add: buildQueryRequestPayload_def demo_query_def demo_request_def js_default_def)
  obtain s0 where "Acquire ?L demo_stream = Inr (Some 0, s0)"
    using accepting_Acquire [OF accepts_demo_libpq, of demo_stream]
    by (auto simp: demo_stream_def ConnectionManager_init_def ConnectParams_init_def)
  then have acq: "Execute_acquire ?L ConnectParams_init ?r (Some []) demo_stream = Inr ((Some 0, Some []), s0)"
    by (simp add: Execute_acquire_def sqltext bind_m_def)
  have free: "held demo_stream = {}" by (simp add: demo_stream_def)
  then have "held s0 = {}" using Execute_acquire_frame [OF acq] by simp
  moreover have "PQexec ?L h c ''BEGIN'' = Some (command_result PGRES_COMMAND_OK ''BEGIN'' [])"
    "PQexecParams ?L h c sql ps f = Some (command_result PGRES_COMMAND_OK sql [])" for h c sql ps f
    by (simp_all add: demo_libpq_def demo_exec_def starts_with_def)
  ultimately have "wp (OpenCursor ?L ?r (Some [])) (\<lambda>r _. r = (True, Some [])) (acquired ConnectParams_init 10 ?r 0, s0)"
    by (simp add: OpenCursor_def wp_simps wp_BeginIfNeeded wp_DeclareCursor declare_result_def result_status_def command_result_def Let_def)
  then obtain q s' where run: "Open ?L ?r (Some []) (StreamingQuery_init ConnectParams_init 10, demo_stream) = Inr ((True, Some []), (q, s'))"
    by (auto simp: wp_iff Open_acquired [OF acq] sqltext)
  have vs: "jq_values demo_query = Some [JsText ''7'', JsBuffer [CHR 0x00], JsNull]" "\<forall>v \<in> set [JsText ''7'', JsBuffer [CHR 0x00], JsNull]. passable v"
    by (simp_all add: demo_query_def INT_MAX_def)
  from client_parameters_arrive [OF vs refl free acq run] obtain sql ps where call: "(0, sql, ps, 1) \<in> set (exec_params (history s'))"
    and ps: "\<forall>i < 3. arrives ps i ([JsText ''7'', JsBuffer [CHR 0x00], JsNull] ! i) (type_at [Some 23] i)"
    by (auto simp: demo_query_def js_default_def length_Suc_conv numeral_3_eq_3) blast
  from ps have "arrives ps 0 (JsText ''7'') (Some 23)" "arrives ps 1 (JsBuffer [CHR 0x00]) None" "arrives ps 2 JsNull None"
    by (auto simp: type_at_def dest: spec [of _ 0] spec [of _ 1] spec [of _ 2])
  with run call show ?thesis by (intro exI conjI) (auto simp: arrives_def js_default_def)
qed

text \<open>The exception is a loss: the empty string and \<open>NULL\<close> cannot be told apart any more.\<close>

theorem empty_text_becomes_null:
  "encodeQueryParam (JsText []) oid = encodeQueryParam JsNull oid \<and>
   pb_values (BuildParams (buildQueryRequestPayload h \<lparr>jq_text = t, jq_row_mode = r, jq_values = Some [JsText []], jq_types = None\<rparr> sid)) = [None]"
  by (simp add: encodeQueryParam_def buildQueryRequestPayload_def buildLibpqQueryParams_def js_default_def BuildParams_def push_param_def)

text \<open>The requests of the client pass the server's checks: a query is refused only for another host index or
  for the length of its text, and a connection is asked of the server's own PostgreSQL host, whatever host the client names.\<close>

theorem client_requests_accepted:
  "(query_refused config (buildQueryRequestPayload hostIndex req sessionId) \<longleftrightarrow>
     host_refused config hostIndex \<or> max_query_text_bytes config < cast_int32 (int (length (js_default (jq_text req) [])))) \<and>
   BuildConnectParams config (buildConnectRequest hostIndex credentials roleHost) =
     \<lparr>cp_pg_host = pg_host config, cp_port = (if jc_port credentials > 0 then jc_port credentials else 5432), cp_dbname = jc_database credentials,
      cp_user = jc_user credentials, cp_password = jc_password credentials, cp_connect_timeout_sec = pg_connect_timeout_sec config,
      cp_statement_timeout_ms = statement_timeout_ms config\<rparr>"
  by (simp add: query_refused_def buildQueryRequestPayload_def BuildConnectParams_def buildConnectRequest_def ResolveDbName_def)

end
