(* ===== verification/Pg_Cell.thy ===== *)
theory Pg_Cell
  imports Query_Client
begin

text \<open>
  The conversion of a cell by its type, \<open>decodePgCell\<close> in \<open>src/integration/lib/pg-binary-decode.js\<close>, the last step
  of the client's reader. Cells in text format are text; cells in binary format are read by their type. The wire format
  of PostgreSQL is the specification. A JavaScript string stands for its UTF-8 bytes, so decoding a buffer as UTF-8 is a
  parameter, which leaves valid text as it is; a float is its IEEE 754 bit pattern; times are computed
  with the doubles of \<open>Js_Number\<close>. A read past the end of a buffer throws.
\<close>

section \<open>The reader\<close>

datatype js_cell = CBool bool | CNumber int | CText string | CBytes string | CFloat nat | CDate "int option" | CNull

definition be_nat :: "string \<Rightarrow> nat" where
  "be_nat bytes = foldl (\<lambda>a c. 256 * a + of_char c) 0 bytes"

text \<open>\<open>Buffer.readInt16BE\<close>, \<open>readInt32BE\<close> and \<open>readBigInt64BE\<close>, by the number of bytes.\<close>

definition signed :: "nat \<Rightarrow> nat \<Rightarrow> int" where
  "signed k n = (if n < 2 ^ (8 * k - 1) then int n else int n - 2 ^ (8 * k))"

definition readBE :: "nat \<Rightarrow> string \<Rightarrow> nat \<Rightarrow> int cxx" where
  "readBE k buffer offset =
     (if offset + k \<le> length buffer then Inr (signed k (be_nat (take k (drop offset buffer))))
      else Inl (RuntimeError ''ERR_OUT_OF_RANGE''))"

abbreviation readI16BE :: "string \<Rightarrow> nat \<Rightarrow> int cxx" where "readI16BE \<equiv> readBE 2"
abbreviation readI32BE :: "string \<Rightarrow> nat \<Rightarrow> int cxx" where "readI32BE \<equiv> readBE 4"
abbreviation readI64BE :: "string \<Rightarrow> nat \<Rightarrow> int cxx" where "readI64BE \<equiv> readBE 8"

text \<open>\<open>readFloatLE\<close> and \<open>readDoubleLE\<close>.\<close>

definition readFloat :: "nat \<Rightarrow> string \<Rightarrow> nat cxx" where
  "readFloat k buffer = (if k \<le> length buffer then Inr (be_nat (rev (take k buffer))) else Inl (RuntimeError ''ERR_OUT_OF_RANGE''))"

definition pgDateToJsDate :: "int \<Rightarrow> js_cell" where
  "pgDateToJsDate pgDays =
     (let unixDays = pgDays + 10957
      in CDate (js_Date (dbl (of_int (unixDays * 86400000)))))"

text \<open>The sum of the whole milliseconds and the thousandths is \<open>js_millis\<close>.\<close>

definition pgTimestampToJsDate :: "int \<Rightarrow> js_cell" where
  "pgTimestampToJsDate pgMicros =
     (let unixMicros = pgMicros + 946684800000000;
          ms = dbl (of_int (js_Number (big_div unixMicros 1000)) + dbl (of_int (js_Number (big_mod unixMicros 1000)) / 1000))
      in CDate (js_Date ms))"

definition zeros :: "int \<Rightarrow> string" where
  "zeros n = replicate (4 * nat n) (CHR ''0'')"

definition padStart :: "nat \<Rightarrow> string \<Rightarrow> string" where
  "padStart n s = replicate (n - length s) (CHR ''0'') @ s"

definition numeric_digit :: "string \<Rightarrow> int \<Rightarrow> nat \<Rightarrow> string \<Rightarrow> string cxx" where
  "numeric_digit buffer weight i coeff =
     cxx_bind (readI16BE buffer (8 + i * 2)) (\<lambda>digit.
     let exponent = weight - int i
     in if exponent < 0 then Inr coeff
        else if coeff = [] then Inr (to_string digit @ zeros exponent)
        else Inr (coeff @ padStart 4 (to_string digit) @ zeros (max 0 (exponent - 1))))"

definition insert_point :: "int \<Rightarrow> string \<Rightarrow> string" where
  "insert_point dscale coeff =
     (if dscale > 0 then
        let coeff = padStart (nat dscale + 1) coeff; k = length coeff - nat dscale
        in take k coeff @ ''.'' @ drop k coeff
      else coeff)"

definition decodeNumericBinary :: "string \<Rightarrow> js_cell cxx" where
  "decodeNumericBinary buffer =
     (if length buffer < 8 then Inl (RuntimeError ''numeric binary too short'')
      else
        cxx_bind (readI16BE buffer 0) (\<lambda>ndigits.
        cxx_bind (readI16BE buffer 2) (\<lambda>weight.
        cxx_bind (readI16BE buffer 4) (\<lambda>sign.
        cxx_bind (readI16BE buffer 6) (\<lambda>dscale.
        if sign = 0xc000 then Inr CNull
        else
          cxx_bind (for_each (numeric_digit buffer weight) [0..<nat ndigits] []) (\<lambda>coeff.
          let coeff = insert_point dscale (if coeff = [] then ''0'' else coeff)
          in Inr (CText (if sign = 0x4000 \<and> coeff \<noteq> ''0'' then CHR ''-'' # coeff else coeff))))))))"

definition hex_bytes :: "string \<Rightarrow> string" where
  "hex_bytes bytes = concat (map (\<lambda>c. [hex_digit (of_char c div 16), hex_digit (of_char c mod 16)]) bytes)"

definition uuidBytesToString :: "string \<Rightarrow> string" where
  "uuidBytesToString bytes =
     (let hex = hex_bytes bytes
      in take 8 hex @ ''-'' @ take 4 (drop 8 hex) @ ''-'' @ take 4 (drop 12 hex) @ ''-'' @ take 4 (drop 16 hex) @ ''-'' @ drop 20 hex)"

definition decodePgCell :: "(string \<Rightarrow> string) \<Rightarrow> FieldInfo \<Rightarrow> string \<Rightarrow> js_cell cxx" where
  "decodePgCell utf8 field bytes =
     (let oid = fi_data_type_oid field in
      if fi_format field = 0 then
        let text = utf8 bytes
        in if oid = 16 then Inr (CBool (text = ''t'' \<or> text = ''T'' \<or> text = ''1'')) else Inr (CText text)
      else if oid = 16 then Inr (CBool (bytes \<noteq> [] \<and> hd bytes \<noteq> CHR 0x00))
      else if oid = 21 then map_sum id CNumber (readI16BE bytes 0)
      else if oid = 23 then map_sum id CNumber (readI32BE bytes 0)
      else if oid = 20 then map_sum id (\<lambda>n. CText (to_string n)) (readI64BE bytes 0)
      else if oid = 700 then map_sum id CFloat (readFloat 4 bytes)
      else if oid = 701 then map_sum id CFloat (readFloat 8 bytes)
      else if oid = 17 then Inr (CBytes bytes)
      else if oid = 1082 then map_sum id pgDateToJsDate (readI32BE bytes 0)
      else if oid = 1114 \<or> oid = 1184 then map_sum id pgTimestampToJsDate (readI64BE bytes 0)
      else if oid = 2950 then Inr (CText (uuidBytesToString bytes))
      else if oid = 1700 then decodeNumericBinary bytes
      else Inr (CText (utf8 bytes)))"

section \<open>The wire format of PostgreSQL\<close>

text \<open>Big-endian two's complement; a number of type \<open>numeric\<close> is a list of digits to the base 10000.\<close>

definition be_bytes :: "nat \<Rightarrow> int \<Rightarrow> string" where
  "be_bytes k n = map (\<lambda>i. char_of (nat (n mod 2 ^ (8 * k)) div 256 ^ i mod 256)) (rev [0..<k])"

definition numeric_send :: "int \<Rightarrow> int \<Rightarrow> int \<Rightarrow> int list \<Rightarrow> string" where
  "numeric_send weight sign dscale digits = concat (map (be_bytes 2) ([int (length digits), weight, sign, dscale] @ digits))"

lemma length_be_bytes [simp]: "length (be_bytes k n) = k"
  by (simp add: be_bytes_def)

lemma be_nat_digits: "be_nat (map (\<lambda>i. char_of (m div 256 ^ i mod 256)) (rev [0..<k])) = m mod 256 ^ k"
proof (induction k arbitrary: m)
  case (Suc k)
  have shift: "map (\<lambda>i. char_of (m div 256 ^ i mod 256) :: char) (rev [0..<Suc k]) =
      map (\<lambda>i. char_of (m div 256 div 256 ^ i mod 256)) (rev [0..<k]) @ [char_of (m mod 256)]"
    by (simp add: upt_rec [of 0 "Suc k"] map_Suc_upt [symmetric] rev_map div_mult2_eq del: upt_Suc)
  have "be_nat (map (\<lambda>i. char_of (m div 256 ^ i mod 256)) (rev [0..<Suc k])) = 256 * (m div 256 mod 256 ^ k) + m mod 256"
    unfolding shift using Suc.IH [of "m div 256"] by (simp add: be_nat_def)
  also have "\<dots> = m mod 256 ^ Suc k" by (simp add: mod_mult2_eq)
  finally show ?case .
qed (simp add: be_nat_def)

lemma signed_mod:
  assumes "0 < k" "- (2 ^ (8 * k - 1)) \<le> n" "n < 2 ^ (8 * k - 1)"
  shows "signed k (nat (n mod 2 ^ (8 * k))) = n"
proof -
  have two: "(2 :: int) ^ (8 * k) = 2 * 2 ^ (8 * k - 1)" using assms(1) by (metis power_Suc Suc_pred' mult_pos_pos zero_less_numeral)
  show ?thesis
  proof (cases "0 \<le> n")
    case True
    with assms two have "n mod 2 ^ (8 * k) = n" by (intro mod_pos_pos_trivial) auto
    with True assms show ?thesis by (simp add: signed_def nat_less_iff)
  next
    case False
    have "n mod 2 ^ (8 * k) = (n + 2 ^ (8 * k)) mod 2 ^ (8 * k)" by simp
    also have "\<dots> = n + 2 ^ (8 * k)" using assms False two by (intro mod_pos_pos_trivial) auto
    finally show ?thesis using assms False two by (auto simp: signed_def nat_less_iff)
  qed
qed

lemma readBE_be_bytes:
  assumes "0 < k" "- (2 ^ (8 * k - 1)) \<le> n" "n < 2 ^ (8 * k - 1)" "take k (drop offset buffer) = be_bytes k n"
  shows "readBE k buffer offset = Inr n"
proof -
  have "k \<le> length (drop offset buffer)" using assms(1,4) by (metis length_be_bytes length_take min.cobounded1)
  moreover have "be_nat (be_bytes k n) = nat (n mod 2 ^ (8 * k))"
  proof -
    have "nat (n mod 2 ^ (8 * k)) < 256 ^ k" by (simp add: nat_less_iff power_mult)
    then show ?thesis unfolding be_bytes_def be_nat_digits by simp
  qed
  ultimately show ?thesis using assms by (auto simp: readBE_def signed_mod)
qed

section \<open>What the client gets\<close>

text \<open>
  Values as PostgreSQL has them, and the bytes it sends for them in binary format. Of the
  numbers of type \<open>numeric\<close> only the whole ones with one digit to the base 10000, at any weight, are among them, and no floats.
\<close>

datatype pg_value = PgBool bool | PgInt2 int | PgInt4 int | PgInt8 int | PgBytea string | PgDate int | PgTimestamp int |
  PgTimestamptz int | PgUuid string | PgText string | PgNumeric nat nat

primrec pg_oid :: "pg_value \<Rightarrow> 32 word" where
  "pg_oid (PgBool b) = 16"
| "pg_oid (PgInt2 n) = 21"
| "pg_oid (PgInt4 n) = 23"
| "pg_oid (PgInt8 n) = 20"
| "pg_oid (PgBytea b) = 17"
| "pg_oid (PgDate d) = 1082"
| "pg_oid (PgTimestamp t) = 1114"
| "pg_oid (PgTimestamptz t) = 1184"
| "pg_oid (PgUuid u) = 2950"
| "pg_oid (PgText t) = 25"
| "pg_oid (PgNumeric d w) = 1700"

primrec pg_send :: "pg_value \<Rightarrow> string" where
  "pg_send (PgBool b) = [if b then CHR 0x01 else CHR 0x00]"
| "pg_send (PgInt2 n) = be_bytes 2 n"
| "pg_send (PgInt4 n) = be_bytes 4 n"
| "pg_send (PgInt8 n) = be_bytes 8 n"
| "pg_send (PgBytea b) = b"
| "pg_send (PgDate d) = be_bytes 4 d"
| "pg_send (PgTimestamp t) = be_bytes 8 t"
| "pg_send (PgTimestamptz t) = be_bytes 8 t"
| "pg_send (PgUuid u) = u"
| "pg_send (PgText t) = t"
| "pg_send (PgNumeric d w) = (if d = 0 then numeric_send 0 0 0 [] else numeric_send (int w) 0 0 [int d])"

definition in_range :: "nat \<Rightarrow> int \<Rightarrow> bool" where
  "in_range k n \<longleftrightarrow> - (2 ^ (8 * k - 1)) \<le> n \<and> n < 2 ^ (8 * k - 1)"

text \<open>The milliseconds since 1970 of a time in microseconds since 2000, cut towards zero.\<close>

definition unix_millis :: "int \<Rightarrow> int" where
  "unix_millis t = (let u = t + 946684800000000 in if 0 \<le> u then u div 1000 else - (- u div 1000))"

text \<open>Valid text, and times within \<open>2 ^ 44\<close> milliseconds of 1970, which is from the year 1412 to 2527: for later ones the rounding of
  the client's sum may carry to the next millisecond.\<close>

primrec pg_value_ok :: "pg_value \<Rightarrow> bool" where
  "pg_value_ok (PgBool b) = True"
| "pg_value_ok (PgInt2 n) = in_range 2 n"
| "pg_value_ok (PgInt4 n) = in_range 4 n"
| "pg_value_ok (PgInt8 n) = in_range 8 n"
| "pg_value_ok (PgBytea b) = True"
| "pg_value_ok (PgDate d) = in_range 4 d"
| "pg_value_ok (PgTimestamp t) = (in_range 8 t \<and> \<bar>unix_millis t\<bar> < 2 ^ 44)"
| "pg_value_ok (PgTimestamptz t) = (in_range 8 t \<and> \<bar>unix_millis t\<bar> < 2 ^ 44)"
| "pg_value_ok (PgUuid u) = (length u = 16)"
| "pg_value_ok (PgText t) = utf8_ok t"
| "pg_value_ok (PgNumeric d w) = (d < 10000 \<and> w < 32768)"

text \<open>The textual form of a UUID, read: 36 characters, hyphens at four places, and two hexadecimal digits for each byte.\<close>

definition hex_value :: "char \<Rightarrow> nat option" where
  "hex_value c =
     (let n = of_char c in if 48 \<le> n \<and> n \<le> 57 then Some (n - 48) else if 97 \<le> n \<and> n \<le> 102 then Some (n - 87) else None)"

fun hex_read :: "string \<Rightarrow> string option" where
  "hex_read [] = Some []"
| "hex_read [a] = None"
| "hex_read (a # b # s) =
     (case (hex_value a, hex_value b, hex_read s) of
        (Some x, Some y, Some bytes) \<Rightarrow> Some (char_of (16 * x + y) # bytes)
      | _ \<Rightarrow> None)"

definition uuid_read :: "string \<Rightarrow> string option" where
  "uuid_read s =
     (if length s = 36 \<and> list_all (\<lambda>i. s ! i = CHR ''-'') [8, 13, 18, 23] then hex_read (filter (\<lambda>c. c \<noteq> CHR ''-'') s) else None)"

text \<open>What a value is in the client: numbers as they are, those of 64 bits and of type \<open>numeric\<close> as their decimal digits, dates and
  timestamps as a \<open>Date\<close> with the time in milliseconds since 1970, invalid if it is out of the range of times, a UUID in its textual form.\<close>

primrec shows_value :: "pg_value \<Rightarrow> js_cell \<Rightarrow> bool" where
  "shows_value (PgBool b) cell = (cell = CBool b)"
| "shows_value (PgInt2 n) cell = (cell = CNumber n)"
| "shows_value (PgInt4 n) cell = (cell = CNumber n)"
| "shows_value (PgInt8 n) cell = (cell = CText (to_string n))"
| "shows_value (PgBytea b) cell = (cell = CBytes b)"
| "shows_value (PgDate d) cell =
     (let t = 86400000 * d + 946684800000 in cell = CDate (if \<bar>t\<bar> \<le> 8640000000000000 then Some t else None))"
| "shows_value (PgTimestamp t) cell = (cell = CDate (Some (unix_millis t)))"
| "shows_value (PgTimestamptz t) cell = (cell = CDate (Some (unix_millis t)))"
| "shows_value (PgUuid u) cell = (case cell of CText s \<Rightarrow> uuid_read s = Some u | _ \<Rightarrow> False)"
| "shows_value (PgText t) cell = (cell = CText t)"
| "shows_value (PgNumeric d w) cell = (cell = CText (nat_to_string (d * 10000 ^ w)))"

lemma char_of_zero [simp]: "char_of (48 :: nat) = CHR ''0''"
proof -
  have "of_char (CHR ''0'') = (48 :: nat)" by simp
  then show ?thesis by (metis char_of_char)
qed

lemma nat_to_string_zeros:
  assumes "0 < d"
  shows "nat_to_string (d * 10 ^ k) = nat_to_string d @ replicate k (CHR ''0'')"
proof (induction k)
  case (Suc k)
  have "nat_to_string (d * 10 ^ Suc k) = nat_to_string (d * 10 ^ k) @ [CHR ''0'']"
    using assms by (subst nat_to_string.simps) auto
  with Suc.IH show ?case by (simp add: replicate_append_same)
qed simp

lemma numeric_send_fields:
  assumes "in_range 2 weight" "in_range 2 sign" "in_range 2 dscale" "length digits < 32768"
  shows "readI16BE (numeric_send weight sign dscale digits) 0 = Inr (int (length digits))"
    "readI16BE (numeric_send weight sign dscale digits) 2 = Inr weight"
    "readI16BE (numeric_send weight sign dscale digits) 4 = Inr sign"
    "readI16BE (numeric_send weight sign dscale digits) 6 = Inr dscale"
    "8 \<le> length (numeric_send weight sign dscale digits)"
    "\<forall>d \<in> set digits. in_range 2 d \<Longrightarrow> i < length digits \<Longrightarrow>
       readI16BE (numeric_send weight sign dscale digits) (8 + i * 2) = Inr (digits ! i)"
proof -
  have at: "take 2 (drop (i * 2) (concat (map (be_bytes 2) ns))) = be_bytes 2 (ns ! i)" if "i < length ns" for i ns
    using that
  proof (induction ns arbitrary: i)
    case (Cons n ns)
    then show ?case by (cases i) (simp_all add: take_append)
  qed simp
  let ?all = "[int (length digits), weight, sign, dscale] @ digits"
  have read: "readI16BE (numeric_send weight sign dscale digits) (i * 2) = Inr (?all ! i)" if "i < length ?all" "in_range 2 (?all ! i)" for i
    unfolding numeric_send_def by (rule readBE_be_bytes [OF _ _ _ at]) (use that in \<open>auto simp: in_range_def\<close>)
  show "readI16BE (numeric_send weight sign dscale digits) 0 = Inr (int (length digits))"
    "readI16BE (numeric_send weight sign dscale digits) 2 = Inr weight"
    "readI16BE (numeric_send weight sign dscale digits) 4 = Inr sign"
    "readI16BE (numeric_send weight sign dscale digits) 6 = Inr dscale"
    using read [of 0] read [of 1] read [of 2] read [of 3] assms by (simp_all add: in_range_def)
  show "8 \<le> length (numeric_send weight sign dscale digits)" by (simp add: numeric_send_def)
  show "readI16BE (numeric_send weight sign dscale digits) (8 + i * 2) = Inr (digits ! i)"
    if "\<forall>d \<in> set digits. in_range 2 d" "i < length digits"
    using read [of "4 + i"] that by (simp add: nth_append)
qed

lemma decodeNumericBinary_whole:
  assumes "d < 10000" "w < 32768"
  shows "decodeNumericBinary (pg_send (PgNumeric d w)) = Inr (CText (nat_to_string (d * 10000 ^ w)))"
proof (cases "d = 0")
  case True
  with numeric_send_fields [of 0 0 0 "[]"] show ?thesis
    by (simp add: decodeNumericBinary_def in_range_def insert_point_def nat_to_string.simps [of 0])
next
  case False
  have "(10000 :: nat) ^ w = 10 ^ (4 * w)" by (simp add: power_mult)
  with False have "nat_to_string (d * 10000 ^ w) = to_string (int d) @ zeros (int w)"
    by (simp add: nat_to_string_zeros zeros_def to_string_def)
  with False numeric_send_fields [of "int w" 0 0 "[int d]"] numeric_send_fields(6) [of "int w" 0 0 "[int d]" 0] assms show ?thesis
    by (simp add: decodeNumericBinary_def in_range_def insert_point_def numeric_digit_def to_string_def)
qed

lemma hex_value_digit [simp]: "n < 16 \<Longrightarrow> hex_value (hex_digit n) = Some n"
  by (simp add: hex_value_def hex_digit_def)

lemma high_digit [simp]: "of_char c div 16 < (16 :: nat)"
  by (rule less_mult_imp_div_less) simp

lemma hex_read_bytes: "hex_read (hex_bytes bytes) = Some bytes"
proof (induction bytes)
  case (Cons c bytes)
  have "16 * (of_char c div 16) + of_char c mod 16 = (of_char c :: nat)" by (rule mult_div_mod_eq)
  with Cons show ?case by (simp add: hex_bytes_def)
qed (simp add: hex_bytes_def)

lemma length_hex_bytes [simp]: "length (hex_bytes bytes) = 2 * length bytes"
  by (simp add: hex_bytes_def length_concat comp_def sum_list_triv)

lemma hex_bytes_no_hyphen: "CHR ''-'' \<notin> set (hex_bytes bytes)"
proof -
  have "hex_value (CHR ''-'') = None" by (simp add: hex_value_def)
  then have "CHR ''-'' \<noteq> hex_digit n" if "n < 16" for n using hex_value_digit [OF that] by auto
  then show ?thesis by (simp add: hex_bytes_def)
qed

lemma uuid_read_bytes:
  assumes "length u = 16"
  shows "uuid_read (uuidBytesToString u) = Some u"
proof -
  let ?hex = "hex_bytes u"
  have len: "length ?hex = 32" using assms by simp
  have keep: "filter (\<lambda>c. c \<noteq> CHR ''-'') xs = xs" if "set xs \<subseteq> set ?hex" for xs
    using that hex_bytes_no_hyphen [of u] by (auto intro!: filter_True)
  have "take 8 ?hex @ take 4 (drop 8 ?hex) @ take 4 (drop 12 ?hex) @ take 4 (drop 16 ?hex) @ drop 20 ?hex = ?hex"
    using append_take_drop_id [of 4 "drop 16 ?hex"] append_take_drop_id [of 4 "drop 12 ?hex"]
      append_take_drop_id [of 4 "drop 8 ?hex"] by simp
  then have "filter (\<lambda>c. c \<noteq> CHR ''-'') (uuidBytesToString u) = ?hex"
    by (simp add: uuidBytesToString_def Let_def keep set_take_subset order_trans [OF set_take_subset set_drop_subset] set_drop_subset)
  moreover have "length (uuidBytesToString u) = 36" using len by (simp add: uuidBytesToString_def Let_def)
  moreover have "list_all (\<lambda>i. uuidBytesToString u ! i = CHR ''-'') [8, 13, 18, 23]"
    using len by (simp add: uuidBytesToString_def Let_def nth_append)
  ultimately show ?thesis by (simp add: uuid_read_def hex_read_bytes)
qed

lemma big_div_millis: "big_div (t + 946684800000000) 1000 = unix_millis t"
  by (auto simp: big_div_def unix_millis_def sgn_if Let_def)

lemma pgTimestampToJsDate_millis:
  "\<bar>unix_millis t\<bar> < 2 ^ 44 \<Longrightarrow> pgTimestampToJsDate t = CDate (Some (unix_millis t))"
  using js_Date_millis [of "t + 946684800000000"] by (simp add: pgTimestampToJsDate_def js_millis_def big_div_millis)

text \<open>The product of the days is a double: it is a multiple of \<open>2 ^ 10\<close>.\<close>

lemma pgDateToJsDate_millis:
  assumes "in_range 4 d"
  shows "shows_value (PgDate d) (pgDateToJsDate d)"
proof -
  have "\<bar>(d + 10957) * 84375\<bar> \<le> 2 ^ 53" using assms by (simp add: in_range_def abs_le_iff)
  from dbl_int [OF this] have "dbl (of_int ((d + 10957) * 84375) * 2 ^ 10) = of_int ((d + 10957) * 84375) * 2 ^ 10"
    unfolding dbl_scale by simp
  then have "dbl (of_int ((d + 10957) * 86400000)) = of_int ((d + 10957) * 86400000)"
    by (simp add: ring_distribs mult.commute [of "of_int d"])
  then show ?thesis by (simp add: pgDateToJsDate_def Let_def ring_distribs mult.commute del: of_int_mult of_int_add)
qed

text \<open>C13: the client gets the value PostgreSQL has. A cell of a binary result, sent in the documented wire format of its type, is
  converted to that value, without an exception, for booleans, the integer types, byte strings, dates, timestamps within \<open>2 ^ 44\<close> milliseconds
  of 1970 (cut to milliseconds), UUIDs, text of valid UTF-8, and whole numbers of type \<open>numeric\<close> that are one digit to the base 10000 followed by zeros. Floats and all
  other numbers of type \<open>numeric\<close> are not covered: the client converts them wrongly.\<close>

theorem decodePgCell_reads_wire_format:
  assumes "\<forall>s. utf8_ok s \<longrightarrow> utf8 s = s" and "pg_value_ok v" and "fi_format field \<noteq> 0" "fi_data_type_oid field = pg_oid v"
  shows "\<exists>cell. decodePgCell utf8 field (pg_send v) = Inr cell \<and> shows_value v cell"
proof -
  have read: "readBE k (be_bytes k n) 0 = Inr n" if "in_range k n" "0 < k" for k n
    using that by (intro readBE_be_bytes) (auto simp: in_range_def)
  show ?thesis
    using assms read [of 2] read [of 4] read [of 8] pgDateToJsDate_millis
    by (cases v) (simp_all add: decodePgCell_def Let_def pgTimestampToJsDate_millis uuid_read_bytes decodeNumericBinary_whole [simplified])
qed

theorem decodePgCell_reads_wire_format_witness:
  "\<exists>cell. decodePgCell id \<lparr>fi_name = ''t'', fi_table_oid = 0, fi_column_id = 0, fi_data_type_oid = 1114, fi_format = 1\<rparr> (be_bytes 8 1500001) = Inr cell \<and>
     cell = CDate (Some 946684801500)"
  using decodePgCell_reads_wire_format [of id "PgTimestamp 1500001"
      "\<lparr>fi_name = ''t'', fi_table_oid = 0, fi_column_id = 0, fi_data_type_oid = 1114, fi_format = 1\<rparr>"]
  by (simp add: in_range_def unix_millis_def)

text \<open>
  Numbers of type \<open>numeric\<close> with more than one digit, or with a fraction, are converted to other numbers: 12345 to 100002345
  and 1.5 to 0.1. The test for \<open>NaN\<close> compares a signed read with an unsigned constant, so \<open>NaN\<close> becomes 0.
\<close>

theorem decodeNumericBinary_wrong:
  "decodeNumericBinary (numeric_send 1 0 0 [1, 2345]) = Inr (CText ''100002345'') \<and>
   decodeNumericBinary (numeric_send 0 0 1 [1, 5000]) = Inr (CText ''0.1'') \<and>
   decodeNumericBinary (numeric_send 0 0xC000 0 []) = Inr (CText ''0'')"
proof (intro conjI)
  have eval: "[0..<2] = [0, 1 :: nat]" "nat_to_string (Suc 0) = ''1''" "nat_to_string 2345 = ''2345''" "zeros 0 = []" "zeros 1 = ''0000''" by code_simp+
  show "decodeNumericBinary (numeric_send 1 0 0 [1, 2345]) = Inr (CText ''100002345'')"
    using numeric_send_fields [of 1 0 0 "[1, 2345]"] numeric_send_fields(6) [of 1 0 0 "[1, 2345]" 0] numeric_send_fields(6) [of 1 0 0 "[1, 2345]" 1]
    by (simp add: decodeNumericBinary_def in_range_def numeric_digit_def insert_point_def padStart_def to_string_def eval)
  show "decodeNumericBinary (numeric_send 0 0 1 [1, 5000]) = Inr (CText ''0.1'')"
    using numeric_send_fields [of 0 0 1 "[1, 5000]"] numeric_send_fields(6) [of 0 0 1 "[1, 5000]" 0] numeric_send_fields(6) [of 0 0 1 "[1, 5000]" 1]
    by (simp add: decodeNumericBinary_def in_range_def numeric_digit_def insert_point_def padStart_def to_string_def eval)
  have "numeric_send 0 0xC000 0 [] = numeric_send 0 (- 16384) 0 []" by (simp add: numeric_send_def be_bytes_def)
  with numeric_send_fields [of 0 "- 16384" 0 "[]"] show "decodeNumericBinary (numeric_send 0 0xC000 0 []) = Inr (CText ''0'')"
    by (simp add: decodeNumericBinary_def in_range_def insert_point_def)
qed

text \<open>PostgreSQL sends the bytes of a float most significant first, as those of an integer; the client reads them in the other order.\<close>

theorem floats_read_reversed:
  assumes "fi_format field \<noteq> 0" "fi_data_type_oid field = 700"
  shows "decodePgCell utf8 field (be_bytes 4 0x3F800000) = Inr (CFloat 0x803F)"
proof -
  have "rev [0..<4] = [3, 2, 1, 0 :: nat]" by (simp add: eval_nat_numeral)
  then have "be_nat (rev (be_bytes 4 0x3F800000)) = 0x803F" by (simp add: be_bytes_def be_nat_def)
  with assms show ?thesis by (simp add: decodePgCell_def readFloat_def)
qed

end
