(* ===== verification/Config_Windows.thy ===== *)
theory Config_Windows
  imports Server_Config
begin

text \<open>
  The configuration as compiled for Windows, \<open>src/src/config.cpp\<close> with \<open>_WIN32\<close>: the server listens on TCP by default, and
  in production it must, on the loopback interface unless a public address is explicitly allowed. The rest of
  the loading is that of \<open>Server_Config\<close>.
\<close>

definition ParseListen_windows :: "string option \<Rightarrow> ServerConfig \<Rightarrow> ServerConfig cxx" where
  "ParseListen_windows val config = (if env_unset val then Inr (config\<lparr>listen_mode := Tcp\<rparr>) else ParseListen val config)"

definition ValidateProductionConfig_windows :: "environ \<Rightarrow> ServerConfig \<Rightarrow> unit cxx" where
  "ValidateProductionConfig_windows getenv config =
     (if \<not> production_mode config then Inr ()
      else if host_index config = None
      then Inl (RuntimeError ''MTDD_HOST_INDEX is required when MTDD_ENV=production'')
      else if listen_mode config \<noteq> Tcp
      then Inl (RuntimeError ''unix domain sockets are not supported on Windows; use host:port for MTDD_LISTEN'')
      else if \<not> IsLoopbackAddress (listen_address config) then
        cxx_bind (ParseBoolEnv (getenv ''MTDD_ALLOW_PUBLIC_BIND'') False)
          (\<lambda>allow. if \<not> allow
             then Inl (RuntimeError (''MTDD_LISTEN must bind to loopback in production ''
                @ ''(set MTDD_ALLOW_PUBLIC_BIND=1 to override)''))
             else Inr ())
      else Inr ())"

definition LoadConfigFromEnv_windows :: "environ \<Rightarrow> int \<Rightarrow> ServerConfig cxx" where
  "LoadConfigFromEnv_windows getenv hw =
     cxx_bind (RejectServerTlsEnv getenv) (\<lambda>_.
     cxx_bind (ParseListen_windows (getenv ''MTDD_LISTEN'') ServerConfig_init) (\<lambda>config.
     cxx_bind (load_pg getenv hw config) (\<lambda>config.
     cxx_bind (load_limits getenv config) (\<lambda>config.
     cxx_bind (load_socket_modes getenv config) (\<lambda>config.
     cxx_bind (ValidateProductionConfig_windows getenv config) (\<lambda>_.
     Inr config))))))"

text \<open>What the steps after the listen address leave of it.\<close>

lemma load_keeps_listen:
  "load_pg getenv hw c = Inr c' \<Longrightarrow> listen_mode c' = listen_mode c \<and> listen_address c' = listen_address c"
  "load_limits getenv c = Inr c' \<Longrightarrow> listen_mode c' = listen_mode c \<and> listen_address c' = listen_address c"
  "load_socket_modes getenv c = Inr c' \<Longrightarrow> listen_mode c' = listen_mode c \<and> listen_address c' = listen_address c"
  unfolding load_pg_def load_limits_def load_socket_modes_def Let_def by auto

text \<open>A Windows server never listens on a unix socket in production and not beyond the loopback interface unless that is
  allowed by name; it has a host index there; and without \<open>MTDD_LISTEN\<close> it listens on TCP on the loopback interface in any mode.\<close>

theorem LoadConfigFromEnv_windows_safe:
  assumes "LoadConfigFromEnv_windows getenv hw = Inr config"
  shows "(production_mode config \<longrightarrow> host_index config \<noteq> None \<and> listen_mode config = Tcp \<and>
      (IsLoopbackAddress (listen_address config) \<or> ParseBoolEnv (getenv ''MTDD_ALLOW_PUBLIC_BIND'') False = Inr True)) \<and>
    (env_unset (getenv ''MTDD_LISTEN'') \<longrightarrow> listen_mode config = Tcp \<and> IsLoopbackAddress (listen_address config))"
proof -
  from assms obtain c c1 c2 where steps: "ParseListen_windows (getenv ''MTDD_LISTEN'') ServerConfig_init = Inr c" "load_pg getenv hw c = Inr c1"
      "load_limits getenv c1 = Inr c2" "load_socket_modes getenv c2 = Inr config"
    and valid: "ValidateProductionConfig_windows getenv config = Inr ()"
    unfolding LoadConfigFromEnv_windows_def by auto
  have "listen_mode config = listen_mode c" "listen_address config = listen_address c"
    using load_keeps_listen(1) [OF steps(2)] load_keeps_listen(2) [OF steps(3)] load_keeps_listen(3) [OF steps(4)] by simp_all
  moreover have "env_unset (getenv ''MTDD_LISTEN'') \<Longrightarrow> listen_mode c = Tcp \<and> IsLoopbackAddress (listen_address c)"
    using steps(1) by (auto simp: ParseListen_windows_def ServerConfig_init_def IsLoopbackAddress_def)
  ultimately show ?thesis
    using valid by (auto simp: ValidateProductionConfig_windows_def split: if_splits)
qed

theorem LoadConfigFromEnv_windows_safe_witness:
  "\<exists>config. LoadConfigFromEnv_windows [''MTDD_ENV'' \<mapsto> ''production'', ''MTDD_HOST_INDEX'' \<mapsto> ''2''] 4 = Inr config \<and>
     listen_mode config = Tcp \<and> IsLoopbackAddress (listen_address config)"
proof -
  let ?env = "[''MTDD_ENV'' \<mapsto> ''production'', ''MTDD_HOST_INDEX'' \<mapsto> ''2'']"
  obtain config where load: "LoadConfigFromEnv_windows ?env 4 = Inr config"
    by (simp add: LoadConfigFromEnv_windows_def ParseListen_windows_def ValidateProductionConfig_windows_def IsLoopbackAddress_def config_eval)
  with LoadConfigFromEnv_windows_safe [OF load] show ?thesis by (auto simp: env_unset_def)
qed

end
