(* ===== verification/Cxx_Io.thy ===== *)
theory Cxx_Io
  imports Cxx_Prelude
begin

text \<open>
  Computations on a state that may throw: what they changed before the exception stays changed. They
  always end, so a specification of one is a relation between its result and its final state.
\<close>

type_synonym ('s, 'a) io = "'s \<Rightarrow> 'a cxx \<times> 's"

definition io_ret :: "'a \<Rightarrow> ('s, 'a) io" where
  "io_ret a s = (Inr a, s)"

definition io_throw :: "string \<Rightarrow> ('s, 'a) io" where
  "io_throw what s = (Inl (RuntimeError what), s)"

definition io_of :: "'a cxx \<Rightarrow> ('s, 'a) io" where
  "io_of r s = (r, s)"

definition io_bind :: "('s, 'a) io \<Rightarrow> ('a \<Rightarrow> ('s, 'b) io) \<Rightarrow> ('s, 'b) io" where
  "io_bind m f s = (case m s of (Inl e, s') \<Rightarrow> (Inl e, s') | (Inr a, s') \<Rightarrow> f a s')"

definition io_get :: "('s \<Rightarrow> 'a) \<Rightarrow> ('s, 'a) io" where
  "io_get f s = (Inr (f s), s)"

definition io_upd :: "('s \<Rightarrow> 's) \<Rightarrow> ('s, unit) io" where
  "io_upd f s = (Inr (), f s)"

text \<open>\<open>try\<close> with a handler for every exception.\<close>

definition io_catch :: "('s, 'a) io \<Rightarrow> (cxx_error \<Rightarrow> ('s, 'a) io) \<Rightarrow> ('s, 'a) io" where
  "io_catch m h s = (case m s of (Inl e, s') \<Rightarrow> h e s' | (Inr a, s') \<Rightarrow> (Inr a, s'))"

text \<open>The condition that holds of the result and the state afterwards.\<close>

definition io_post :: "('s, 'a) io \<Rightarrow> ('a cxx \<Rightarrow> 's \<Rightarrow> bool) \<Rightarrow> 's \<Rightarrow> bool" where
  "io_post m Q s = Q (fst (m s)) (snd (m s))"

named_theorems io_simps \<open>what holds after each construct\<close>

lemma io_post_basic [io_simps]:
  "io_post (io_ret a) Q = Q (Inr a)"
  "io_post (io_throw what) Q = Q (Inl (RuntimeError what))"
  "io_post (io_of r) Q = Q r"
  "io_post (io_get f) Q = (\<lambda>s. Q (Inr (f s)) s)"
  by (simp_all add: io_post_def io_ret_def io_throw_def io_of_def io_get_def fun_eq_iff)

lemma io_post_upd [io_simps]: "io_post (io_upd f) Q = (\<lambda>s. Q (Inr ()) (f s))"
  by (simp add: io_post_def io_upd_def fun_eq_iff)

lemma io_post_bind [io_simps]:
  "io_post (io_bind m f) Q = io_post m (\<lambda>r. case r of Inl e \<Rightarrow> Q (Inl e) | Inr a \<Rightarrow> io_post (f a) Q)"
  by (auto simp: io_post_def io_bind_def fun_eq_iff split: prod.splits sum.splits)

lemma io_post_catch [io_simps]:
  "io_post (io_catch m h) Q = io_post m (\<lambda>r. case r of Inl e \<Rightarrow> io_post (h e) Q | Inr a \<Rightarrow> Q (Inr a))"
  by (auto simp: io_post_def io_catch_def fun_eq_iff split: prod.splits sum.splits)

lemma io_post_mono: "io_post m P s \<Longrightarrow> (\<And>r s'. P r s' \<Longrightarrow> Q r s') \<Longrightarrow> io_post m Q s"
  by (simp add: io_post_def)

lemma io_post_conj: "io_post m P s \<Longrightarrow> io_post m Q s \<Longrightarrow> io_post m (\<lambda>r s'. P r s' \<and> Q r s') s"
  by (simp add: io_post_def)

lemma io_postD: "io_post m Q s \<Longrightarrow> m s = (r, s') \<Longrightarrow> Q r s'"
  by (simp add: io_post_def)

lemma io_post_iff: "io_post m Q s \<longleftrightarrow> (\<exists>r s'. m s = (r, s') \<and> Q r s')"
  by (cases "m s") (simp add: io_post_def)

end
