(* ===== verification/Unix_Socket.thy ===== *)
theory Unix_Socket
  imports Cxx_Io Unix_Path Server_Config Json_Log
begin

text \<open>
  The listening socket of \<open>src/src/unix/unix_socket.cpp\<close>. The file system is a map from path names to
  nodes; the paths of one configuration come from the environment, so they hold no NUL byte and the
  sources' \<open>c_str()\<close> is the identity on them. What POSIX leaves to the system (permissions, links, quotas,
  other processes) is the record \<open>posix\<close>: for every call an error other than \<open>ENOENT\<close> and \<open>EEXIST\<close> that it
  may report instead of its regular effect, and which the code has to cope with.
\<close>

section \<open>The file system\<close>

datatype errno = ENOENT | EEXIST | Errno nat

datatype file_kind = Directory | Socket | OtherFile

record node =
  node_kind :: file_kind
  node_mode :: int
  node_listening :: bool \<comment> \<open>a process accepts connections on it\<close>

type_synonym nodes = "string \<Rightarrow> node option"

record posix =
  stat_error :: "nodes \<Rightarrow> string \<Rightarrow> nat option"
  access_error :: "nodes \<Rightarrow> string \<Rightarrow> nat option"
  mkdir_error :: "nodes \<Rightarrow> string \<Rightarrow> nat option"
  unlink_error :: "nodes \<Rightarrow> string \<Rightarrow> nat option"
  chmod_error :: "nodes \<Rightarrow> string \<Rightarrow> nat option"
  socket_error :: "nat option"
  connect_error :: "nodes \<Rightarrow> string \<Rightarrow> nat option"
  umask :: int
  strerror :: "errno \<Rightarrow> string"

record fs_world =
  nodes_of :: nodes
  log_lines :: "string list"

definition log_line :: "string \<Rightarrow> ('a fs_world_scheme, unit) io" where
  "log_line line = io_upd (\<lambda>s. s\<lparr>log_lines := log_lines s @ [line]\<rparr>)"

definition sys_stat :: "posix \<Rightarrow> string \<Rightarrow> ('a fs_world_scheme, errno + node) io" where
  "sys_stat P path = io_get (\<lambda>s.
     case stat_error P (nodes_of s) path of
       Some e \<Rightarrow> Inl (Errno e)
     | None \<Rightarrow> (case nodes_of s path of None \<Rightarrow> Inl ENOENT | Some n \<Rightarrow> Inr n))"

definition sys_access :: "posix \<Rightarrow> string \<Rightarrow> ('a fs_world_scheme, errno option) io" where
  "sys_access P path = io_get (\<lambda>s. if nodes_of s path = None then Some ENOENT else map_option Errno (access_error P (nodes_of s) path))"

definition set_node :: "string \<Rightarrow> node option \<Rightarrow> ('a fs_world_scheme, unit) io" where
  "set_node path n = io_upd (\<lambda>s. s\<lparr>nodes_of := (nodes_of s)(path := n)\<rparr>)"

definition sys_mkdir :: "posix \<Rightarrow> string \<Rightarrow> int \<Rightarrow> ('a fs_world_scheme, errno option) io" where
  "sys_mkdir P path mode =
     io_bind (io_get nodes_of) (\<lambda>ns.
     case mkdir_error P ns path of
       Some e \<Rightarrow> io_ret (Some (Errno e))
     | None \<Rightarrow>
         if ns path \<noteq> None then io_ret (Some EEXIST)
         else if ns (ParentDirectory path) = None then io_ret (Some ENOENT)
         else io_bind (set_node path (Some \<lparr>node_kind = Directory, node_mode = mode AND NOT (umask P), node_listening = False\<rparr>))
                (\<lambda>_. io_ret None))"

text \<open>\<open>EISDIR\<close> is some other error.\<close>

definition sys_unlink :: "posix \<Rightarrow> string \<Rightarrow> ('a fs_world_scheme, errno option) io" where
  "sys_unlink P path =
     io_bind (io_get nodes_of) (\<lambda>ns.
     case unlink_error P ns path of
       Some e \<Rightarrow> io_ret (Some (Errno e))
     | None \<Rightarrow>
         (case ns path of
            None \<Rightarrow> io_ret (Some ENOENT)
          | Some n \<Rightarrow> if node_kind n = Directory then io_ret (Some (Errno 21))
                      else io_bind (set_node path None) (\<lambda>_. io_ret None)))"

definition sys_chmod :: "posix \<Rightarrow> string \<Rightarrow> int \<Rightarrow> ('a fs_world_scheme, errno option) io" where
  "sys_chmod P path mode =
     io_bind (io_get nodes_of) (\<lambda>ns.
     case chmod_error P ns path of
       Some e \<Rightarrow> io_ret (Some (Errno e))
     | None \<Rightarrow>
         (case ns path of
            None \<Rightarrow> io_ret (Some ENOENT)
          | Some n \<Rightarrow> io_bind (set_node path (Some (n\<lparr>node_mode := mode AND 4095\<rparr>))) (\<lambda>_. io_ret None)))"

definition sys_connect :: "posix \<Rightarrow> string \<Rightarrow> ('a fs_world_scheme, bool) io" where
  "sys_connect P path = io_get (\<lambda>s.
     connect_error P (nodes_of s) path = None \<and>
     (case nodes_of s path of None \<Rightarrow> False | Some n \<Rightarrow> node_kind n = Socket \<and> node_listening n))"

section \<open>The operations\<close>

definition ErrnoMessage :: "posix \<Rightarrow> string \<Rightarrow> errno \<Rightarrow> string" where
  "ErrnoMessage P ctxt e = ctxt @ '': '' @ strerror P e"

text \<open>\<open>EnsureDirectory\<close> after a successful \<open>stat\<close>: the node must be a directory that can be written to.\<close>

definition check_directory :: "posix \<Rightarrow> string \<Rightarrow> string \<Rightarrow> string \<Rightarrow> node \<Rightarrow> ('a fs_world_scheme, unit) io" where
  "check_directory P dir before after st =
     (if node_kind st \<noteq> Directory then io_throw (''unix socket parent path is not a directory: '' @ dir)
      else
        io_bind (sys_access P dir) (\<lambda>denied.
        case denied of
          Some e \<Rightarrow> io_throw (before @ dir @ '' ('' @ strerror P e @ after)
        | None \<Rightarrow> io_ret ()))"

definition make_directory :: "posix \<Rightarrow> string \<Rightarrow> int \<Rightarrow> ('a fs_world_scheme, unit) io" where
  "make_directory P dir mode =
     io_bind (sys_mkdir P dir mode) (\<lambda>failed.
     case failed of
       Some e \<Rightarrow>
         if e \<noteq> EEXIST then io_throw (ErrnoMessage P (''mkdir unix socket directory '' @ dir) e) else io_ret ()
     | None \<Rightarrow> io_ret ())"

function EnsureDirectory :: "posix \<Rightarrow> string \<Rightarrow> int \<Rightarrow> bool \<Rightarrow> ('a fs_world_scheme, unit) io" where
  "EnsureDirectory P dir mode create =
     io_bind (sys_stat P dir) (\<lambda>found.
     case found of
       Inr st \<Rightarrow>
         check_directory P dir ''unix socket directory is not writable: ''
           ''); ensure systemd RuntimeDirectory=mtdd or add the service user to the directory group'' st
     | Inl e \<Rightarrow>
         if e \<noteq> ENOENT then io_throw (ErrnoMessage P (''stat unix socket directory '' @ dir) e)
         else if \<not> create then
           io_throw (''unix socket directory does not exist: '' @ dir @
             '' (set MTDD_UNIX_SOCKET_CREATE_DIR=1 or configure systemd RuntimeDirectory=mtdd)'')
         else
           io_bind (if ParentDirectory dir \<noteq> dir then EnsureDirectory P (ParentDirectory dir) mode True else io_ret ()) (\<lambda>_.
           io_bind (make_directory P dir mode) (\<lambda>_.
           io_bind (sys_stat P dir) (\<lambda>again.
           case again of
             Inl e \<Rightarrow> io_throw (ErrnoMessage P (''stat unix socket directory '' @ dir) e)
           | Inr st \<Rightarrow> check_directory P dir ''created unix socket directory is not writable: '' '')'' st))))"
  by pat_completeness auto
termination
proof (relation "measure (\<lambda>(P, dir, mode, create). if dir = ''/'' then 0 else Suc (length dir))")
  fix P :: posix and dir :: string and mode :: int and create :: bool
  assume "ParentDirectory dir \<noteq> dir"
  then show "((P, ParentDirectory dir, mode, True), (P, dir, mode, create)) \<in>
      measure (\<lambda>(P, dir, mode, create). if dir = ''/'' then 0 else Suc (length dir))"
    using length_ParentDirectory [of dir] ParentDirectory_root by (auto split: if_splits)
qed simp

declare EnsureDirectory.simps [simp del]

text \<open>\<open>sizeof(addr.sun_path)\<close> is 108.\<close>

definition IsLiveUnixSocket :: "posix \<Rightarrow> string \<Rightarrow> ('a fs_world_scheme, bool) io" where
  "IsLiveUnixSocket P path =
     (case socket_error P of
        Some e \<Rightarrow> io_throw (ErrnoMessage P ''socket(AF_UNIX) probe failed'' (Errno e))
      | None \<Rightarrow>
          if length path \<ge> 108 then io_throw (''unix socket path too long for sockaddr_un probe: '' @ path)
          else sys_connect P path)"

definition RemoveStaleSocketFile :: "posix \<Rightarrow> string \<Rightarrow> ('a fs_world_scheme, unit) io" where
  "RemoveStaleSocketFile P path =
     io_bind (sys_stat P path) (\<lambda>found.
     case found of
       Inl e \<Rightarrow> if e = ENOENT then io_ret () else io_throw (ErrnoMessage P (''stat unix socket '' @ path) e)
     | Inr st \<Rightarrow>
         if node_kind st = Directory then io_throw (''unix socket path is a directory: '' @ path)
         else if node_kind st \<noteq> Socket then
           io_throw (''unix socket path is occupied by a non-socket file: '' @ path @
             '' (remove it or choose a different MTDD_LISTEN path)'')
         else
           io_bind (IsLiveUnixSocket P path) (\<lambda>live.
           if live then
             io_throw (''another process is already listening on unix socket: '' @ path @
               '' (stop the other mtdd_server instance or choose a different MTDD_LISTEN path)'')
           else
             io_bind (sys_unlink P path) (\<lambda>failed.
             case failed of
               Some e \<Rightarrow> io_throw (ErrnoMessage P (''unlink stale unix socket '' @ path) e)
             | None \<Rightarrow> log_line (Info ''unix_socket_stale_removed'' path))))"

definition VerifySocketNode :: "posix \<Rightarrow> string \<Rightarrow> int \<Rightarrow> ('a fs_world_scheme, unit) io" where
  "VerifySocketNode P path expected_mode =
     io_bind (sys_stat P path) (\<lambda>found.
     case found of
       Inl e \<Rightarrow> io_throw (ErrnoMessage P (''stat bound unix socket '' @ path) e)
     | Inr st \<Rightarrow>
         if node_kind st \<noteq> Socket then io_throw (''expected unix socket after bind, found non-socket at: '' @ path)
         else
           let actual_mode = node_mode st AND 511
           in if actual_mode \<noteq> expected_mode
              then log_line (Warn ''unix_socket_mode_mismatch'' (path @ '' expected='' @ to_string expected_mode @
                     '' actual='' @ to_string actual_mode))
              else io_ret ())"

definition PrepareListen :: "posix \<Rightarrow> ServerConfig \<Rightarrow> ('a fs_world_scheme, unit) io" where
  "PrepareListen P config =
     io_bind (io_of (ValidateUnixSocketPath (unix_socket_path config))) (\<lambda>_.
     io_bind (EnsureDirectory P (ParentDirectory (unix_socket_path config)) (unix_socket_dir_mode config)
                (unix_socket_create_dir config)) (\<lambda>_.
     RemoveStaleSocketFile P (unix_socket_path config)))"

definition FinalizeListen :: "posix \<Rightarrow> ServerConfig \<Rightarrow> ('a fs_world_scheme, unit) io" where
  "FinalizeListen P config =
     io_bind (sys_chmod P (unix_socket_path config) (unix_socket_mode config)) (\<lambda>failed.
     case failed of
       Some e \<Rightarrow> io_throw (ErrnoMessage P (''chmod unix socket '' @ unix_socket_path config) e)
     | None \<Rightarrow>
         io_bind (VerifySocketNode P (unix_socket_path config) (unix_socket_mode config)) (\<lambda>_.
         log_line (Info ''unix_socket_ready'' (unix_socket_path config @ '' mode='' @ to_string (unix_socket_mode config)))))"

definition CleanupListen :: "posix \<Rightarrow> string \<Rightarrow> ('a fs_world_scheme, unit) io" where
  "CleanupListen P path =
     io_bind (sys_stat P path) (\<lambda>found.
     case found of
       Inl e \<Rightarrow>
         if e = ENOENT then io_ret ()
         else log_line (Warn ''unix_socket_cleanup_stat_failed'' (path @ '' ('' @ strerror P e @ '')''))
     | Inr st \<Rightarrow>
         if node_kind st \<noteq> Socket then log_line (Warn ''unix_socket_cleanup_skipped'' (path @ '' (not a socket)''))
         else
           io_bind (sys_unlink P path) (\<lambda>failed.
           case failed of
             Some e \<Rightarrow> log_line (Warn ''unix_socket_cleanup_failed'' (path @ '' ('' @ strerror P e @ '')''))
           | None \<Rightarrow> log_line (Info ''unix_socket_removed'' path)))"

section \<open>ScopedListen\<close>

record ScopedListen =
  sl_config :: ServerConfig
  sl_prepared :: bool
  sl_finalized :: bool

definition ScopedListen_init :: "ServerConfig \<Rightarrow> ScopedListen" where
  "ScopedListen_init config = \<lparr>sl_config = config, sl_prepared = False, sl_finalized = False\<rparr>"

text \<open>The methods return the object as they leave it; an exception leaves it unchanged.\<close>

definition ScopedListen_Prepare :: "posix \<Rightarrow> ScopedListen \<Rightarrow> ('a fs_world_scheme, ScopedListen) io" where
  "ScopedListen_Prepare P l =
     io_bind (PrepareListen P (sl_config l)) (\<lambda>_. io_ret (l\<lparr>sl_prepared := True\<rparr>))"

definition ScopedListen_Finalize :: "posix \<Rightarrow> ScopedListen \<Rightarrow> ('a fs_world_scheme, ScopedListen) io" where
  "ScopedListen_Finalize P l =
     (if \<not> sl_prepared l then io_throw ''ScopedListen::Finalize called before Prepare''
      else io_bind (FinalizeListen P (sl_config l)) (\<lambda>_. io_ret (l\<lparr>sl_finalized := True\<rparr>)))"

definition ScopedListen_Abort :: "posix \<Rightarrow> ScopedListen \<Rightarrow> ('a fs_world_scheme, ScopedListen) io" where
  "ScopedListen_Abort P l =
     (if sl_prepared l \<and> \<not> sl_finalized l
      then io_bind (CleanupListen P (unix_socket_path (sl_config l))) (\<lambda>_. io_ret (l\<lparr>sl_prepared := False\<rparr>))
      else io_ret l)"

definition ScopedListen_destroy :: "posix \<Rightarrow> ScopedListen \<Rightarrow> ('a fs_world_scheme, unit) io" where
  "ScopedListen_destroy P l =
     (if sl_finalized l then CleanupListen P (unix_socket_path (sl_config l)) else io_ret ())"

section \<open>What the operations do\<close>

lemma io_post_calls [io_simps]:
  "io_post (log_line line) Q = (\<lambda>s. Q (Inr ()) (s\<lparr>log_lines := log_lines s @ [line]\<rparr>))"
  "io_post (set_node path n) Q = (\<lambda>s. Q (Inr ()) (s\<lparr>nodes_of := (nodes_of s)(path := n)\<rparr>))"
  by (simp_all add: log_line_def set_node_def io_simps)

lemma io_post_bind_stat:
  "io_post (io_bind (sys_stat P path) f) Q s =
     io_post (f (case stat_error P (nodes_of s) path of
       Some e \<Rightarrow> Inl (Errno e) | None \<Rightarrow> (case nodes_of s path of None \<Rightarrow> Inl ENOENT | Some n \<Rightarrow> Inr n))) Q s"
  by (simp add: sys_stat_def io_simps)

text \<open>Directories are created where nothing was, at the directory or above it, and nothing else changes.\<close>

definition new_directory :: "posix \<Rightarrow> int \<Rightarrow> node" where
  "new_directory P mode = \<lparr>node_kind = Directory, node_mode = mode AND NOT (umask P), node_listening = False\<rparr>"

definition above :: "string \<Rightarrow> string set" where
  "above dir = {(ParentDirectory ^^ k) dir |k. True}"

lemma above_refl [simp]: "dir \<in> above dir"
  unfolding above_def by (simp, rule exI [of _ 0]) simp

lemma above_parent: "above (ParentDirectory dir) \<subseteq> above dir"
proof
  fix p assume "p \<in> above (ParentDirectory dir)"
  then obtain k where "p = (ParentDirectory ^^ Suc k) dir" by (auto simp: above_def funpow_swap1)
  then show "p \<in> above dir" unfolding above_def by blast
qed

definition only_adds :: "posix \<Rightarrow> int \<Rightarrow> string \<Rightarrow> nodes \<Rightarrow> nodes \<Rightarrow> bool" where
  "only_adds P mode dir ns ns' \<longleftrightarrow>
     (\<forall>p. ns' p = ns p \<or> ns p = None \<and> ns' p = Some (new_directory P mode) \<and> p \<in> above dir)"

lemma only_adds_refl [simp]: "only_adds P mode dir ns ns"
  by (simp add: only_adds_def)

lemma only_adds_trans:
  assumes "only_adds P mode dir' ns ns1" "only_adds P mode dir ns1 ns2" "above dir' \<subseteq> above dir"
  shows "only_adds P mode dir ns ns2"
  using assms unfolding only_adds_def by (metis subsetD option.distinct(1))

lemma io_post_check_directory:
  "io_post (check_directory P dir b a st) (\<lambda>r s'. s' = s \<and> (r = Inr () \<longrightarrow> node_kind st = Directory)) s"
  by (auto simp: check_directory_def io_simps sys_access_def split: option.split)

lemma io_post_make_directory:
  "io_post (make_directory P dir mode) (\<lambda>r s'. only_adds P mode dir (nodes_of s) (nodes_of s') \<and> log_lines s' = log_lines s) s"
  by (auto simp: make_directory_def sys_mkdir_def io_simps only_adds_def new_directory_def split: option.split)

definition is_directory :: "nodes \<Rightarrow> string \<Rightarrow> bool" where
  "is_directory ns dir \<longleftrightarrow> (\<exists>n. ns dir = Some n \<and> node_kind n = Directory)"

definition adds :: "posix \<Rightarrow> int \<Rightarrow> string \<Rightarrow> 'a fs_world_scheme \<Rightarrow> 'a fs_world_scheme \<Rightarrow> bool" where
  "adds P mode dir s s' \<longleftrightarrow> only_adds P mode dir (nodes_of s) (nodes_of s') \<and> log_lines s' = log_lines s"

lemma adds_refl [simp]: "adds P mode dir s s"
  by (simp add: adds_def)

lemma adds_trans:
  assumes "adds P mode dir' s s1" "adds P mode dir s1 s2" "above dir' \<subseteq> above dir"
  shows "adds P mode dir s s2"
  using assms only_adds_trans by (fastforce simp: adds_def)

lemma io_post_make_directory_adds: "io_post (make_directory P dir mode) (\<lambda>r s'. adds P mode dir s s') s"
  using io_post_make_directory by (simp add: adds_def)

lemma io_post_stat_check:
  "io_post (io_bind (sys_stat P dir) (\<lambda>again. case again of
        Inl e \<Rightarrow> io_throw (m e) | Inr st \<Rightarrow> check_directory P dir b a st))
      (\<lambda>r s'. s' = s \<and> (r = Inr () \<longrightarrow> is_directory (nodes_of s) dir)) s"
  by (auto simp: io_simps sys_stat_def is_directory_def split: option.split intro!: io_post_mono [OF io_post_check_directory])

lemma io_post_then:
  assumes "io_post m (\<lambda>r. P') s" "\<And>s'. P' s' \<Longrightarrow> io_post k Q s'" "\<And>e s'. P' s' \<Longrightarrow> Q (Inl e) s'"
  shows "io_post (io_bind m (\<lambda>_. k)) Q s"
  using assms by (auto simp: io_post_bind io_post_def split: sum.split)

lemma io_post_EnsureDirectory_missing:
  assumes "stat_error P (nodes_of s) dir = None" "nodes_of s dir = None" "create"
  shows "io_post (EnsureDirectory P dir mode create) Q s =
    io_post (io_bind (if ParentDirectory dir \<noteq> dir then EnsureDirectory P (ParentDirectory dir) mode True else io_ret ()) (\<lambda>_.
      io_bind (make_directory P dir mode) (\<lambda>_. io_bind (sys_stat P dir) (\<lambda>again. case again of
          Inl e \<Rightarrow> io_throw (ErrnoMessage P (''stat unix socket directory '' @ dir) e)
        | Inr st \<Rightarrow> check_directory P dir ''created unix socket directory is not writable: '' '')'' st)))) Q s"
  unfolding EnsureDirectory.simps [of P dir mode create] io_post_bind_stat
  using assms by (simp only: option.case sum.case if_True if_False simp_thms)

lemma io_post_EnsureDirectory:
  "io_post (EnsureDirectory P dir mode create) (\<lambda>r s'. adds P mode dir s s' \<and> (\<not> create \<longrightarrow> s' = s) \<and>
     (r = Inr () \<longrightarrow> is_directory (nodes_of s') dir)) s"
proof (induction P dir mode create arbitrary: s rule: EnsureDirectory.induct)
  case (1 P dir mode create)
  show ?case
  proof (cases "stat_error P (nodes_of s) dir = None \<and> nodes_of s dir = None \<and> create")
    case True
    let ?up = "if ParentDirectory dir \<noteq> dir then EnsureDirectory P (ParentDirectory dir) mode True else io_ret ()"
    have up: "io_post ?up (\<lambda>r s'. adds P mode dir s s') s"
    proof (cases "ParentDirectory dir = dir")
      case False
      have "io_post (EnsureDirectory P (ParentDirectory dir) mode True) (\<lambda>r s'. adds P mode dir s s') s"
        by (rule io_post_mono [OF "1.IH"])
          (use True False adds_trans [OF _ adds_refl above_parent] in \<open>auto simp: sys_stat_def\<close>)
      then show ?thesis using False by simp
    qed (simp add: io_simps)
    have down: "io_post (io_bind (make_directory P dir mode) (\<lambda>_. io_bind (sys_stat P dir) (\<lambda>again. case again of
          Inl e \<Rightarrow> io_throw (m e) | Inr st \<Rightarrow> check_directory P dir b a st)))
        (\<lambda>r s'. adds P mode dir s s' \<and> (r = Inr () \<longrightarrow> is_directory (nodes_of s') dir)) s1"
      if "adds P mode dir s s1" for m b a s1
      by (rule io_post_then [OF io_post_make_directory_adds]) (auto intro!: io_post_mono [OF io_post_stat_check] adds_trans [OF that])
    have missing: "stat_error P (nodes_of s) dir = None" "nodes_of s dir = None" create using True by simp_all
    show ?thesis
      unfolding io_post_EnsureDirectory_missing [OF missing]
      by (rule io_post_then [OF up]) (use True in \<open>simp_all add: down\<close>)
  next
    case False
    then show ?thesis
      by (subst EnsureDirectory.simps)
        (auto simp: io_simps sys_stat_def is_directory_def split: option.splits intro!: io_post_mono [OF io_post_check_directory])
  qed
qed

text \<open>A socket that nobody can be reached on, as far as a \<open>connect\<close> tells.\<close>

definition looks_stale :: "posix \<Rightarrow> nodes \<Rightarrow> string \<Rightarrow> node \<Rightarrow> bool" where
  "looks_stale P ns path n \<longleftrightarrow> node_kind n = Socket \<and> (\<not> node_listening n \<or> connect_error P ns path \<noteq> None)"

lemma io_post_RemoveStaleSocketFile:
  "io_post (RemoveStaleSocketFile P path) (\<lambda>r s'.
     nodes_of s' = (if r = Inr () then (nodes_of s)(path := None) else nodes_of s) \<and>
     (\<forall>n. r = Inr () \<and> nodes_of s path = Some n \<longrightarrow> looks_stale P (nodes_of s) path n)) s"
  by (cases "nodes_of s path"; cases "stat_error P (nodes_of s) path"; cases "socket_error P"; cases "unlink_error P (nodes_of s) path")
    (auto simp: RemoveStaleSocketFile_def IsLiveUnixSocket_def io_simps sys_stat_def sys_connect_def sys_unlink_def looks_stale_def
      fun_upd_idem fun_eq_iff)

lemma io_post_CleanupListen:
  "io_post (CleanupListen P path) (\<lambda>r s'. r = Inr () \<and>
     nodes_of s' = (if \<exists>n. nodes_of s path = Some n \<and> node_kind n = Socket \<and> stat_error P (nodes_of s) path = None \<and>
        unlink_error P (nodes_of s) path = None then (nodes_of s)(path := None) else nodes_of s)) s"
  by (cases "nodes_of s path"; cases "stat_error P (nodes_of s) path"; cases "unlink_error P (nodes_of s) path")
    (auto simp: CleanupListen_def io_simps sys_stat_def sys_unlink_def)

lemma io_post_FinalizeListen:
  assumes "0 \<le> unix_socket_mode config" "unix_socket_mode config \<le> 511"
  shows "io_post (FinalizeListen P config) (\<lambda>r s'. let path = unix_socket_path config; ns = nodes_of s in
     case ns path of
       None \<Rightarrow> r \<noteq> Inr () \<and> nodes_of s' = ns
     | Some n \<Rightarrow>
         nodes_of s' = (if chmod_error P ns path = None then ns(path \<mapsto> n\<lparr>node_mode := unix_socket_mode config\<rparr>) else ns) \<and>
         (r = Inr () \<longrightarrow> node_kind n = Socket \<and> nodes_of s' path = Some (n\<lparr>node_mode := unix_socket_mode config\<rparr>))) s"
proof -
  have bits: "unix_socket_mode config AND 4095 = unix_socket_mode config"
    using assms take_bit_int_eq_self [of "unix_socket_mode config" 12] by (simp add: take_bit_eq_mask mask_eq_exp_minus_1)
  then show ?thesis
    by (cases "nodes_of s (unix_socket_path config)"; cases "chmod_error P (nodes_of s) (unix_socket_path config)")
     (auto simp: FinalizeListen_def VerifySocketNode_def io_simps sys_chmod_def sys_stat_def Let_def split: option.split)
qed

section \<open>Correctness of the listening socket\<close>

lemma valid_path_parent:
  assumes "ValidateUnixSocketPath path = Inr ()"
  shows "path \<notin> above (ParentDirectory path)"
proof
  assume "path \<in> above (ParentDirectory path)"
  then obtain j where "path = (ParentDirectory ^^ j) (ParentDirectory path)" by (auto simp: above_def)
  then have k: "(ParentDirectory ^^ Suc j) path = path" by (simp add: funpow_swap1)
  have path: "path \<noteq> ''/''" using assms by (auto simp: socket_path_ok_iff)
  have "(ParentDirectory ^^ Suc k) path = ''/'' \<or> length ((ParentDirectory ^^ Suc k) path) < length path" for k
  proof (induction k)
    case 0
    then show ?case using length_ParentDirectory [of path] by auto
  next
    case (Suc k)
    then show ?case
      using length_ParentDirectory [of "(ParentDirectory ^^ Suc k) path"]
      by (cases "ParentDirectory ((ParentDirectory ^^ Suc k) path) = ''/''") auto
  qed
  from this [of j] k path show False by simp
qed

lemma io_post_PrepareListen:
  defines "path \<equiv> \<lambda>config. unix_socket_path config"
  shows "io_post (PrepareListen P config) (\<lambda>r s'. \<exists>ns.
     only_adds P (unix_socket_dir_mode config) (ParentDirectory (path config)) (nodes_of s) ns \<and>
     (\<not> unix_socket_create_dir config \<longrightarrow> ns = nodes_of s) \<and>
     nodes_of s' = (if r = Inr () then ns(path config := None) else ns) \<and>
     (r = Inr () \<longrightarrow> ValidateUnixSocketPath (path config) = Inr () \<and> is_directory ns (ParentDirectory (path config)) \<and>
        (\<forall>n. ns (path config) = Some n \<longrightarrow> looks_stale P ns (path config) n))) s"
proof (cases "ValidateUnixSocketPath (path config)")
  case (Inl e)
  then show ?thesis by (auto simp: PrepareListen_def io_simps path_def)
next
  case (Inr u)
  have "io_post (io_bind (EnsureDirectory P (ParentDirectory (path config)) (unix_socket_dir_mode config) (unix_socket_create_dir config))
      (\<lambda>_. RemoveStaleSocketFile P (path config)))
    (\<lambda>r s'. \<exists>ns. only_adds P (unix_socket_dir_mode config) (ParentDirectory (path config)) (nodes_of s) ns \<and>
     (\<not> unix_socket_create_dir config \<longrightarrow> ns = nodes_of s) \<and>
     nodes_of s' = (if r = Inr () then ns(path config := None) else ns) \<and>
     (r = Inr () \<longrightarrow> is_directory ns (ParentDirectory (path config)) \<and>
        (\<forall>n. ns (path config) = Some n \<longrightarrow> looks_stale P ns (path config) n))) s"
    unfolding io_post_bind
  proof (rule io_post_mono [OF io_post_EnsureDirectory], goal_cases)
    case (1 r s1)
    then show ?case
      by (cases r) (auto simp: adds_def intro!: io_post_mono [OF io_post_RemoveStaleSocketFile] exI [of _ "nodes_of s1"])
  qed
  with Inr show ?thesis by (simp add: PrepareListen_def io_post_bind [of "io_of _"] io_post_basic path_def)
qed

text \<open>A system without errors, for evaluating the model, with one live socket, one left over and the root.\<close>

definition no_errors :: posix where
  "no_errors = \<lparr>stat_error = \<lambda>_ _. None, access_error = \<lambda>_ _. None, mkdir_error = \<lambda>_ _. None, unlink_error = \<lambda>_ _. None,
     chmod_error = \<lambda>_ _. None, socket_error = None, connect_error = \<lambda>_ _. None, umask = 18, strerror = \<lambda>_. ''error''\<rparr>"

definition dir_node :: node where
  "dir_node = \<lparr>node_kind = Directory, node_mode = 493, node_listening = False\<rparr>"

definition socket_node :: "bool \<Rightarrow> node" where
  "socket_node live = \<lparr>node_kind = Socket, node_mode = 432, node_listening = live\<rparr>"

definition demo_fs :: fs_world where
  "demo_fs = \<lparr>nodes_of = [''/'' \<mapsto> dir_node, ''/run'' \<mapsto> dir_node, ''/run/a'' \<mapsto> socket_node True, ''/run/b'' \<mapsto> socket_node False],
     log_lines = []\<rparr>"

text \<open>C20: preparing to listen is safe, whatever errors the system reports. No file is changed or removed but
  one: a socket at the path itself, and it only if a connection to it was refused and the preparation
  succeeds. What is added are directories above the path, and only if the configuration asks for it.
  After success the path is free, and its directory is there.\<close>

theorem PrepareListen_safe:
  assumes "PrepareListen P config s = (r, s')"
  defines "path \<equiv> unix_socket_path config" and "ns \<equiv> nodes_of s" and "ns' \<equiv> nodes_of s'"
  shows "(\<forall>p n. ns p = Some n \<and> ns' p \<noteq> Some n \<longrightarrow>
       p = path \<and> r = Inr () \<and> ns' p = None \<and> (\<exists>m. looks_stale P m path n)) \<and>
    (\<forall>p n. ns p = None \<and> ns' p = Some n \<longrightarrow>
       unix_socket_create_dir config \<and> p \<in> above (ParentDirectory path) \<and> n = new_directory P (unix_socket_dir_mode config)) \<and>
    (r = Inr () \<longrightarrow> ns' path = None \<and> is_directory ns' (ParentDirectory path))"
proof -
  from io_postD [OF io_post_PrepareListen assms(1)] obtain m where
    add: "only_adds P (unix_socket_dir_mode config) (ParentDirectory path) ns m"
    and no_create: "\<not> unix_socket_create_dir config \<Longrightarrow> m = ns"
    and ns': "ns' = (if r = Inr () then m(path := None) else m)"
    and ok: "r = Inr () \<Longrightarrow> ValidateUnixSocketPath path = Inr () \<and> is_directory m (ParentDirectory path) \<and>
        (\<forall>n. m path = Some n \<longrightarrow> looks_stale P m path n)"
    unfolding path_def ns_def ns'_def by blast
  have "path \<noteq> ParentDirectory path" if "r = Inr ()"
    using valid_path_parent [of path] ok [OF that] above_refl by metis
  then show ?thesis
    using add no_create ns' ok unfolding only_adds_def is_directory_def
    by (cases "r = Inr ()") (auto split: if_splits, (metis option.distinct(1) option.inject)+)
qed

theorem PrepareListen_safe_witness:
  "nodes_of (snd (PrepareListen no_errors (ServerConfig_init\<lparr>unix_socket_path := ''/run/a''\<rparr>) demo_fs)) ''/run/a'' = Some (socket_node True)"
proof (rule ccontr)
  let ?c = "ServerConfig_init\<lparr>unix_socket_path := ''/run/a''\<rparr>"
  assume changed: "nodes_of (snd (PrepareListen no_errors ?c demo_fs)) ''/run/a'' \<noteq> Some (socket_node True)"
  obtain r s' where run: "PrepareListen no_errors ?c demo_fs = (r, s')" by (cases "PrepareListen no_errors ?c demo_fs")
  have "nodes_of demo_fs ''/run/a'' = Some (socket_node True)" by (simp add: demo_fs_def)
  with changed run have "nodes_of demo_fs ''/run/a'' = Some (socket_node True) \<and> nodes_of s' ''/run/a'' \<noteq> Some (socket_node True)"
    by simp
  with conjunct1 [OF PrepareListen_safe [OF run]]
  have "\<exists>m. looks_stale no_errors m (unix_socket_path ?c) (socket_node True)" by blast
  then show False by (simp add: looks_stale_def socket_node_def no_errors_def)
qed

text \<open>What must be there for the preparation to succeed.\<close>

definition listenable :: "posix \<Rightarrow> ServerConfig \<Rightarrow> nodes \<Rightarrow> bool" where
  "listenable P config ns \<longleftrightarrow>
     (let path = unix_socket_path config; dir = ParentDirectory path in
      ValidateUnixSocketPath path = Inr () \<and> is_directory ns ''/'' \<and> (\<forall>p \<in> above dir. ns p = None \<or> is_directory ns p) \<and>
      (ns dir \<noteq> None \<or> unix_socket_create_dir config) \<and>
      (\<forall>n. ns path = Some n \<longrightarrow> node_kind n = Socket \<and> \<not> node_listening n))"

definition fault_free :: "posix \<Rightarrow> bool" where
  "fault_free P \<longleftrightarrow>
     (\<forall>ns p. stat_error P ns p = None \<and> access_error P ns p = None \<and> mkdir_error P ns p = None \<and> unlink_error P ns p = None \<and>
        chmod_error P ns p = None) \<and> socket_error P = None"

lemma EnsureDirectory_succeeds:
  assumes "fault_free P" "is_directory (nodes_of s) ''/''" "\<forall>p \<in> above dir. nodes_of s p = None \<or> is_directory (nodes_of s) p"
    and "nodes_of s dir \<noteq> None \<or> create"
  shows "io_post (EnsureDirectory P dir mode create) (\<lambda>r s'. r = Inr () \<and> is_directory (nodes_of s') dir) s"
  using assms
proof (induction P dir mode create arbitrary: s rule: EnsureDirectory.induct)
  case (1 P dir mode create)
  have f: "stat_error P ns p = None" "access_error P ns p = None" "mkdir_error P ns p = None" for ns p
    using "1.prems"(1) by (simp_all add: fault_free_def)
  show ?case
  proof (cases "nodes_of s dir")
    case (Some n)
    then have "node_kind n = Directory" using bspec [OF "1.prems"(3) above_refl] by (auto simp: is_directory_def)
    with Some f show ?thesis
      by (subst EnsureDirectory.simps) (simp add: sys_stat_def check_directory_def io_simps sys_access_def is_directory_def)
  next
    case None
    with "1.prems" have create: create and root: "dir \<noteq> ''/''" by (auto simp: is_directory_def)
    have up: "ParentDirectory dir \<noteq> dir"
      using root length_ParentDirectory [of dir] by (metis less_irrefl)
    have sub: "\<forall>p \<in> above (ParentDirectory dir). nodes_of s p = None \<or> is_directory (nodes_of s) p"
      using "1.prems"(3) above_parent by blast
    have parent: "io_post (EnsureDirectory P (ParentDirectory dir) mode True)
        (\<lambda>r s'. r = Inr () \<and> is_directory (nodes_of s') (ParentDirectory dir)) s"
      by (rule "1.IH" [where x = ENOENT]) (use None create up f "1.prems" sub in \<open>auto simp: sys_stat_def\<close>)
    have rest: "io_post (io_bind (make_directory P dir mode) (\<lambda>_. io_bind (sys_stat P dir) (\<lambda>again. case again of
          Inl e \<Rightarrow> io_throw (m e) | Inr st \<Rightarrow> check_directory P dir b a st)))
        (\<lambda>r s'. r = Inr () \<and> is_directory (nodes_of s') dir) s1"
      if "is_directory (nodes_of s1) (ParentDirectory dir)" "adds P mode (ParentDirectory dir) s s1" for s1 m b a
    proof -
      have "nodes_of s1 dir = None \<or> nodes_of s1 dir = Some (new_directory P mode)"
        using that(2) None unfolding adds_def only_adds_def by metis
      then have "nodes_of s1 dir = None \<or> is_directory (nodes_of s1) dir"
        by (auto simp: is_directory_def new_directory_def)
      with that(1) f show ?thesis
        by (auto simp: make_directory_def sys_mkdir_def check_directory_def sys_access_def sys_stat_def io_simps is_directory_def)
    qed
    show ?thesis
      unfolding io_post_EnsureDirectory_missing [OF f(1) None create] if_P [OF up] io_post_bind [of "EnsureDirectory _ _ _ _"]
      by (rule io_post_mono [OF io_post_conj [OF parent io_post_EnsureDirectory]]) (use rest in auto)
  qed
qed

lemma RemoveStaleSocketFile_succeeds:
  assumes "fault_free P" "\<forall>n. nodes_of s path = Some n \<longrightarrow> node_kind n = Socket \<and> \<not> node_listening n" "length path \<le> 107"
  shows "io_post (RemoveStaleSocketFile P path) (\<lambda>r s'. r = Inr ()) s"
  using assms
  by (cases "nodes_of s path")
    (auto simp: fault_free_def RemoveStaleSocketFile_def IsLiveUnixSocket_def io_simps sys_stat_def sys_connect_def sys_unlink_def)

text \<open>C21: preparing to listen succeeds when nothing stands in the way: the path is well formed, what exists
  above it are directories, its own directory exists or may be created, at the path is nothing or a socket
  nobody listens on, and the system reports no errors. All missing directories are then created.\<close>

theorem PrepareListen_succeeds:
  assumes "fault_free P" and "listenable P config (nodes_of s)"
  shows "\<exists>s'. PrepareListen P config s = (Inr (), s') \<and> nodes_of s' (unix_socket_path config) = None \<and>
    is_directory (nodes_of s') (ParentDirectory (unix_socket_path config))"
proof -
  let ?path = "unix_socket_path config" and ?dir = "ParentDirectory (unix_socket_path config)"
  have L: "ValidateUnixSocketPath ?path = Inr ()" "is_directory (nodes_of s) ''/''"
    "\<forall>p \<in> above ?dir. nodes_of s p = None \<or> is_directory (nodes_of s) p" "nodes_of s ?dir \<noteq> None \<or> unix_socket_create_dir config"
    "\<forall>n. nodes_of s ?path = Some n \<longrightarrow> node_kind n = Socket \<and> \<not> node_listening n"
    using assms(2) by (simp_all add: listenable_def Let_def)
  have "io_post (io_bind (EnsureDirectory P ?dir (unix_socket_dir_mode config) (unix_socket_create_dir config))
      (\<lambda>_. RemoveStaleSocketFile P ?path)) (\<lambda>r s'. r = Inr ()) s"
    unfolding io_post_bind
  proof (rule io_post_mono [OF io_post_conj [OF EnsureDirectory_succeeds [OF assms(1) L(2-4)] io_post_EnsureDirectory]], goal_cases)
    case (1 r s1)
    then have "adds P (unix_socket_dir_mode config) ?dir s s1" by simp
    then have "nodes_of s1 ?path = nodes_of s ?path"
      using valid_path_parent [OF L(1)] unfolding adds_def only_adds_def by metis
    moreover have "length ?path \<le> 107" using L(1) by (simp add: socket_path_ok_iff)
    ultimately show ?case using 1 L(5) RemoveStaleSocketFile_succeeds [OF assms(1), of s1 ?path] by auto
  qed
  then have "io_post (PrepareListen P config) (\<lambda>r s'. r = Inr ()) s"
    using L(1) by (simp add: PrepareListen_def io_post_bind [of "io_of _"] io_post_basic)
  then obtain s' where run: "PrepareListen P config s = (Inr (), s')" by (auto simp: io_post_iff)
  from io_postD [OF io_post_PrepareListen run] obtain m where m: "nodes_of s' = m(?path := None)" "is_directory m ?dir" by auto
  have "?path \<noteq> ?dir" using valid_path_parent [OF L(1)] above_refl by metis
  with m run show ?thesis by (auto simp: is_directory_def)
qed

theorem PrepareListen_succeeds_witness:
  "\<exists>s'. PrepareListen no_errors (ServerConfig_init\<lparr>unix_socket_path := ''/run/x/s'', unix_socket_create_dir := True\<rparr>) demo_fs = (Inr (), s') \<and>
     is_directory (nodes_of s') ''/run/x''"
proof -
  let ?c = "ServerConfig_init\<lparr>unix_socket_path := ''/run/x/s'', unix_socket_create_dir := True\<rparr>"
  have p: "ParentDirectory ''/run/x/s'' = ''/run/x''" "ParentDirectory ''/run/x'' = ''/run''" "ParentDirectory ''/run'' = ''/''"
    by (simp_all add: ParentDirectory_def find_last_index_def substr_def)
  have "(ParentDirectory ^^ k) ''/run/x'' \<in> {''/run/x'', ''/run'', ''/''}" for k
    by (induction k) (use p in auto)
  then have "above ''/run/x'' \<subseteq> {''/run/x'', ''/run'', ''/''}" by (auto simp: above_def)
  then have "\<forall>q \<in> above ''/run/x''. nodes_of demo_fs q = None \<or> is_directory (nodes_of demo_fs) q"
    by (auto simp: demo_fs_def is_directory_def dir_node_def)
  moreover have "ValidateUnixSocketPath ''/run/x/s'' = Inr ()" by (simp add: socket_path_ok_iff)
  ultimately have "listenable no_errors ?c (nodes_of demo_fs)"
    using p by (simp add: listenable_def demo_fs_def is_directory_def dir_node_def)
  from PrepareListen_succeeds [OF _ this] p show ?thesis by (auto simp: fault_free_def no_errors_def)
qed

end
