(* ===== verification/Notify_Registry.thy ===== *)
theory Notify_Registry
  imports Cxx_Prelude "HOL-Library.Multiset"
begin

text \<open>
  The in-memory LISTEN/NOTIFY registry: \<open>src/src/notify/channel_key.cpp\<close> and
  \<open>src/src/notify/registry.cpp\<close>. The two subscription maps and the watcher map are one record; each
  operation runs under the registry's mutex, so it is one function on that record.
  \<open>std::unordered_set\<close> has no fixed iteration order: the loops over one take the order from the
  parameter \<open>iter\<close>, about which only \<open>enumerates iter\<close> is assumed. A stream (\<open>ServerWriter*\<close>) is a
  number, and the result of the i-th \<open>Write\<close> of a publication is given by the parameter \<open>wr\<close>.

  The contract of the subscription side is the locale \<open>subscription_store\<close>: a relation between
  clients and channel keys that the operations change as their names say. The registry is an
  interpretation of it.
\<close>

section \<open>Model\<close>

definition kGlobalTidScope :: string where "kGlobalTidScope = ''__global__''"

definition NormalizeTidScope :: "string \<Rightarrow> string" where
  "NormalizeTidScope tid_scope = (if tid_scope = [] then kGlobalTidScope else tid_scope)"

definition ChannelKey :: "string \<Rightarrow> string \<Rightarrow> string" where
  "ChannelKey channel tid_scope = NormalizeTidScope tid_scope @ '':'' @ channel"

type_synonym writer = nat

record NotifyMessage =
  nm_channel :: string
  nm_payload :: string
  nm_process_id :: int

record NotifyRegistry =
  subscriptions :: "string \<rightharpoonup> string set"
  client_keys :: "string \<rightharpoonup> string set"
  watchers :: "string \<rightharpoonup> writer list"

definition NotifyRegistry_init :: NotifyRegistry where
  "NotifyRegistry_init =
     \<lparr>subscriptions = Map.empty, client_keys = Map.empty, watchers = Map.empty\<rparr>"

definition IsValidClientId :: "string \<Rightarrow> bool" where
  "IsValidClientId client_id \<longleftrightarrow> client_id \<noteq> []"

definition IsValidChannel :: "string \<Rightarrow> bool" where
  "IsValidChannel channel \<longleftrightarrow> channel \<noteq> []"

definition MakeMessage :: "string \<Rightarrow> string \<Rightarrow> NotifyMessage" where
  "MakeMessage channel payload =
     \<lparr>nm_channel = channel, nm_payload = payload, nm_process_id = 0\<rparr>"

text \<open>\<open>m[key].insert(x)\<close>: a missing entry is created empty first.\<close>

definition map_insert :: "('k \<rightharpoonup> 'v set) \<Rightarrow> 'k \<Rightarrow> 'v \<Rightarrow> ('k \<rightharpoonup> 'v set)" where
  "map_insert m k x = m(k \<mapsto> insert x (case m k of None \<Rightarrow> {} | Some S \<Rightarrow> S))"

text \<open>Erase \<open>x\<close> from the entry of \<open>k\<close>, and the entry itself when it becomes empty.\<close>

definition map_erase :: "('k \<rightharpoonup> 'v set) \<Rightarrow> 'k \<Rightarrow> 'v \<Rightarrow> ('k \<rightharpoonup> 'v set)" where
  "map_erase m k x =
     (case m k of
        None \<Rightarrow> m
      | Some S \<Rightarrow> if S - {x} = {} then m(k := None) else m(k \<mapsto> S - {x}))"

definition Subscribe :: "string \<Rightarrow> string \<Rightarrow> string \<Rightarrow> NotifyRegistry \<Rightarrow> NotifyRegistry" where
  "Subscribe client_id channel tid_scope r =
     (if \<not> IsValidClientId client_id \<or> \<not> IsValidChannel channel then r
      else
        let key = ChannelKey channel tid_scope
        in r\<lparr>subscriptions := map_insert (subscriptions r) key client_id,
             client_keys := map_insert (client_keys r) client_id key\<rparr>)"

definition RemoveClientFromKey :: "string \<Rightarrow> string \<Rightarrow> NotifyRegistry \<Rightarrow> NotifyRegistry" where
  "RemoveClientFromKey client_id key r =
     r\<lparr>subscriptions := map_erase (subscriptions r) key client_id,
       client_keys := map_erase (client_keys r) client_id key\<rparr>"

definition Unsubscribe :: "string \<Rightarrow> string \<Rightarrow> string \<Rightarrow> NotifyRegistry \<Rightarrow> NotifyRegistry" where
  "Unsubscribe client_id channel tid_scope r =
     (if \<not> IsValidClientId client_id \<or> \<not> IsValidChannel channel then r
      else RemoveClientFromKey client_id (ChannelKey channel tid_scope) r)"

definition UnsubscribeAll ::
  "(string set \<Rightarrow> string list) \<Rightarrow> string \<Rightarrow> NotifyRegistry \<Rightarrow> NotifyRegistry" where
  "UnsubscribeAll iter client_id r =
     (if \<not> IsValidClientId client_id then r
      else
        case client_keys r client_id of
          None \<Rightarrow> r
        | Some keys \<Rightarrow> fold (RemoveClientFromKey client_id) (iter keys) r)"

text \<open>The part of \<open>Publish\<close> under the lock: the streams to write to.\<close>

definition publish_targets ::
  "(string set \<Rightarrow> string list) \<Rightarrow> string \<Rightarrow> string \<Rightarrow> NotifyRegistry \<Rightarrow> writer list" where
  "publish_targets iter channel tid_scope r =
     (case subscriptions r (ChannelKey channel tid_scope) of
        None \<Rightarrow> []
      | Some clients \<Rightarrow>
          concat (map (\<lambda>c. case watchers r c of None \<Rightarrow> [] | Some ws \<Rightarrow> ws) (iter clients)))"

text \<open>
  \<open>Publish\<close> returns the delivered count; the second component lists the writes made, in order.
\<close>

definition Publish ::
  "(string set \<Rightarrow> string list) \<Rightarrow> (nat \<Rightarrow> writer \<Rightarrow> NotifyMessage \<Rightarrow> bool)
   \<Rightarrow> string \<Rightarrow> string \<Rightarrow> string \<Rightarrow> NotifyRegistry \<Rightarrow> int \<times> (writer \<times> NotifyMessage) list" where
  "Publish iter wr channel payload tid_scope r =
     (if \<not> IsValidChannel channel then (0, [])
      else
        let targets = publish_targets iter channel tid_scope r;
            message = MakeMessage channel payload
        in (int (length (filter (\<lambda>(i, w). wr i w message) (enumerate 0 targets))),
            map (\<lambda>w. (w, message)) targets))"

definition RegisterWatch :: "string \<Rightarrow> writer option \<Rightarrow> NotifyRegistry \<Rightarrow> NotifyRegistry" where
  "RegisterWatch client_id writer r =
     (case writer of
        None \<Rightarrow> r
      | Some w \<Rightarrow>
          if \<not> IsValidClientId client_id then r
          else r\<lparr>watchers := (watchers r)(client_id \<mapsto>
                   (case watchers r client_id of None \<Rightarrow> [] | Some ws \<Rightarrow> ws) @ [w])\<rparr>)"

definition UnregisterWatch :: "string \<Rightarrow> writer option \<Rightarrow> NotifyRegistry \<Rightarrow> NotifyRegistry" where
  "UnregisterWatch client_id writer r =
     (case writer of
        None \<Rightarrow> r
      | Some w \<Rightarrow>
          if \<not> IsValidClientId client_id then r
          else
            case watchers r client_id of
              None \<Rightarrow> r
            | Some streams \<Rightarrow>
                let streams' = removeAll w streams
                in if streams' = [] then r\<lparr>watchers := (watchers r)(client_id := None)\<rparr>
                   else r\<lparr>watchers := (watchers r)(client_id \<mapsto> streams')\<rparr>)"

definition SubscriptionCountForTest :: "string \<Rightarrow> NotifyRegistry \<Rightarrow> nat" where
  "SubscriptionCountForTest channel_key r =
     (case subscriptions r channel_key of None \<Rightarrow> 0 | Some S \<Rightarrow> card S)"

definition ClearForTest :: "NotifyRegistry \<Rightarrow> NotifyRegistry" where
  "ClearForTest r =
     r\<lparr>subscriptions := Map.empty, client_keys := Map.empty, watchers := Map.empty\<rparr>"

section \<open>Specification\<close>

definition enumerates :: "('a set \<Rightarrow> 'a list) \<Rightarrow> bool" where
  "enumerates iter \<longleftrightarrow> (\<forall>S. finite S \<longrightarrow> set (iter S) = S \<and> distinct (iter S))"

definition in_entry :: "('k \<rightharpoonup> 'v set) \<Rightarrow> 'k \<Rightarrow> 'v \<Rightarrow> bool" where
  "in_entry m k x \<longleftrightarrow> (case m k of None \<Rightarrow> False | Some S \<Rightarrow> x \<in> S)"

text \<open>The subscription relation a registry stands for, and the watched streams of a client.\<close>

definition subscribed :: "NotifyRegistry \<Rightarrow> (string \<times> string) set" where
  "subscribed r = {(c, k). in_entry (subscriptions r) k c}"

definition streams_of :: "NotifyRegistry \<Rightarrow> string \<Rightarrow> writer list" where
  "streams_of r c = (case watchers r c of None \<Rightarrow> [] | Some ws \<Rightarrow> ws)"

definition entries_ok :: "('k \<rightharpoonup> 'v set) \<Rightarrow> bool" where
  "entries_ok m \<longleftrightarrow> (\<forall>k S. m k = Some S \<longrightarrow> finite S \<and> S \<noteq> {})"

text \<open>
  The registry invariant: the two maps are each other's inverse, no entry is empty, and no stream
  list is empty.
\<close>

definition registry_inv :: "NotifyRegistry \<Rightarrow> bool" where
  "registry_inv r \<longleftrightarrow>
     entries_ok (subscriptions r) \<and> entries_ok (client_keys r)
     \<and> (\<forall>c k. in_entry (subscriptions r) k c \<longleftrightarrow> in_entry (client_keys r) c k)
     \<and> (\<forall>c ws. watchers r c = Some ws \<longrightarrow> ws \<noteq> [])"

datatype ('c, 'a) sub_op = OpSubscribe 'c 'a | OpUnsubscribe 'c 'a | OpUnsubscribeAll 'c

primrec sub_op_client :: "('c, 'a) sub_op \<Rightarrow> 'c" where
  "sub_op_client (OpSubscribe c a) = c"
| "sub_op_client (OpUnsubscribe c a) = c"
| "sub_op_client (OpUnsubscribeAll c) = c"

text \<open>One operation of a store, and its effect on the relation the store stands for.\<close>

primrec exec_sub_op ::
  "('c \<Rightarrow> 'a \<Rightarrow> 's \<Rightarrow> 's) \<Rightarrow> ('c \<Rightarrow> 'a \<Rightarrow> 's \<Rightarrow> 's) \<Rightarrow> ('c \<Rightarrow> 's \<Rightarrow> 's)
   \<Rightarrow> ('c, 'a) sub_op \<Rightarrow> 's \<Rightarrow> 's" where
  "exec_sub_op sub unsub unsub_all (OpSubscribe c a) s = sub c a s"
| "exec_sub_op sub unsub unsub_all (OpUnsubscribe c a) s = unsub c a s"
| "exec_sub_op sub unsub unsub_all (OpUnsubscribeAll c) s = unsub_all c s"

primrec spec_sub_op ::
  "('c \<Rightarrow> bool) \<Rightarrow> ('a \<Rightarrow> bool) \<Rightarrow> ('a \<Rightarrow> 'k) \<Rightarrow> ('c, 'a) sub_op
   \<Rightarrow> ('c \<times> 'k) set \<Rightarrow> ('c \<times> 'k) set" where
  "spec_sub_op vc va key (OpSubscribe c a) R = (if vc c \<and> va a then insert (c, key a) R else R)"
| "spec_sub_op vc va key (OpUnsubscribe c a) R = (if vc c \<and> va a then R - {(c, key a)} else R)"
| "spec_sub_op vc va key (OpUnsubscribeAll c) R = (if vc c then {p \<in> R. fst p \<noteq> c} else R)"

text \<open>An address is a channel with a tenant scope.\<close>

definition addr_key :: "string \<times> string \<Rightarrow> string" where
  "addr_key = (\<lambda>(channel, tid_scope). ChannelKey channel tid_scope)"

definition valid_addr :: "string \<times> string \<Rightarrow> bool" where
  "valid_addr = (\<lambda>(channel, tid_scope). IsValidChannel channel)"

definition registry_op ::
  "(string set \<Rightarrow> string list) \<Rightarrow> (string, string \<times> string) sub_op \<Rightarrow> NotifyRegistry \<Rightarrow> NotifyRegistry" where
  "registry_op iter =
     exec_sub_op (\<lambda>c (channel, tid_scope). Subscribe c channel tid_scope)
       (\<lambda>c (channel, tid_scope). Unsubscribe c channel tid_scope) (UnsubscribeAll iter)"

definition registry_spec ::
  "(string, string \<times> string) sub_op \<Rightarrow> (string \<times> string) set \<Rightarrow> (string \<times> string) set" where
  "registry_spec = spec_sub_op IsValidClientId valid_addr addr_key"

section \<open>The contract of a subscription store\<close>

locale subscription_store =
  fixes sub :: "'c \<Rightarrow> 'a \<Rightarrow> 's \<Rightarrow> 's"
    and unsub :: "'c \<Rightarrow> 'a \<Rightarrow> 's \<Rightarrow> 's"
    and unsub_all :: "'c \<Rightarrow> 's \<Rightarrow> 's"
    and key :: "'a \<Rightarrow> 'k"
    and valid_client :: "'c \<Rightarrow> bool"
    and valid_addr :: "'a \<Rightarrow> bool"
    and rel :: "'s \<Rightarrow> ('c \<times> 'k) set"
    and inv :: "'s \<Rightarrow> bool"
  assumes inv_sub: "inv s \<Longrightarrow> inv (sub c a s)"
    and inv_unsub: "inv s \<Longrightarrow> inv (unsub c a s)"
    and inv_unsub_all: "inv s \<Longrightarrow> inv (unsub_all c s)"
    and rel_sub: "inv s \<Longrightarrow> rel (sub c a s) =
      (if valid_client c \<and> valid_addr a then insert (c, key a) (rel s) else rel s)"
    and rel_unsub: "inv s \<Longrightarrow> rel (unsub c a s) =
      (if valid_client c \<and> valid_addr a then rel s - {(c, key a)} else rel s)"
    and rel_unsub_all: "inv s \<Longrightarrow> rel (unsub_all c s) =
      (if valid_client c then {p \<in> rel s. fst p \<noteq> c} else rel s)"
begin

lemma exec_refines:
  assumes "inv s"
  shows "inv (exec_sub_op sub unsub unsub_all oper s)
    \<and> rel (exec_sub_op sub unsub unsub_all oper s) =
        spec_sub_op valid_client valid_addr key oper (rel s)"
  using assms
  by (cases oper) (simp_all add: inv_sub inv_unsub inv_unsub_all rel_sub rel_unsub rel_unsub_all)

lemma run_refines:
  "inv s \<Longrightarrow>
     inv (fold (exec_sub_op sub unsub unsub_all) ops s)
     \<and> rel (fold (exec_sub_op sub unsub unsub_all) ops s) =
       fold (spec_sub_op valid_client valid_addr key) ops (rel s)"
  by (induction ops arbitrary: s) (simp_all add: exec_refines)

text \<open>What other clients do never changes which keys a client is subscribed to.\<close>

lemma run_other_clients:
  assumes "inv s" and "\<And>oper. oper \<in> set ops \<Longrightarrow> sub_op_client oper \<noteq> c"
  shows "(c, k) \<in> rel (fold (exec_sub_op sub unsub unsub_all) ops s) \<longleftrightarrow> (c, k) \<in> rel s"
proof -
  have step: "(c, k) \<in> spec_sub_op valid_client valid_addr key oper R \<longleftrightarrow> (c, k) \<in> R"
    if "sub_op_client oper \<noteq> c" for oper R
    using that by (cases oper) auto
  have "(c, k) \<in> fold (spec_sub_op valid_client valid_addr key) ops R \<longleftrightarrow> (c, k) \<in> R" for R
    using assms(2) by (induction ops arbitrary: R) (simp_all add: step)
  then show ?thesis using run_refines [OF assms(1), of ops] by simp
qed

end

section \<open>The registry keeps the contract\<close>

lemma in_entry_map_insert [simp]:
  "in_entry (map_insert m k x) k' y \<longleftrightarrow> in_entry m k' y \<or> (k' = k \<and> y = x)"
  by (auto simp: in_entry_def map_insert_def split: option.splits)

lemma in_entry_map_erase [simp]:
  "in_entry (map_erase m k x) k' y \<longleftrightarrow> in_entry m k' y \<and> \<not> (k' = k \<and> y = x)"
  by (auto simp: in_entry_def map_erase_def split: option.splits if_splits)

lemma entries_ok_map_insert [simp]: "entries_ok m \<Longrightarrow> entries_ok (map_insert m k x)"
  by (auto simp: entries_ok_def map_insert_def split: option.splits if_splits)

lemma entries_ok_map_erase [simp]: "entries_ok m \<Longrightarrow> entries_ok (map_erase m k x)"
  by (auto simp: entries_ok_def map_erase_def split: option.splits if_splits)

lemma registry_inv_init: "registry_inv NotifyRegistry_init"
  by (simp add: registry_inv_def NotifyRegistry_init_def entries_ok_def in_entry_def)

lemma registry_inv_RemoveClientFromKey:
  "registry_inv r \<Longrightarrow> registry_inv (RemoveClientFromKey c k r)"
  by (auto simp: registry_inv_def RemoveClientFromKey_def)

lemma subscribed_RemoveClientFromKey [simp]:
  "subscribed (RemoveClientFromKey c k r) = subscribed r - {(c, k)}"
  by (auto simp: subscribed_def RemoveClientFromKey_def)

lemma fold_RemoveClientFromKey:
  "registry_inv r \<Longrightarrow>
     registry_inv (fold (RemoveClientFromKey c) ks r)
     \<and> subscribed (fold (RemoveClientFromKey c) ks r) = subscribed r - {c} \<times> set ks"
  by (induction ks arbitrary: r) (auto simp: registry_inv_RemoveClientFromKey)

lemma registry_inv_Subscribe: "registry_inv r \<Longrightarrow> registry_inv (Subscribe c ch t r)"
  by (auto simp: registry_inv_def Subscribe_def Let_def)

lemma registry_inv_Unsubscribe: "registry_inv r \<Longrightarrow> registry_inv (Unsubscribe c ch t r)"
  by (simp add: Unsubscribe_def registry_inv_RemoveClientFromKey)

lemma registry_inv_UnsubscribeAll:
  "registry_inv r \<Longrightarrow> registry_inv (UnsubscribeAll iter c r)"
  by (simp add: UnsubscribeAll_def fold_RemoveClientFromKey split: option.split)

lemma registry_inv_RegisterWatch: "registry_inv r \<Longrightarrow> registry_inv (RegisterWatch c w r)"
  by (auto simp: registry_inv_def RegisterWatch_def split: option.splits)

lemma registry_inv_UnregisterWatch: "registry_inv r \<Longrightarrow> registry_inv (UnregisterWatch c w r)"
  by (auto simp: registry_inv_def UnregisterWatch_def Let_def split: option.splits)

lemma registry_inv_ClearForTest: "registry_inv (ClearForTest r)"
  by (simp add: registry_inv_def ClearForTest_def entries_ok_def in_entry_def)

lemmas registry_inv_ops =
  registry_inv_Subscribe registry_inv_Unsubscribe registry_inv_UnsubscribeAll
  registry_inv_RegisterWatch registry_inv_UnregisterWatch registry_inv_ClearForTest

lemma subscribed_Subscribe:
  "subscribed (Subscribe c ch t r) =
     (if IsValidClientId c \<and> IsValidChannel ch then insert (c, ChannelKey ch t) (subscribed r)
      else subscribed r)"
  by (auto simp: subscribed_def Subscribe_def Let_def)

lemma subscribed_Unsubscribe:
  "subscribed (Unsubscribe c ch t r) =
     (if IsValidClientId c \<and> IsValidChannel ch then subscribed r - {(c, ChannelKey ch t)}
      else subscribed r)"
  by (simp add: Unsubscribe_def)

lemma subscribed_UnsubscribeAll:
  assumes "registry_inv r" "enumerates iter"
  shows "subscribed (UnsubscribeAll iter c r) =
    (if IsValidClientId c then {p \<in> subscribed r. fst p \<noteq> c} else subscribed r)"
proof (cases "client_keys r c")
  case None
  then have "in_entry (subscriptions r) k c = False" for k
    using assms(1) by (simp add: registry_inv_def in_entry_def)
  with None show ?thesis by (auto simp: UnsubscribeAll_def subscribed_def)
next
  case (Some ks)
  then have "finite ks" using assms(1) by (auto simp: registry_inv_def entries_ok_def)
  with assms(2) have "set (iter ks) = ks" by (simp add: enumerates_def)
  moreover have "in_entry (subscriptions r) k c \<longleftrightarrow> k \<in> ks" for k
    using assms(1) Some by (simp add: registry_inv_def in_entry_def [of "client_keys r"])
  ultimately show ?thesis
    using fold_RemoveClientFromKey [OF assms(1), of c "iter ks"] Some
    by (auto simp: UnsubscribeAll_def subscribed_def)
qed

lemma streams_of_frame [simp]:
  "streams_of (Subscribe c ch t r) = streams_of r"
  "streams_of (Unsubscribe c ch t r) = streams_of r"
  "streams_of (RemoveClientFromKey c k r) = streams_of r"
  by (auto simp: streams_of_def Subscribe_def Unsubscribe_def RemoveClientFromKey_def Let_def)

lemma streams_of_UnsubscribeAll [simp]: "streams_of (UnsubscribeAll iter c r) = streams_of r"
proof -
  have "streams_of (fold (RemoveClientFromKey c) ks r) = streams_of r" for ks
    by (induction ks arbitrary: r) simp_all
  then show ?thesis by (simp add: UnsubscribeAll_def split: option.split)
qed

lemma streams_of_RegisterWatch:
  "streams_of (RegisterWatch c (Some w) r) c' =
     (if c' = c \<and> IsValidClientId c then streams_of r c @ [w] else streams_of r c')"
  by (simp add: streams_of_def RegisterWatch_def)

lemma streams_of_UnregisterWatch:
  "streams_of (UnregisterWatch c (Some w) r) c' =
     (if c' = c \<and> IsValidClientId c then removeAll w (streams_of r c) else streams_of r c')"
  by (auto simp: streams_of_def UnregisterWatch_def Let_def split: option.splits)

text \<open>
  An enumeration of finite sets of strings: the one the standard library happens to use is
  unknown, but there is one, and the contract holds for each.
\<close>

lemma enumerates_exists: "\<exists>iter :: 'a set \<Rightarrow> 'a list. enumerates iter"
  unfolding enumerates_def using finite_distinct_list by metis

interpretation reg: subscription_store
  "\<lambda>c (channel, tid_scope). Subscribe c channel tid_scope"
  "\<lambda>c (channel, tid_scope). Unsubscribe c channel tid_scope"
  "UnsubscribeAll iter" addr_key IsValidClientId valid_addr subscribed
  "\<lambda>r. enumerates iter \<and> registry_inv r"
  for iter :: "string set \<Rightarrow> string list"
  by unfold_locales
     (auto simp: registry_inv_ops subscribed_Subscribe subscribed_Unsubscribe
       subscribed_UnsubscribeAll addr_key_def valid_addr_def)

text \<open>C22: Any sequence of subscribe, unsubscribe and unsubscribe-all calls on a fresh registry keeps
  the two maps inverse to each other with no empty entries, and the subscriptions are exactly those
  the sequence specifies: empty client ids and channels are ignored, unsubscribe removes one pair,
  unsubscribe-all every pair of its client and no other.\<close>

theorem registry_refines_relation:
  assumes "enumerates iter"
  shows "registry_inv (fold (registry_op iter) ops NotifyRegistry_init)
    \<and> subscribed (fold (registry_op iter) ops NotifyRegistry_init) = fold registry_spec ops {}"
proof -
  have "subscribed NotifyRegistry_init = {}"
    by (simp add: subscribed_def NotifyRegistry_init_def in_entry_def)
  then show ?thesis
    using reg.run_refines [of iter NotifyRegistry_init ops] assms registry_inv_init
    by (simp add: registry_op_def registry_spec_def)
qed

theorem registry_refines_relation_witness:
  "\<exists>iter. enumerates iter
     \<and> subscribed (fold (registry_op iter)
         [OpSubscribe ''client-a'' (''events'', ''tenant-1''),
          OpSubscribe ''client-a'' (''alerts'', ''tenant-1''),
          OpSubscribe ''client-b'' (''events'', []),
          OpUnsubscribeAll ''client-a''] NotifyRegistry_init)
       = {(''client-b'', ''__global__:events'')}"
proof -
  obtain iter :: "string set \<Rightarrow> string list" where iter: "enumerates iter"
    using enumerates_exists by blast
  let ?ops = "[OpSubscribe ''client-a'' (''events'', ''tenant-1''),
    OpSubscribe ''client-a'' (''alerts'', ''tenant-1''),
    OpSubscribe ''client-b'' (''events'', []), OpUnsubscribeAll ''client-a'']"
  have "fold registry_spec ?ops {} = {(''client-b'', ''__global__:events'')}"
    by (auto simp: registry_spec_def IsValidClientId_def valid_addr_def IsValidChannel_def
        addr_key_def ChannelKey_def NormalizeTidScope_def kGlobalTidScope_def)
  then show ?thesis
    using iter registry_refines_relation [OF iter, of ?ops] by auto
qed

lemma mset_publish_targets:
  assumes "registry_inv r" "enumerates iter"
  shows "mset (publish_targets iter channel tid_scope r) =
    (\<Sum>c | (c, ChannelKey channel tid_scope) \<in> subscribed r. mset (streams_of r c))"
proof (cases "subscriptions r (ChannelKey channel tid_scope)")
  case None
  then show ?thesis by (simp add: publish_targets_def subscribed_def in_entry_def)
next
  case (Some cs)
  then have "finite cs" using assms(1) by (auto simp: registry_inv_def entries_ok_def)
  with assms(2) have iter: "set (iter cs) = cs" "distinct (iter cs)"
    by (simp_all add: enumerates_def)
  have "{c. (c, ChannelKey channel tid_scope) \<in> subscribed r} = cs"
    using Some by (simp add: subscribed_def in_entry_def)
  moreover have "mset (publish_targets iter channel tid_scope r) =
      sum_list (map (\<lambda>c. mset (streams_of r c)) (iter cs))"
    using Some by (simp add: publish_targets_def streams_of_def mset_concat comp_def)
  ultimately show ?thesis
    using iter by (simp add: sum_list_distinct_conv_sum_set)
qed

text \<open>C23: Publishing writes the message, with its channel, payload and process id 0, to every stream
  of every client subscribed to that channel key, each registration once and no other stream; the
  count returned is the number of those writes that the streams accepted.\<close>

theorem Publish_delivers_to_subscribers:
  assumes "registry_inv r" and "enumerates iter" and "channel \<noteq> []"
    and "Publish iter wr channel payload tid_scope r = (delivered, calls)"
  shows "mset (map fst calls) =
      (\<Sum>c | (c, ChannelKey channel tid_scope) \<in> subscribed r. mset (streams_of r c))
    \<and> (\<forall>m \<in> set (map snd calls). m = \<lparr>nm_channel = channel, nm_payload = payload, nm_process_id = 0\<rparr>)
    \<and> delivered = int (card {i. i < length calls \<and> wr i (fst (calls ! i)) (snd (calls ! i))})"
proof -
  let ?t = "publish_targets iter channel tid_scope r" and ?m = "MakeMessage channel payload"
  have calls: "calls = map (\<lambda>w. (w, ?m)) ?t"
    and d: "delivered = int (length (filter (\<lambda>(i, w). wr i w ?m) (enumerate 0 ?t)))"
    using assms(3,4) by (auto simp: Publish_def IsValidChannel_def Let_def)
  have "delivered = int (card {i. i < length calls \<and> wr i (fst (calls ! i)) (snd (calls ! i))})"
    unfolding d calls length_filter_enumerate by (auto intro!: arg_cong [where f = card])
  then show ?thesis
    using mset_publish_targets [OF assms(1,2)] calls by (simp add: MakeMessage_def comp_def)
qed

lemma enumerates_singleton:
  assumes "enumerates iter"
  shows "iter {x} = [x]"
proof -
  have s: "set (iter {x}) = {x}" and d: "distinct (iter {x})"
    using assms by (simp_all add: enumerates_def)
  from distinct_card [OF d] s have "length (iter {x}) = 1" by simp
  then obtain y where "iter {x} = [y]" by (auto simp: length_Suc_conv)
  with s show ?thesis by simp
qed

theorem Publish_delivers_to_subscribers_witness:
  "\<exists>iter delivered calls. enumerates iter
     \<and> Publish iter (\<lambda>_ w _. w = 7) ''events'' ''hello'' []
         (RegisterWatch ''client-a'' (Some 8) (RegisterWatch ''client-a'' (Some 7)
           (Subscribe ''client-a'' ''events'' [] NotifyRegistry_init))) = (delivered, calls)
     \<and> mset (map fst calls) = {#7, 8#}"
proof -
  obtain iter :: "string set \<Rightarrow> string list" where iter: "enumerates iter"
    using enumerates_exists by blast
  let ?r = "RegisterWatch ''client-a'' (Some 8) (RegisterWatch ''client-a'' (Some 7)
      (Subscribe ''client-a'' ''events'' [] NotifyRegistry_init))"
  have inv: "registry_inv ?r"
    by (intro registry_inv_ops registry_inv_init)
  obtain d calls where P: "Publish iter (\<lambda>_ w _. w = 7) ''events'' ''hello'' [] ?r = (d, calls)"
    by (cases "Publish iter (\<lambda>_ w _. w = 7) ''events'' ''hello'' [] ?r") auto
  have "{c. (c, ChannelKey ''events'' []) \<in> subscribed ?r} = {''client-a''}"
    by (auto simp: subscribed_def RegisterWatch_def Subscribe_def IsValidClientId_def
        IsValidChannel_def NotifyRegistry_init_def Let_def in_entry_def map_insert_def)
  moreover have "streams_of ?r ''client-a'' = [7, 8]"
    by (simp add: streams_of_def RegisterWatch_def Subscribe_def IsValidClientId_def
        IsValidChannel_def NotifyRegistry_init_def Let_def)
  ultimately have "mset (map fst calls) = {#7, 8#}"
    using Publish_delivers_to_subscribers [OF inv iter _ P] by simp
  with iter P show ?thesis by blast
qed





text \<open>With a colon in a scope the isolation is lost: a client of tenant \<open>a\<close> subscribed to channel
  \<open>b:c\<close> is subscribed to channel \<open>c\<close> of tenant \<open>a:b\<close> as well, so it receives what is published
  there.\<close>

theorem ChannelKey_scope_confusion:
  assumes "client \<noteq> []" and "a \<noteq> []" and "c \<noteq> []"
  shows "(client, ChannelKey c (a @ '':'' @ b)) \<in> subscribed (Subscribe client (b @ '':'' @ c) a r)"
  using assms
  by (simp add: subscribed_Subscribe IsValidClientId_def IsValidChannel_def ChannelKey_def
      NormalizeTidScope_def)

theorem ChannelKey_scope_confusion_witness:
  "(''client'', ChannelKey ''c'' ''a:b'') \<in> subscribed (Subscribe ''client'' ''b:c'' ''a'' NotifyRegistry_init)"
  using ChannelKey_scope_confusion [of "''client''" "''a''" "''c''" "''b''" NotifyRegistry_init] by simp

end
