(* ===== verification/Notify_Service.thy ===== *)
theory Notify_Service
  imports Notify_Registry Server_Config Grpc_Types Json_Log
begin

text \<open>
  The \<open>MtddNotify\<close> RPC handlers of \<open>src/src/service/mtdd_notify_service.cpp\<close>. A unary handler maps
  its request and the registry to the status, the acknowledgement, the new registry and the text it
  logs. \<open>Watch\<close> holds its thread until the client goes away, so it is two handlers, one before and
  one after the wait; how these interleave with the other RPCs is the step relation \<open>notify_step\<close>.
\<close>

section \<open>Model\<close>

definition ValidateClientId :: "string \<Rightarrow> Status" where
  "ValidateClientId client_id =
     (if client_id = [] then mk_status INVALID_ARGUMENT ''client_id is required'' else Status_OK)"

definition ValidateChannel :: "string \<Rightarrow> Status" where
  "ValidateChannel channel =
     (if channel = [] then mk_status INVALID_ARGUMENT ''channel is required'' else Status_OK)"

definition SetAck :: "bool \<Rightarrow> string \<Rightarrow> int \<Rightarrow> NotifyAck" where
  "SetAck ok message delivered_count =
     \<lparr>ack_ok = ok, ack_message = message, ack_delivered_count = delivered_count\<rparr>"

definition ValidateNotifyLimits :: "ServerConfig \<Rightarrow> string \<Rightarrow> string \<Rightarrow> Status" where
  "ValidateNotifyLimits config channel payload =
     (if cast_int32 (int (length channel)) > max_notify_channel_bytes config
      then mk_status INVALID_ARGUMENT ''channel exceeds MTDD_MAX_NOTIFY_CHANNEL_BYTES''
      else if cast_int32 (int (length payload)) > max_notify_payload_bytes config
      then mk_status INVALID_ARGUMENT ''payload exceeds MTDD_MAX_NOTIFY_PAYLOAD_BYTES''
      else Status_OK)"

type_synonym notify_reply = "Status \<times> NotifyAck \<times> NotifyRegistry \<times> string"

definition NotifyService_Subscribe ::
  "ServerConfig \<Rightarrow> NotifySubscribeRequest \<Rightarrow> NotifyRegistry \<Rightarrow> notify_reply" where
  "NotifyService_Subscribe config request registry =
     (let status = ValidateClientId (ns_client_id request) in
      if \<not> status_ok status then (status, NotifyAck_init, registry, []) else
      let status = ValidateChannel (ns_channel request) in
      if \<not> status_ok status then (status, NotifyAck_init, registry, []) else
      let status = ValidateNotifyLimits config (ns_channel request) [] in
      if \<not> status_ok status then (status, NotifyAck_init, registry, []) else
      (Status_OK, SetAck True ''subscribed'' 0,
       Subscribe (ns_client_id request) (ns_channel request) (ns_tid_scope request) registry,
       Info ''notify_subscribe'' (ns_client_id request @ '' '' @ ns_channel request)))"

definition NotifyService_Unsubscribe ::
  "NotifyUnsubscribeRequest \<Rightarrow> NotifyRegistry \<Rightarrow> notify_reply" where
  "NotifyService_Unsubscribe request registry =
     (let status = ValidateClientId (nu_client_id request) in
      if \<not> status_ok status then (status, NotifyAck_init, registry, []) else
      let status = ValidateChannel (nu_channel request) in
      if \<not> status_ok status then (status, NotifyAck_init, registry, []) else
      (Status_OK, SetAck True ''unsubscribed'' 0,
       Unsubscribe (nu_client_id request) (nu_channel request) (nu_tid_scope request) registry,
       Info ''notify_unsubscribe'' (nu_client_id request @ '' '' @ nu_channel request)))"

definition NotifyService_UnsubscribeAll ::
  "(string set \<Rightarrow> string list) \<Rightarrow> string \<Rightarrow> NotifyRegistry \<Rightarrow> notify_reply" where
  "NotifyService_UnsubscribeAll iter client_id registry =
     (let status = ValidateClientId client_id in
      if \<not> status_ok status then (status, NotifyAck_init, registry, []) else
      (Status_OK, SetAck True ''unsubscribed all'' 0, UnsubscribeAll iter client_id registry,
       Info ''notify_unsubscribe_all'' client_id))"

text \<open>\<open>Publish\<close> also returns the writes it made.\<close>

definition NotifyService_Publish ::
  "(string set \<Rightarrow> string list) \<Rightarrow> (nat \<Rightarrow> writer \<Rightarrow> NotifyMessage \<Rightarrow> bool) \<Rightarrow> ServerConfig
   \<Rightarrow> NotifyPublishRequest \<Rightarrow> NotifyRegistry \<Rightarrow> notify_reply \<times> (writer \<times> NotifyMessage) list" where
  "NotifyService_Publish iter wr config request registry =
     (let status = ValidateChannel (np_channel request) in
      if \<not> status_ok status then ((status, NotifyAck_init, registry, []), []) else
      let status = ValidateNotifyLimits config (np_channel request) (np_payload request) in
      if \<not> status_ok status then ((status, NotifyAck_init, registry, []), []) else
      let (delivered, calls) =
            Publish iter wr (np_channel request) (np_payload request) (np_tid_scope request) registry
      in ((Status_OK, SetAck True ''published'' delivered, registry,
           Info ''notify_publish'' (np_channel request @ '' delivered='' @ to_string delivered)),
          calls))"

text \<open>\<open>Watch\<close> up to its wait, and from the end of the wait (the context is cancelled) to its return.\<close>

definition NotifyService_Watch_begin ::
  "string \<Rightarrow> writer \<Rightarrow> NotifyRegistry \<Rightarrow> Status \<times> NotifyRegistry \<times> string" where
  "NotifyService_Watch_begin client_id writer registry =
     (let status = ValidateClientId client_id in
      if \<not> status_ok status then (status, registry, [])
      else (Status_OK, RegisterWatch client_id (Some writer) registry, Info ''notify_watch'' client_id))"

definition NotifyService_Watch_end ::
  "string \<Rightarrow> writer \<Rightarrow> NotifyRegistry \<Rightarrow> Status \<times> NotifyRegistry \<times> string" where
  "NotifyService_Watch_end client_id writer registry =
     (Status_OK, UnregisterWatch client_id (Some writer) registry, Info ''notify_watch_end'' client_id)"

section \<open>Concurrent RPCs\<close>

text \<open>
  The state of all RPCs in progress. \<open>watching\<close> holds the \<open>Watch\<close> calls waiting, each with its client
  and its stream; a stream exists exactly while its call is there. \<open>publishing\<close> holds, for every
  \<open>Publish\<close> that has left the registry's lock, the streams it has still to write to.
\<close>

record notify_sys =
  registry :: NotifyRegistry
  watching :: "(string \<times> writer) set"
  publishing :: "(NotifyMessage \<times> writer list) list"

definition notify_sys_init :: notify_sys where
  "notify_sys_init = \<lparr>registry = NotifyRegistry_init, watching = {}, publishing = []\<rparr>"

text \<open>The streams that exist.\<close>

definition open_streams :: "notify_sys \<Rightarrow> writer set" where
  "open_streams s = snd ` watching s"

inductive notify_step :: "notify_sys \<Rightarrow> notify_sys \<Rightarrow> bool" where
  subscribe:
    "NotifyService_Subscribe config request (registry s) = (st, ack, r', out) \<Longrightarrow>
     notify_step s (s\<lparr>registry := r'\<rparr>)"
| unsubscribe:
    "NotifyService_Unsubscribe request (registry s) = (st, ack, r', out) \<Longrightarrow>
     notify_step s (s\<lparr>registry := r'\<rparr>)"
| unsubscribe_all:
    "enumerates iter \<Longrightarrow>
     NotifyService_UnsubscribeAll iter client_id (registry s) = (st, ack, r', out) \<Longrightarrow>
     notify_step s (s\<lparr>registry := r'\<rparr>)"
| watch_begin:
    "w \<notin> open_streams s \<Longrightarrow>
     NotifyService_Watch_begin client_id w (registry s) = (Status_OK, r', out) \<Longrightarrow>
     notify_step s (s\<lparr>registry := r', watching := insert (client_id, w) (watching s)\<rparr>)"
| watch_end:
    "(client_id, w) \<in> watching s \<Longrightarrow>
     NotifyService_Watch_end client_id w (registry s) = (st, r', out) \<Longrightarrow>
     notify_step s (s\<lparr>registry := r', watching := watching s - {(client_id, w)}\<rparr>)"
| publish_collect:
    "enumerates iter \<Longrightarrow> channel \<noteq> [] \<Longrightarrow>
     notify_step s (s\<lparr>publishing := publishing s
       @ [(MakeMessage channel payload, publish_targets iter channel tid_scope (registry s))]\<rparr>)"
| publish_write:
    "publishing s = before @ (m, w # ws) # after \<Longrightarrow>
     notify_step s (s\<lparr>publishing := before @ (m, ws) # after\<rparr>)"

inductive notify_reachable :: "notify_sys \<Rightarrow> bool" where
  start: "notify_reachable notify_sys_init"
| step: "notify_reachable s \<Longrightarrow> notify_step s t \<Longrightarrow> notify_reachable t"

inductive_cases notify_stepE: "notify_step s t"

section \<open>Properties\<close>

lemmas notify_handlers =
  NotifyService_Subscribe_def NotifyService_Unsubscribe_def NotifyService_UnsubscribeAll_def
  NotifyService_Watch_begin_def NotifyService_Watch_end_def
  ValidateClientId_def ValidateChannel_def ValidateNotifyLimits_def

text \<open>A subscription is accepted exactly when the client id and the channel are non-empty and the
  channel is within the configured length; then the registry changes as Subscribe says and the
  acknowledgement is positive, and otherwise the status is INVALID_ARGUMENT and the registry is
  untouched.\<close>

theorem NotifyService_Subscribe_effect:
  assumes "int (length (ns_channel request)) \<le> INT_MAX" and "0 \<le> max_notify_payload_bytes config"
    and "NotifyService_Subscribe config request reg = (status, ack, reg', out)"
  shows "(ns_client_id request \<noteq> [] \<and> ns_channel request \<noteq> []
        \<and> int (length (ns_channel request)) \<le> max_notify_channel_bytes config
      \<longrightarrow> status_ok status \<and> ack_ok ack
        \<and> reg' = Subscribe (ns_client_id request) (ns_channel request) (ns_tid_scope request) reg)
    \<and> (\<not> (ns_client_id request \<noteq> [] \<and> ns_channel request \<noteq> []
        \<and> int (length (ns_channel request)) \<le> max_notify_channel_bytes config)
      \<longrightarrow> status_code status = INVALID_ARGUMENT \<and> ack = NotifyAck_init \<and> reg' = reg)"
  using assms
  by (auto simp: NotifyService_Subscribe_def ValidateClientId_def ValidateChannel_def
      ValidateNotifyLimits_def SetAck_def INT_MAX_def split: if_splits)

theorem NotifyService_Subscribe_effect_witness:
  "\<exists>st ack reg' out. NotifyService_Subscribe ServerConfig_init
       \<lparr>ns_client_id = ''client-a'', ns_channel = ''events'', ns_tid_scope = []\<rparr> NotifyRegistry_init
       = (st, ack, reg', out)
     \<and> status_ok st \<and> ack_ok ack \<and> reg' = Subscribe ''client-a'' ''events'' [] NotifyRegistry_init"
proof -
  let ?req = "\<lparr>ns_client_id = ''client-a'', ns_channel = ''events'', ns_tid_scope = []\<rparr>"
  obtain st ack reg' out where
    call: "NotifyService_Subscribe ServerConfig_init ?req NotifyRegistry_init = (st, ack, reg', out)"
    by (metis prod_cases4)
  show ?thesis
    using NotifyService_Subscribe_effect [OF _ _ call] call
    by (simp add: INT_MAX_def ServerConfig_init_def)
qed

text \<open>
  The invariant of the interleaved system: the registry is consistent, and the streams it holds for
  a client are exactly those of the client's waiting \<open>Watch\<close> calls.
\<close>

definition notify_inv :: "notify_sys \<Rightarrow> bool" where
  "notify_inv s \<longleftrightarrow>
     registry_inv (registry s)
     \<and> (\<forall>c w. (c, w) \<in> watching s \<longleftrightarrow> w \<in> set (streams_of (registry s) c))
     \<and> (\<forall>c w. (c, w) \<in> watching s \<longrightarrow> c \<noteq> [])"

lemma notify_inv_init: "notify_inv notify_sys_init"
  by (simp add: notify_inv_def notify_sys_init_def registry_inv_init)
     (simp add: streams_of_def NotifyRegistry_init_def)

lemma notify_inv_registry_op:
  "notify_inv s \<Longrightarrow> registry_inv r' \<Longrightarrow> streams_of r' = streams_of (registry s) \<Longrightarrow>
     notify_inv (s\<lparr>registry := r'\<rparr>)"
  by (simp add: notify_inv_def)

lemma Watch_begin_OK:
  assumes "NotifyService_Watch_begin client_id w r = (Status_OK, r', out)"
  shows "client_id \<noteq> [] \<and> r' = RegisterWatch client_id (Some w) r"
proof (cases "client_id = []")
  case True
  then have "status_code Status_OK = INVALID_ARGUMENT"
    using assms by (simp add: NotifyService_Watch_begin_def ValidateClientId_def Let_def)
       (metis status_simps(3))
  then show ?thesis by (simp add: Status_OK_def)
next
  case False
  with assms show ?thesis
    by (simp add: NotifyService_Watch_begin_def ValidateClientId_def Let_def)
qed

lemma notify_step_inv:
  assumes "notify_step s t" "notify_inv s"
  shows "notify_inv t"
  using assms
proof (induction rule: notify_step.induct)
  case (subscribe config request s st ack r' out)
  then show ?case
    by (intro notify_inv_registry_op)
       (auto simp: NotifyService_Subscribe_def Let_def notify_inv_def registry_inv_ops split: if_splits)
next
  case (unsubscribe request s st ack r' out)
  then show ?case
    by (intro notify_inv_registry_op)
       (auto simp: NotifyService_Unsubscribe_def Let_def notify_inv_def registry_inv_ops split: if_splits)
next
  case (unsubscribe_all iter client_id s st ack r' out)
  then show ?case
    by (intro notify_inv_registry_op)
       (auto simp: NotifyService_UnsubscribeAll_def Let_def notify_inv_def registry_inv_ops split: if_splits)
next
  case (watch_begin w s client_id r' out)
  from watch_begin.hyps(2) have "client_id \<noteq> []" and "r' = RegisterWatch client_id (Some w) (registry s)"
    by (auto dest: Watch_begin_OK)
  with watch_begin.prems show ?case
    by (auto simp: notify_inv_def registry_inv_ops streams_of_RegisterWatch IsValidClientId_def)
next
  case (watch_end client_id w s st r' out)
  then have "client_id \<noteq> []" and "r' = UnregisterWatch client_id (Some w) (registry s)"
    by (auto simp: NotifyService_Watch_end_def notify_inv_def)
  with watch_end.prems show ?case
    by (auto simp: notify_inv_def registry_inv_ops streams_of_UnregisterWatch IsValidClientId_def)
qed (simp_all add: notify_inv_def)

lemma reachable_notify_inv: "notify_reachable s \<Longrightarrow> notify_inv s"
  by (induction rule: notify_reachable.induct) (auto intro: notify_inv_init notify_step_inv)

text \<open>C24: Whatever the interleaving of RPCs, the streams the registry holds for a client are exactly
  those of the client's Watch calls in progress: no stream outlives its call in the registry, none
  in progress is missing, and the two subscription maps stay consistent.\<close>

theorem notify_watchers_are_open:
  assumes "notify_reachable s"
  shows "registry_inv (registry s)
    \<and> (\<forall>c w. w \<in> set (streams_of (registry s) c) \<longleftrightarrow> (c, w) \<in> watching s)"
  using reachable_notify_inv [OF assms] by (simp add: notify_inv_def)

text \<open>A run: one client subscribes to \<open>events\<close> and watches with stream 1, a message is published.\<close>

definition demo_subscribed :: notify_sys where
  "demo_subscribed = notify_sys_init
     \<lparr>registry := Subscribe ''client-a'' ''events'' [] NotifyRegistry_init\<rparr>"

definition demo_watching :: notify_sys where
  "demo_watching = demo_subscribed
     \<lparr>registry := RegisterWatch ''client-a'' (Some 1) (registry demo_subscribed),
      watching := {(''client-a'', 1)}\<rparr>"

lemma demo_watching_reachable: "notify_reachable demo_watching"
proof -
  let ?req = "\<lparr>ns_client_id = ''client-a'', ns_channel = ''events'', ns_tid_scope = []\<rparr>"
  have "notify_step notify_sys_init demo_subscribed"
    unfolding demo_subscribed_def
    by (rule notify_step.subscribe [where config = ServerConfig_init and request = ?req])
       (simp add: NotifyService_Subscribe_def notify_handlers Let_def notify_sys_init_def
         ServerConfig_init_def)
  then have sub: "notify_reachable demo_subscribed"
    by (rule notify_reachable.step [OF notify_reachable.start])
  have "notify_step demo_subscribed (demo_subscribed
     \<lparr>registry := RegisterWatch ''client-a'' (Some 1) (registry demo_subscribed),
      watching := insert (''client-a'', 1) (watching demo_subscribed)\<rparr>)"
    by (rule notify_step.watch_begin)
       (auto simp: open_streams_def demo_subscribed_def notify_sys_init_def
         NotifyService_Watch_begin_def ValidateClientId_def Let_def)
  then have "notify_step demo_subscribed demo_watching"
    by (simp add: demo_watching_def demo_subscribed_def notify_sys_init_def)
  with sub show ?thesis by (rule notify_reachable.step)
qed

lemma demo_watching_targets:
  "enumerates iter \<Longrightarrow> publish_targets iter ''events'' [] (registry demo_watching) = [1]"
  by (simp add: publish_targets_def demo_watching_def demo_subscribed_def RegisterWatch_def
      Subscribe_def IsValidClientId_def IsValidChannel_def NotifyRegistry_init_def Let_def
      map_insert_def enumerates_singleton)

theorem notify_watchers_are_open_witness:
  "\<exists>s. notify_reachable s \<and> watching s = {(''client-a'', 1)}
     \<and> set (streams_of (registry s) ''client-a'') = {1}"
  using notify_watchers_are_open [OF demo_watching_reachable] demo_watching_reachable
  by (intro exI [of _ demo_watching]) (auto simp: demo_watching_def)

text \<open>The lock does not cover the writes: there is a run in which a publication, having collected
  its streams, is about to write to one whose Watch call has returned in the meantime, so the
  stream no longer exists.\<close>

theorem notify_publish_to_closed_stream:
  "\<exists>s m w ws. notify_reachable s \<and> (m, w # ws) \<in> set (publishing s) \<and> w \<notin> open_streams s"
proof -
  obtain iter :: "string set \<Rightarrow> string list" where iter: "enumerates iter"
    using enumerates_exists by blast
  let ?m = "MakeMessage ''events'' ''hello''"
  let ?p = "demo_watching\<lparr>publishing := publishing demo_watching
      @ [(?m, publish_targets iter ''events'' [] (registry demo_watching))]\<rparr>"
  let ?e = "?p\<lparr>registry := UnregisterWatch ''client-a'' (Some 1) (registry ?p),
      watching := watching ?p - {(''client-a'', 1)}\<rparr>"
  have "notify_step demo_watching ?p"
    by (rule notify_step.publish_collect) (simp_all add: iter)
  with demo_watching_reachable have p: "notify_reachable ?p" by (rule notify_reachable.step)
  have "notify_step ?p ?e"
    by (rule notify_step.watch_end [where client_id = "''client-a''" and w = 1])
       (simp_all add: demo_watching_def NotifyService_Watch_end_def)
  with p have "notify_reachable ?e" by (rule notify_reachable.step)
  moreover have "(?m, 1 # []) \<in> set (publishing ?e)"
    by (simp add: demo_watching_targets [OF iter])
  moreover have "1 \<notin> open_streams ?e"
    by (simp add: open_streams_def demo_watching_def)
  ultimately show ?thesis by blast
qed

end
