(* ===== verification/Server_Main.thy ===== *)
theory Server_Main
  imports Unix_Socket Shard_Service Notify_Service
begin

text \<open>
  \<open>src/src/main.cpp\<close>: the start and the end of the server process, in the build for POSIX systems. The globals
  and the objects \<open>main\<close> creates are the state. gRPC is the record \<open>grpc_env\<close>: whether \<open>BuildAndStart\<close>
  gives a server and what it does to the file system (it binds the socket), whether there is a health
  check service, and what happens until \<open>Wait\<close> returns.
\<close>

section \<open>State\<close>

record ServerBuilder =
  sb_health_check :: bool
  sb_reflection :: bool
  sb_ports :: "string list"
  sb_services :: "string list"
  sb_num_cqs :: int
  sb_min_pollers :: int
  sb_max_pollers :: int

record main_world = fs_world +
  g_unix_listen :: "ScopedListen option"
  g_server :: bool
  g_shutdown :: bool
  mn_shard :: "shard_world option"
  mn_notify :: "NotifyRegistry option"

record grpc_env =
  BuildAndStart :: "ServerBuilder \<Rightarrow> nodes \<Rightarrow> bool \<times> nodes"
  GetHealthCheckService :: bool
  serve :: "shard_world \<Rightarrow> NotifyRegistry option \<Rightarrow> nodes \<Rightarrow> shard_world \<times> NotifyRegistry option \<times> nodes \<times> string list"

definition main_world_init :: "nodes \<Rightarrow> main_world" where
  "main_world_init ns =
     \<lparr>nodes_of = ns, log_lines = [], g_unix_listen = None, g_server = False, g_shutdown = False, mn_shard = None, mn_notify = None\<rparr>"

section \<open>Model\<close>

text \<open>A call of a monitor method, which does not block.\<close>

definition monitor_call :: "(shard_world, unit) proc \<Rightarrow> (main_world, unit) io" where
  "monitor_call m = io_upd (\<lambda>s.
     case mn_shard s of
       None \<Rightarrow> s
     | Some w \<Rightarrow> (case m w of Inr (u, w') \<Rightarrow> s\<lparr>mn_shard := Some w'\<rparr> | Inl b \<Rightarrow> s))"

text \<open>A method of the listening socket, if there is one, and its destruction by \<open>reset\<close>.\<close>

definition listen_call :: "(ScopedListen \<Rightarrow> (main_world, ScopedListen) io) \<Rightarrow> (main_world, unit) io" where
  "listen_call f =
     io_bind (io_get g_unix_listen) (\<lambda>l.
     case l of
       None \<Rightarrow> io_ret ()
     | Some l \<Rightarrow> io_bind (f l) (\<lambda>l'. io_upd (\<lambda>s. s\<lparr>g_unix_listen := Some l'\<rparr>)))"

definition reset_listen :: "posix \<Rightarrow> (main_world, unit) io" where
  "reset_listen P =
     io_bind (io_get g_unix_listen) (\<lambda>l.
     case l of
       None \<Rightarrow> io_ret ()
     | Some l \<Rightarrow> io_bind (ScopedListen_destroy P l) (\<lambda>_. io_upd (\<lambda>s. s\<lparr>g_unix_listen := None\<rparr>)))"

definition abort_listen :: "posix \<Rightarrow> (main_world, unit) io" where
  "abort_listen P = io_bind (listen_call (ScopedListen_Abort P)) (\<lambda>_. reset_listen P)"

definition HandleSignal :: "(main_world, unit) io" where
  "HandleSignal =
     io_bind (monitor_call (on_monitor Stop)) (\<lambda>_.
     io_bind (io_get g_server) (\<lambda>running.
     if running then io_upd (\<lambda>s. s\<lparr>g_shutdown := True\<rparr>) else io_ret ()))"

definition server_builder :: "ServerConfig \<Rightarrow> ServerBuilder" where
  "server_builder config =
     \<lparr>sb_health_check = True, sb_reflection = grpc_reflection config, sb_ports = [FormatListenTarget config],
      sb_services = ''mtdd.MtddShard'' # (if notify_enabled config then [''mtdd.MtddNotify''] else []),
      sb_num_cqs = grpc_max_threads config, sb_min_pollers = 1, sb_max_pollers = grpc_max_threads config\<rparr>"

definition prepare_listen :: "posix \<Rightarrow> ServerConfig \<Rightarrow> (main_world, unit) io" where
  "prepare_listen P config =
     (if listen_mode config = Unix then
        io_bind (io_upd (\<lambda>s. s\<lparr>g_unix_listen := Some (ScopedListen_init config)\<rparr>)) (\<lambda>_.
        listen_call (ScopedListen_Prepare P))
      else io_ret ())"

text \<open>The registry is a local of \<open>main\<close> that only the notify service uses; it is there when the service is.\<close>

definition create_services :: "ServerConfig \<Rightarrow> (main_world, unit) io" where
  "create_services config =
     io_upd (\<lambda>s. s\<lparr>mn_shard := Some (shard_init config (Some (PgHealthMonitor_init (health_probe_interval_sec config)))),
       mn_notify := (if notify_enabled config then Some NotifyRegistry_init else None)\<rparr>)"

definition start_server :: "grpc_env \<Rightarrow> ServerConfig \<Rightarrow> (main_world, bool) io" where
  "start_server E config =
     io_bind (io_get (\<lambda>s. BuildAndStart E (server_builder config) (nodes_of s))) (\<lambda>(started, ns).
     io_bind (io_upd (\<lambda>s. s\<lparr>g_server := started, nodes_of := ns\<rparr>)) (\<lambda>_. io_ret started))"

text \<open>Up to \<open>Wait\<close>: the configuration, or nothing when the server could not be started.\<close>

definition startup :: "posix \<Rightarrow> grpc_env \<Rightarrow> environ \<Rightarrow> int \<Rightarrow> (main_world, ServerConfig option) io" where
  "startup P E getenv hw =
     io_bind (io_of (LoadConfigFromEnv getenv hw)) (\<lambda>config.
     io_bind (log_line (Info ''starting'' (FormatListenLogLabel config))) (\<lambda>_.
     io_bind (prepare_listen P config) (\<lambda>_.
     io_bind (create_services config) (\<lambda>_.
     io_bind (start_server E config) (\<lambda>started.
     if \<not> started then
       io_bind (abort_listen P) (\<lambda>_.
       io_bind (log_line (Error ''startup_failed''
         (''BuildAndStart returned null; check unix socket permissions and whether another process holds '' @
          FormatListenLogLabel config))) (\<lambda>_. io_ret None))
     else
       io_bind (listen_call (ScopedListen_Finalize P)) (\<lambda>_.
       io_bind (monitor_call (on_monitor (AttachServer True (GetHealthCheckService E)))) (\<lambda>_.
       io_bind (if \<not> health_require_pg config then monitor_call (on_monitor SetServingWithoutPg) else io_ret ()) (\<lambda>_.
       io_bind (log_line (Info ''listening'' (FormatListenLogLabel config @ '' (plain gRPC; TLS at nginx)''))) (\<lambda>_.
       io_ret (Some config))))))))))"

definition wait_server :: "grpc_env \<Rightarrow> (main_world, unit) io" where
  "wait_server E = io_upd (\<lambda>s.
     case mn_shard s of
       None \<Rightarrow> s
     | Some w \<Rightarrow>
         (case serve E w (mn_notify s) (nodes_of s) of
            (w', reg, ns, lines) \<Rightarrow> s\<lparr>mn_shard := Some w', mn_notify := reg, nodes_of := ns, log_lines := log_lines s @ lines\<rparr>))"

definition shutdown :: "posix \<Rightarrow> (main_world, unit) io" where
  "shutdown P =
     io_bind (monitor_call (on_monitor Stop)) (\<lambda>_.
     io_bind (reset_listen P) (\<lambda>_.
     io_bind (io_upd (\<lambda>s. s\<lparr>g_server := False\<rparr>)) (\<lambda>_.
     log_line (Info ''shutdown'' []))))"

text \<open>The \<open>try\<close> block: its local objects are destroyed on every way out, the monitor by \<open>Stop\<close>.\<close>

definition leave_block :: "main_world \<Rightarrow> main_world" where
  "leave_block s = (snd (monitor_call (on_monitor Stop) s))\<lparr>mn_shard := None, mn_notify := None\<rparr>"

definition main_block :: "posix \<Rightarrow> grpc_env \<Rightarrow> environ \<Rightarrow> int \<Rightarrow> (main_world, int) io" where
  "main_block P E getenv hw s =
     apsnd leave_block
       (io_bind (startup P E getenv hw) (\<lambda>started.
        case started of
          None \<Rightarrow> io_ret 1
        | Some config \<Rightarrow> io_bind (wait_server E) (\<lambda>_. io_bind (shutdown P) (\<lambda>_. io_ret 0))) s)"

text \<open>\<open>ex.what()\<close>; overflow is no exception and does not occur here.\<close>

definition what :: "cxx_error \<Rightarrow> string" where
  "what e = (case e of RuntimeError m \<Rightarrow> m | SignedOverflow \<Rightarrow> [])"

definition main :: "posix \<Rightarrow> grpc_env \<Rightarrow> environ \<Rightarrow> int \<Rightarrow> (main_world, int) io" where
  "main P E getenv hw =
     io_catch (main_block P E getenv hw) (\<lambda>e.
       io_bind (abort_listen P) (\<lambda>_.
       io_bind (log_line (Error ''fatal'' (what e))) (\<lambda>_. io_ret 1)))"

section \<open>What the steps leave\<close>

lemma io_post_monitor_call: "io_post (monitor_call m) (\<lambda>r s'. r = Inr () \<and> (\<exists>x. s' = s\<lparr>mn_shard := x\<rparr>)) s"
proof -
  have "\<exists>x. s = s\<lparr>mn_shard := x\<rparr>" by (rule exI [of _ "mn_shard s"]) simp
  then show ?thesis by (auto simp: monitor_call_def io_simps split: option.split sum.split)
qed

lemma leave_block_simps [simp]:
  "nodes_of (leave_block s) = nodes_of s" "log_lines (leave_block s) = log_lines s" "g_unix_listen (leave_block s) = g_unix_listen s"
  "g_server (leave_block s) = g_server s" "mn_shard (leave_block s) = None"
  using io_post_monitor_call [of "on_monitor Stop" s] by (auto simp: leave_block_def io_post_def)

text \<open>The listening socket has been prepared, and finalised or not; no socket is at a path.\<close>

definition listening :: "ServerConfig \<Rightarrow> bool \<Rightarrow> main_world \<Rightarrow> bool" where
  "listening config final s \<longleftrightarrow>
     g_unix_listen s = Some \<lparr>sl_config = config, sl_prepared = True, sl_finalized = final\<rparr>"

definition no_socket :: "nodes \<Rightarrow> string \<Rightarrow> bool" where
  "no_socket ns path \<longleftrightarrow> (\<forall>n. ns path = Some n \<longrightarrow> node_kind n \<noteq> Socket)"

definition can_clean :: "posix \<Rightarrow> bool" where
  "can_clean P \<longleftrightarrow> (\<forall>ns p. stat_error P ns p = None \<and> unlink_error P ns p = None)"

lemma io_post_cleanup:
  assumes "can_clean P"
  shows "io_post (CleanupListen P path) (\<lambda>r s'. r = Inr () \<and> no_socket (nodes_of s') path) s"
  by (rule io_post_mono [OF io_post_CleanupListen]) (use assms in \<open>auto simp: can_clean_def no_socket_def split: if_splits\<close>)

lemma io_post_abort_listen:
  assumes "can_clean P" "listening config False s"
  shows "io_post (abort_listen P) (\<lambda>r s'. r = Inr () \<and> no_socket (nodes_of s') (unix_socket_path config)) s"
  using assms(2) io_post_cleanup [OF assms(1), of "unix_socket_path config" s]
  by (auto simp: abort_listen_def listen_call_def reset_listen_def ScopedListen_Abort_def ScopedListen_destroy_def listening_def io_simps
      elim!: io_post_mono)

lemma io_post_reset_listen:
  assumes "can_clean P" "listening config True s"
  shows "io_post (reset_listen P) (\<lambda>r s'. r = Inr () \<and> no_socket (nodes_of s') (unix_socket_path config)) s"
  using assms(2) io_post_cleanup [OF assms(1), of "unix_socket_path config" s]
  by (auto simp: reset_listen_def ScopedListen_destroy_def listening_def io_simps elim!: io_post_mono)

section \<open>The file operations leave the rest of the state\<close>

definition files_only :: "('a fs_world_scheme, 'b) io \<Rightarrow> bool" where
  "files_only m \<longleftrightarrow> (\<forall>s. fs_world.more (snd (m s)) = fs_world.more s)"

named_theorems files_intros

lemma files_only_control [files_intros]:
  "files_only (io_ret a)" "files_only (io_throw msg)" "files_only (io_of r)" "files_only (io_get g)"
  "(b \<Longrightarrow> files_only m1) \<Longrightarrow> (\<not> b \<Longrightarrow> files_only m2) \<Longrightarrow> files_only (if b then m1 else m2)"
  "files_only m0 \<Longrightarrow> (\<And>x. files_only (g0 x)) \<Longrightarrow> files_only (case v of None \<Rightarrow> m0 | Some x \<Rightarrow> g0 x)"
  "(\<And>e. files_only (gl e)) \<Longrightarrow> (\<And>x. files_only (gr x)) \<Longrightarrow> files_only (case w of Inl e \<Rightarrow> gl e | Inr x \<Rightarrow> gr x)"
  by (auto simp: files_only_def io_ret_def io_throw_def io_of_def io_get_def split: sum.splits option.splits)

lemma files_only_bind [files_intros]:
  assumes "files_only m" "\<And>x. files_only (f x)"
  shows "files_only (io_bind m f)"
  unfolding files_only_def
proof
  fix s
  obtain r s' where run: "m s = (r, s')" by (cases "m s")
  then have "fs_world.more s' = fs_world.more s" using assms(1) unfolding files_only_def by (metis snd_conv)
  with run assms(2) show "fs_world.more (snd (io_bind m f s)) = fs_world.more s"
    by (cases r) (simp_all add: io_bind_def files_only_def)
qed

lemma files_only_calls [files_intros]:
  "files_only (log_line line)" "files_only (set_node path n)"
  by (simp_all add: files_only_def log_line_def set_node_def io_upd_def)

lemma files_only_EnsureDirectory [files_intros]: "files_only (EnsureDirectory P dir mode create)"
proof (induction P dir mode create rule: EnsureDirectory.induct)
  case (1 P dir mode create)
  then show ?case
    unfolding EnsureDirectory.simps [of P dir mode create] sys_stat_def check_directory_def sys_access_def make_directory_def sys_mkdir_def
    by (intro files_intros) auto
qed

lemma files_only_listen:
  "files_only (PrepareListen P config)" "files_only (FinalizeListen P config)"
  by (auto simp: PrepareListen_def FinalizeListen_def RemoveStaleSocketFile_def IsLiveUnixSocket_def VerifySocketNode_def
      sys_stat_def sys_connect_def sys_unlink_def sys_chmod_def Let_def intro!: files_intros)

lemma files_only_globals:
  fixes s :: main_world
  assumes "files_only m"
  shows "io_post m (\<lambda>r s'. g_unix_listen s' = g_unix_listen s \<and> g_server s' = g_server s \<and> mn_shard s' = mn_shard s) s"
proof -
  have same: "g_unix_listen t = g_unix_listen s \<and> g_server t = g_server s \<and> mn_shard t = mn_shard s" if "fs_world.more t = fs_world.more s" for t :: main_world
    using that by (cases t; cases s) simp
  have "fs_world.more (snd (m s)) = fs_world.more s" using assms by (simp add: files_only_def)
  from same [OF this] show ?thesis by (simp add: io_post_def)
qed

section \<open>Start-up\<close>

text \<open>Nothing that was there has been changed or removed.\<close>

definition kept :: "nodes \<Rightarrow> nodes \<Rightarrow> bool" where
  "kept ns ns' \<longleftrightarrow> (\<forall>p n. ns p = Some n \<longrightarrow> ns' p = Some n)"

lemma io_post_seq:
  assumes "io_post m (\<lambda>r s'. case r of Inl e \<Rightarrow> Q (Inl e) s' | Inr a \<Rightarrow> R a s') s" "\<And>a s'. R a s' \<Longrightarrow> io_post (f a) Q s'"
  shows "io_post (io_bind m f) Q s"
  using assms by (auto simp: io_post_bind io_post_def split: sum.splits)

lemma io_post_prepare_listen:
  assumes "listen_mode config = Unix"
  shows "io_post (prepare_listen P config) (\<lambda>r s'.
    (r = Inr () \<longrightarrow> listening config False s' \<and>
       (\<forall>n. nodes_of s (unix_socket_path config) = Some n \<longrightarrow> (\<exists>m. looks_stale P m (unix_socket_path config) n))) \<and>
    (r \<noteq> Inr () \<longrightarrow> kept (nodes_of s) (nodes_of s') \<and> g_unix_listen s' = Some (ScopedListen_init config) \<and> g_server s' = g_server s)) s"
proof -
  let ?s = "s\<lparr>g_unix_listen := Some (ScopedListen_init config)\<rparr>" and ?path = "unix_socket_path config"
  have adds: "kept ns ns'" if "only_adds P mode dir ns ns'" for mode dir ns ns'
    using that unfolding only_adds_def kept_def by (metis option.distinct(1))
  have stale: "\<exists>m. looks_stale P m ?path n" if "kept (nodes_of s) ns" "nodes_of s ?path = Some n"
      "\<forall>n. ns ?path = Some n \<longrightarrow> looks_stale P ns ?path n" for ns n
    using that unfolding kept_def by blast
  have "io_post (PrepareListen P config) (\<lambda>r s'. g_unix_listen s' = Some (ScopedListen_init config) \<and> g_server s' = g_server s \<and>
      (r = Inr () \<longrightarrow> (\<forall>n. nodes_of s ?path = Some n \<longrightarrow> (\<exists>m. looks_stale P m ?path n))) \<and>
      (r \<noteq> Inr () \<longrightarrow> kept (nodes_of s) (nodes_of s'))) ?s"
    by (rule io_post_mono [OF io_post_conj [OF io_post_PrepareListen files_only_globals [OF files_only_listen(1)]]])
      (auto dest!: adds intro: stale)
  then show ?thesis
    using assms
    by (auto simp: prepare_listen_def listen_call_def ScopedListen_Prepare_def ScopedListen_init_def io_simps listening_def
        elim!: io_post_mono split: sum.split)
qed

text \<open>Where a start-up on a unix socket can end.\<close>

definition startup_ends :: "ServerConfig \<Rightarrow> nodes \<Rightarrow> ServerConfig option cxx \<Rightarrow> main_world \<Rightarrow> bool" where
  "startup_ends config ns r s' \<longleftrightarrow>
     (case r of
        Inl e \<Rightarrow> kept ns (nodes_of s') \<and> g_unix_listen s' = Some (ScopedListen_init config) \<or> listening config False s'
      | Inr None \<Rightarrow> no_socket (nodes_of s') (unix_socket_path config)
      | Inr (Some c) \<Rightarrow> c = config \<and> listening config True s')"

lemma listening_frame [simp]:
  "listening config b (s\<lparr>mn_shard := x\<rparr>) = listening config b s" "listening config b (s\<lparr>mn_notify := y\<rparr>) = listening config b s"
  "listening config b (s\<lparr>g_server := z\<rparr>) = listening config b s" "listening config b (s\<lparr>nodes_of := ns\<rparr>) = listening config b s"
  "listening config b (s\<lparr>log_lines := ls\<rparr>) = listening config b s"
  by (simp_all add: listening_def)

lemma io_post_finalize:
  assumes "listening config False s"
  shows "io_post (listen_call (ScopedListen_Finalize P)) (\<lambda>r s'. case r of Inl e \<Rightarrow> listening config False s' | Inr u \<Rightarrow> listening config True s') s"
proof -
  have "io_post (FinalizeListen P config) (\<lambda>r s'. listening config False s') s"
    by (rule io_post_mono [OF files_only_globals [OF files_only_listen(2)]]) (use assms in \<open>simp add: listening_def\<close>)
  then show ?thesis
    using assms
    by (auto simp: listen_call_def ScopedListen_Finalize_def listening_def io_simps elim!: io_post_mono split: sum.splits)
qed

lemma io_post_monitor_listening:
  "listening config b s \<Longrightarrow> io_post (monitor_call m) (\<lambda>r s'. r = Inr () \<and> listening config b s') s"
  by (rule io_post_mono [OF io_post_monitor_call]) auto

lemma io_post_services:
  assumes "listening config False s"
    and "\<And>s'. listening config False s' \<Longrightarrow> io_post failed Q s'" "\<And>s'. listening config False s' \<Longrightarrow> io_post ready Q s'"
  shows "io_post (io_bind (create_services config) (\<lambda>_. io_bind (start_server E config) (\<lambda>started.
     if \<not> started then failed else ready))) Q s"
  using assms by (simp add: create_services_def start_server_def io_simps split: prod.split)

lemma io_post_startup_rest:
  assumes "can_clean P" "listening config False s"
  shows "io_post (io_bind (create_services config) (\<lambda>_. io_bind (start_server E config) (\<lambda>started.
     if \<not> started then
       io_bind (abort_listen P) (\<lambda>_. io_bind (log_line m1) (\<lambda>_. io_ret None))
     else
       io_bind (listen_call (ScopedListen_Finalize P)) (\<lambda>_.
       io_bind (monitor_call c1) (\<lambda>_.
       io_bind (if b then monitor_call c2 else io_ret ()) (\<lambda>_.
       io_bind (log_line m2) (\<lambda>_. io_ret (Some config)))))))) (startup_ends config ns) s"
proof -
  have abort: "io_post (io_bind (abort_listen P) (\<lambda>_. io_bind (log_line m1) (\<lambda>_. io_ret None))) (startup_ends config ns) s'"
    if "listening config False s'" for s'
    by (rule io_post_seq [OF io_post_mono [OF io_post_abort_listen [OF assms(1) that]], where R = "\<lambda>_ s'. no_socket (nodes_of s') (unix_socket_path config)"])
      (auto simp: io_simps startup_ends_def split: sum.split)
  have attach: "io_post (io_bind (monitor_call c1) (\<lambda>_. io_bind (if b then monitor_call c2 else io_ret ()) (\<lambda>_.
       io_bind (log_line m2) (\<lambda>_. io_ret (Some config))))) (startup_ends config ns) s'"
    if "listening config True s'" for s'
    by (auto simp: io_simps startup_ends_def that intro!: io_post_mono [OF io_post_monitor_listening] split: sum.split)
  have final: "io_post (io_bind (listen_call (ScopedListen_Finalize P)) (\<lambda>_. io_bind (monitor_call c1) (\<lambda>_.
       io_bind (if b then monitor_call c2 else io_ret ()) (\<lambda>_. io_bind (log_line m2) (\<lambda>_. io_ret (Some config)))))) (startup_ends config ns) s'"
    if "listening config False s'" for s'
    by (rule io_post_seq [OF io_post_mono [OF io_post_finalize [OF that]], where R = "\<lambda>_. listening config True"])
      (simp add: startup_ends_def split: sum.splits, erule attach)
  show ?thesis by (rule io_post_services [OF assms(2)]; erule abort final)
qed

lemma io_post_startup:
  assumes "can_clean P" "LoadConfigFromEnv getenv hw = Inr config" "listen_mode config = Unix"
  shows "io_post (startup P E getenv hw) (startup_ends config (nodes_of s)) s"
proof -
  let ?s = "s\<lparr>log_lines := log_lines s @ [Info ''starting'' (FormatListenLogLabel config)]\<rparr>"
  have "io_post (io_bind (prepare_listen P config) f) (startup_ends config (nodes_of s)) ?s"
    if "\<And>s'. listening config False s' \<Longrightarrow> io_post (f ()) (startup_ends config (nodes_of s)) s'" for f
    by (rule io_post_seq [OF io_post_mono [OF io_post_prepare_listen [OF assms(3)]], where R = "\<lambda>_. listening config False"])
      (auto simp: startup_ends_def that split: sum.split)
  then show ?thesis
    by (simp add: startup_def io_post_bind [of "io_of _"] io_post_bind [of "log_line (Info ''starting'' _)"] io_post_basic io_post_calls
        assms(2) io_post_startup_rest [OF assms(1)])
qed

section \<open>The whole process\<close>

lemma io_post_abort_unprepared:
  assumes "g_unix_listen s = Some (ScopedListen_init config)"
  shows "io_post (abort_listen P) (\<lambda>r s'. r = Inr () \<and> s' = s\<lparr>g_unix_listen := None\<rparr>) s"
  using assms
  by (simp add: abort_listen_def listen_call_def reset_listen_def ScopedListen_Abort_def ScopedListen_destroy_def ScopedListen_init_def io_simps)

lemma io_post_serve:
  assumes "can_clean P" "listening config True s"
  shows "io_post (io_bind (wait_server E) (\<lambda>_. io_bind (shutdown P) (\<lambda>_. io_ret 0)))
    (\<lambda>r s'. r = Inr 0 \<and> no_socket (nodes_of s') (unix_socket_path config)) s"
proof -
  have waited: "io_post (wait_server E) (\<lambda>r s'. r = Inr () \<and> listening config True s') s"
    using assms(2) by (auto simp: wait_server_def io_simps split: option.split prod.split)
  have stop: "io_post (shutdown P) (\<lambda>r s'. r = Inr () \<and> no_socket (nodes_of s') (unix_socket_path config)) s'"
    if "listening config True s'" for s'
    unfolding shutdown_def io_post_bind [of "monitor_call _"]
    by (rule io_post_mono [OF io_post_monitor_listening [OF that]])
      (auto simp: io_simps intro!: io_post_mono [OF io_post_reset_listen [OF assms(1)]])
  have "io_post (io_bind (shutdown P) (\<lambda>_. io_ret 0)) (\<lambda>r s'. r = Inr 0 \<and> no_socket (nodes_of s') (unix_socket_path config)) s'"
    if "listening config True s'" for s'
    by (rule io_post_seq [OF io_post_mono [OF stop [OF that]], where R = "\<lambda>_ s'. no_socket (nodes_of s') (unix_socket_path config)"])
      (auto simp: io_simps)
  then show ?thesis
    by (rule io_post_seq [OF io_post_mono [OF waited], where R = "\<lambda>_. listening config True", rotated -1]) auto
qed

lemma io_post_main_block:
  "io_post (main_block P E getenv hw) Q s \<longleftrightarrow>
     io_post (startup P E getenv hw) (\<lambda>r s'.
       case r of
         Inl e \<Rightarrow> Q (Inl e) (leave_block s')
       | Inr None \<Rightarrow> Q (Inr 1) (leave_block s')
       | Inr (Some c) \<Rightarrow> io_post (io_bind (wait_server E) (\<lambda>_. io_bind (shutdown P) (\<lambda>_. io_ret 0))) (\<lambda>r s''. Q r (leave_block s'')) s') s"
  by (cases "startup P E getenv hw s") (auto simp: main_block_def io_post_def io_bind_def [of "startup _ _ _ _"] io_ret_def split: sum.split option.split)

lemma listening_leave_block [simp]: "listening config b (leave_block s) = listening config b s"
  by (simp add: listening_def)

lemma io_post_fatal:
  assumes "io_post (abort_listen P) (\<lambda>r s'. r = Inr () \<and> R (nodes_of s')) s"
  shows "io_post (io_bind (abort_listen P) (\<lambda>_. io_bind (log_line m) (\<lambda>_. io_ret (1::int)))) (\<lambda>r s'. r = Inr 1 \<and> R (nodes_of s')) s"
  by (rule io_post_seq [OF io_post_mono [OF assms], where R = "\<lambda>_ s'. R (nodes_of s')"]) (auto simp: io_simps)

text \<open>C18: a server configured for a unix socket always ends with exit status 0 or 1 and leaves no socket behind
  at its path, whether it was shut down, could not be started, or gave up in between; only when it
  could not prepare to listen may a socket be there, and then nothing that existed has been changed or
  removed. Assumed of the system: \<open>stat\<close> and \<open>unlink\<close> work. Nothing is assumed of gRPC or of what happens
  while the server runs.\<close>

theorem main_leaves_no_socket:
  assumes "can_clean P" "LoadConfigFromEnv getenv hw = Inr config" "listen_mode config = Unix"
    and "main P E getenv hw s = (r, s')"
  shows "(r = Inr 0 \<or> r = Inr 1) \<and>
    (no_socket (nodes_of s') (unix_socket_path config) \<or> r = Inr 1 \<and> kept (nodes_of s) (nodes_of s'))"
proof -
  let ?ns = "nodes_of s" and ?path = "unix_socket_path config"
  let ?Q = "\<lambda>r s'. (r = Inr (0::int) \<or> r = Inr 1) \<and> (no_socket (nodes_of s') ?path \<or> r = Inr 1 \<and> kept ?ns (nodes_of s'))"
  have fatal: "io_post (io_bind (abort_listen P) (\<lambda>_. io_bind (log_line m) (\<lambda>_. io_ret (1::int)))) ?Q (leave_block t)"
    if "startup_ends config ?ns (Inl e) t" for t e m
  proof (cases "listening config False t")
    case True
    then have "listening config False (leave_block t)" by simp
    from io_post_fatal [OF io_post_abort_listen [OF assms(1) this]] show ?thesis by (rule io_post_mono) simp
  next
    case False
    then have "kept ?ns (nodes_of (leave_block t))" "g_unix_listen (leave_block t) = Some (ScopedListen_init config)"
      using that by (auto simp: startup_ends_def)
    then have "io_post (abort_listen P) (\<lambda>r s'. r = Inr () \<and> kept ?ns (nodes_of s')) (leave_block t)"
      using io_post_abort_unprepared [of "leave_block t" config P] by (auto elim!: io_post_mono)
    from io_post_fatal [OF this] show ?thesis by (rule io_post_mono) simp
  qed
  have "io_post (main P E getenv hw) ?Q s"
    unfolding main_def io_post_catch io_post_main_block
  proof (rule io_post_mono [OF io_post_startup [OF assms(1-3)]], goal_cases)
    case (1 r t)
    consider (thrown) e where "r = Inl e" | (failed) "r = Inr None" | (started) c where "r = Inr (Some c)" by (cases r) auto
    then show ?case
    proof cases
      case thrown
      with fatal 1 show ?thesis by simp
    next
      case failed
      with 1 show ?thesis by (simp add: startup_ends_def)
    next
      case started
      with 1 have "listening config True t" by (simp add: startup_ends_def)
      then show ?thesis unfolding started sum.case option.case by (intro io_post_mono [OF io_post_serve [OF assms(1)]]) auto
    qed
  qed
  from io_postD [OF this assms(4)] show ?thesis .
qed

text \<open>A gRPC library for evaluating the model: it binds the socket, and \<open>Wait\<close> returns at once.\<close>

definition demo_grpc :: grpc_env where
  "demo_grpc = \<lparr>BuildAndStart = \<lambda>b ns. (True, ns(''/run/b'' \<mapsto> socket_node True)), GetHealthCheckService = True,
     serve = \<lambda>w reg ns. (w, reg, ns, [])\<rparr>"

theorem main_leaves_no_socket_witness:
  "\<exists>r s'. main no_errors demo_grpc [''MTDD_LISTEN'' \<mapsto> ''unix:///run/b''] 4 (main_world_init (nodes_of demo_fs)) = (r, s') \<and>
     (no_socket (nodes_of s') ''/run/b'' \<or> r = Inr 1 \<and> kept (nodes_of demo_fs) (nodes_of s'))"
proof -
  have "can_clean no_errors" by (simp add: can_clean_def no_errors_def)
  moreover have "\<exists>config. LoadConfigFromEnv [''MTDD_LISTEN'' \<mapsto> ''unix:///run/b''] 4 = Inr config \<and> listen_mode config = Unix \<and>
      unix_socket_path config = ''/run/b''"
    by (simp add: config_eval)
  ultimately show ?thesis
    using main_leaves_no_socket [of no_errors "[''MTDD_LISTEN'' \<mapsto> ''unix:///run/b'']" 4 _ demo_grpc "main_world_init (nodes_of demo_fs)"]
    by (cases "main no_errors demo_grpc [''MTDD_LISTEN'' \<mapsto> ''unix:///run/b''] 4 (main_world_init (nodes_of demo_fs))")
      (fastforce simp: main_world_init_def)
qed

text \<open>C19: a second instance does not disturb a running one. When a process accepts connections on the
  configured socket, or something else than a socket is at its path, the new process ends with status 1,
  every existing file stays as it is, and no server is started.\<close>

theorem main_second_instance:
  assumes "LoadConfigFromEnv getenv hw = Inr config" "listen_mode config = Unix"
    and "nodes_of s (unix_socket_path config) = Some n"
    and "node_kind n = Socket \<Longrightarrow> node_listening n \<and> (\<forall>m. connect_error P m (unix_socket_path config) = None)"
    and "main P E getenv hw s = (r, s')"
  shows "r = Inr 1 \<and> kept (nodes_of s) (nodes_of s') \<and> g_server s' = g_server s"
proof -
  let ?s = "s\<lparr>log_lines := log_lines s @ [Info ''starting'' (FormatListenLogLabel config)]\<rparr>"
  let ?gave_up = "\<lambda>s'. kept (nodes_of s) (nodes_of s') \<and> g_unix_listen s' = Some (ScopedListen_init config) \<and> g_server s' = g_server s"
  have "\<not> looks_stale P m (unix_socket_path config) n" for m using assms(4) by (auto simp: looks_stale_def)
  then have "io_post (io_bind (prepare_listen P config) f) (\<lambda>r s'. (\<exists>e. r = Inl e) \<and> ?gave_up s') ?s" for f :: "unit \<Rightarrow> (main_world, ServerConfig option) io"
    by (intro io_post_seq [OF io_post_mono [OF io_post_prepare_listen [OF assms(2)]], where R = "\<lambda>_ _. False"])
      (use assms(3) in \<open>auto split: sum.split\<close>)
  then have "io_post (startup P E getenv hw) (\<lambda>r s'. (\<exists>e. r = Inl e) \<and> ?gave_up s') s"
    by (simp add: startup_def io_post_bind [of "io_of _"] io_post_bind [of "log_line (Info ''starting'' _)"] io_post_basic io_post_calls assms(1))
  moreover have "io_post (io_bind (abort_listen P) (\<lambda>_. io_bind (log_line m) (\<lambda>_. io_ret (1::int))))
      (\<lambda>r s'. r = Inr 1 \<and> kept (nodes_of s) (nodes_of s') \<and> g_server s' = g_server s) (leave_block t)" if "?gave_up t" for t m
    by (rule io_post_seq [OF io_post_mono [OF io_post_abort_unprepared [of "leave_block t" config]],
          where R = "\<lambda>_ s'. kept (nodes_of s) (nodes_of s') \<and> g_server s' = g_server s"])
      (use that in \<open>auto simp: io_simps\<close>)
  ultimately have "io_post (main P E getenv hw) (\<lambda>r s'. r = Inr 1 \<and> kept (nodes_of s) (nodes_of s') \<and> g_server s' = g_server s) s"
    unfolding main_def io_post_catch io_post_main_block by (elim io_post_mono) auto
  from io_postD [OF this assms(5)] show ?thesis .
qed

theorem main_second_instance_witness:
  "\<exists>s'. main no_errors demo_grpc [''MTDD_LISTEN'' \<mapsto> ''unix:///run/a''] 4 (main_world_init (nodes_of demo_fs)) = (Inr 1, s') \<and>
     nodes_of s' ''/run/a'' = Some (socket_node True) \<and> \<not> g_server s'"
proof -
  obtain r s' where run: "main no_errors demo_grpc [''MTDD_LISTEN'' \<mapsto> ''unix:///run/a''] 4 (main_world_init (nodes_of demo_fs)) = (r, s')"
    by (cases "main no_errors demo_grpc [''MTDD_LISTEN'' \<mapsto> ''unix:///run/a''] 4 (main_world_init (nodes_of demo_fs))")
  have "\<exists>config. LoadConfigFromEnv [''MTDD_LISTEN'' \<mapsto> ''unix:///run/a''] 4 = Inr config \<and> listen_mode config = Unix \<and>
      unix_socket_path config = ''/run/a''"
    by (simp add: config_eval)
  then obtain config where load: "LoadConfigFromEnv [''MTDD_LISTEN'' \<mapsto> ''unix:///run/a''] 4 = Inr config"
    and mode: "listen_mode config = Unix" and path: "unix_socket_path config = ''/run/a''"
    by blast
  have "r = Inr 1 \<and> kept (nodes_of demo_fs) (nodes_of s') \<and> \<not> g_server s'"
    using main_second_instance [OF load mode _ _ run, of "socket_node True"]
    by (simp add: path main_world_init_def socket_node_def no_errors_def) (simp add: demo_fs_def socket_node_def)
  moreover have "nodes_of demo_fs ''/run/a'' = Some (socket_node True)" by (simp add: demo_fs_def)
  ultimately show ?thesis using run by (auto simp: kept_def)
qed

section \<open>Health at the start\<close>

lemma io_post_monitor_wp:
  assumes "mn_shard s = Some w" "wp m Q w"
  shows "io_post (monitor_call m) (\<lambda>r s'. r = Inr () \<and> (\<exists>w'. mn_shard s' = Some w' \<and> Q () w')) s"
  using assms by (auto simp: monitor_call_def io_simps wp_def split: sum.splits)

definition serving :: "main_world \<Rightarrow> bool list \<Rightarrow> bool" where
  "serving s bs \<longleftrightarrow> (\<exists>w h. mn_shard s = Some w \<and> health_monitor w = Some h \<and> hm_server h \<and> hm_health_service h \<and>
     map (reported h) health_services = map Some bs)"

lemma reported_all:
  "map (reported (h\<lparr>hm_calls := (''mtdd.MtddNotify'', b) # (''mtdd.MtddShard'', b) # ([], b) # cs\<rparr>)) health_services = map Some [b, b, b]"
  by (simp add: reported_def health_services_def)

lemma io_post_attach:
  assumes "mn_shard s = Some w" "health_monitor w = Some h"
  shows "io_post (monitor_call (on_monitor (AttachServer True True))) (\<lambda>r s'. r = Inr () \<and> serving s' [False, False, False]) s"
proof -
  have "wp (on_monitor (AttachServer True True)) (\<lambda>_ w'. \<exists>h. health_monitor w' = Some h \<and> hm_server h \<and> hm_health_service h \<and>
      map (reported h) health_services = map Some [False, False, False]) w"
    by (simp add: wp_on_monitor assms(2) AttachServer_def wp_simps wp_SetServing del: list.map) (simp only: reported_all)
  from io_post_monitor_wp [OF assms(1) this] show ?thesis by (auto simp: serving_def elim: io_post_mono)
qed

lemma io_post_SetServingWithoutPg:
  assumes "serving s bs"
  shows "io_post (monitor_call (on_monitor SetServingWithoutPg)) (\<lambda>r s'. r = Inr () \<and> serving s' [True, True, True]) s"
proof -
  from assms obtain w h where w: "mn_shard s = Some w" and h: "health_monitor w = Some h" "hm_server h" "hm_health_service h"
    by (auto simp: serving_def)
  have "wp (on_monitor SetServingWithoutPg) (\<lambda>_ w'. \<exists>h. health_monitor w' = Some h \<and> hm_server h \<and> hm_health_service h \<and>
      map (reported h) health_services = map Some [True, True, True]) w"
    by (simp add: wp_on_monitor h SetServingWithoutPg_def wp_SetServing del: list.map) (simp only: reported_all)
  from io_post_monitor_wp [OF w this] show ?thesis by (auto simp: serving_def elim: io_post_mono)
qed

lemma io_post_finalize_shard:
  "io_post (listen_call (ScopedListen_Finalize P)) (\<lambda>r s'. mn_shard s' = mn_shard s) s"
proof -
  have "io_post (FinalizeListen P config) (\<lambda>r s'. mn_shard s' = mn_shard s) s" for config
    by (rule io_post_mono [OF files_only_globals [OF files_only_listen(2)]]) simp
  then show ?thesis
    by (auto simp: listen_call_def ScopedListen_Finalize_def io_simps elim!: io_post_mono split: option.split sum.splits)
qed

lemma io_post_ready:
  assumes "mn_shard s = Some w" "health_monitor w = Some h"
  shows "io_post (io_bind (monitor_call (on_monitor (AttachServer True True))) (\<lambda>_.
       io_bind (if \<not> health_require_pg config then monitor_call (on_monitor SetServingWithoutPg) else io_ret ()) (\<lambda>_.
       io_bind (log_line m) (\<lambda>_. io_ret (Some config)))))
     (\<lambda>r s'. r = Inr (Some config) \<and> serving s' (replicate 3 (\<not> health_require_pg config))) s"
proof (rule io_post_seq [OF io_post_mono [OF io_post_attach [OF assms]], where R = "\<lambda>_ s'. serving s' [False, False, False]"], goal_cases)
  case (2 u t)
  have "io_post (if \<not> health_require_pg config then monitor_call (on_monitor SetServingWithoutPg) else io_ret ())
      (\<lambda>r s'. r = Inr () \<and> serving s' (replicate 3 (\<not> health_require_pg config))) t"
    using 2 io_post_SetServingWithoutPg [OF 2] by (simp add: numeral_3_eq_3 io_simps)
  then show ?case
    by (rule io_post_seq [OF io_post_mono, where R = "\<lambda>_ s'. serving s' (replicate 3 (\<not> health_require_pg config))"])
      (auto simp: io_simps serving_def)
qed auto

lemma io_post_any:
  "(\<And>e t. Q (Inl e) t) \<Longrightarrow> (\<And>x t. io_post (f x) Q t) \<Longrightarrow> io_post (io_bind m f) Q s"
  by (auto simp: io_post_bind io_post_def split: sum.splits)

lemma io_post_startup_health:
  assumes "GetHealthCheckService E"
  shows "io_post (startup P E getenv hw) (\<lambda>r s'. \<forall>c. r = Inr (Some c) \<longrightarrow> serving s' (replicate 3 (\<not> health_require_pg c))) s"
    (is "io_post _ ?Q s")
proof -
  have final: "io_post (io_bind (listen_call (ScopedListen_Finalize P)) (\<lambda>_.
       io_bind (monitor_call (on_monitor (AttachServer True True))) (\<lambda>_.
       io_bind (if \<not> health_require_pg config then monitor_call (on_monitor SetServingWithoutPg) else io_ret ()) (\<lambda>_.
       io_bind (log_line m) (\<lambda>_. io_ret (Some config)))))) ?Q t"
    if "mn_shard t = Some w" "health_monitor w = Some h" for t w h config m
    by (rule io_post_seq [OF io_post_mono [OF io_post_finalize_shard], where R = "\<lambda>_ s'. mn_shard s' = Some w"])
      (use that(1) in \<open>simp split: sum.split\<close>, rule io_post_mono [OF io_post_ready [OF _ that(2)]], simp_all)
  have started: "io_post (io_bind (create_services config) (\<lambda>_. io_bind (start_server E config) (\<lambda>started. if \<not> started then failed else ready))) ?Q t"
    if "\<And>t w h. mn_shard t = Some w \<Longrightarrow> health_monitor w = Some h \<Longrightarrow> io_post ready ?Q t" "\<And>t. io_post failed ?Q t" for config failed ready t
    using that by (simp add: create_services_def start_server_def io_simps shard_init_def split: prod.split)
  have failed: "io_post (io_bind m (\<lambda>_. io_bind m' (\<lambda>_. io_ret None))) ?Q t" for m m' :: "(main_world, unit) io" and t
    by (intro io_post_any) (simp_all add: io_simps)
  have E: "GetHealthCheckService E = True" using assms by simp
  show ?thesis
    unfolding startup_def E
    by (rule io_post_any, simp, rule io_post_any, simp, rule io_post_any, simp, rule started, erule (1) final, rule failed)
qed

text \<open>C32: when the server starts to wait for calls, its health is known to clients of the health service: all
  three names, the server's and the two services', report \<open>NOT_SERVING\<close> if a database is required for
  health, and \<open>SERVING\<close> if not.\<close>

theorem startup_health:
  assumes "GetHealthCheckService E" "startup P E getenv hw s = (Inr (Some config), s')"
  shows "serving s' (replicate 3 (\<not> health_require_pg config))"
  using io_postD [OF io_post_startup_health [OF assms(1)] assms(2)] by simp

theorem startup_health_witness:
  "\<exists>config s'. startup no_errors demo_grpc [''MTDD_LISTEN'' \<mapsto> ''0.0.0.0:50051''] 4 (main_world_init Map.empty) = (Inr (Some config), s') \<and>
     serving s' [False, False, False]"
proof -
  let ?env = "[''MTDD_LISTEN'' \<mapsto> ''0.0.0.0:50051'']"
  have "\<exists>config. LoadConfigFromEnv ?env 4 = Inr config \<and> listen_mode config = Tcp \<and> health_require_pg config"
    by (simp add: config_eval find_last_index_def substr_def c_str_def)
  then obtain config where config: "LoadConfigFromEnv ?env 4 = Inr config" "listen_mode config = Tcp" "health_require_pg config"
    by blast
  have "io_post (startup no_errors demo_grpc ?env 4) (\<lambda>r _. r = Inr (Some config)) (main_world_init Map.empty)"
    using config(2,3)
    by (simp add: startup_def prepare_listen_def create_services_def start_server_def listen_call_def io_simps config(1) demo_grpc_def
        main_world_init_def io_post_def [of "monitor_call _"] monitor_call_def io_upd_def)
  then obtain s' where run: "startup no_errors demo_grpc ?env 4 (main_world_init Map.empty) = (Inr (Some config), s')"
    by (auto simp: io_post_iff)
  from startup_health [OF _ run] config(3) have "serving s' [False, False, False]" by (simp add: demo_grpc_def numeral_3_eq_3)
  with run show ?thesis by blast
qed

end
