(* ===== verification/Spec2Isabelle.thy ===== *)
theory Spec2Isabelle
  imports Chunk_Protocol Query_Accounts Pool_Threads Concurrent_Queries Client_Request Pg_Cell Config_Windows Server_Main
begin

text \<open>
  \<^bold>\<open>mtdd_server\<close>: a gRPC server that runs the statements of its clients on one PostgreSQL database and streams
  the rows back, with an in-memory LISTEN/NOTIFY service beside it. This is a model of its C++ sources under
  \<open>src/src/\<close>, function by function, with the theorems that make them correct. Every theory
  keeps the names of the sources; a method whose name another class or HOL also has carries its class
  (\<open>Pool_Connect\<close>, \<open>Shard_Connect\<close>, \<open>NotifyService_Publish\<close>).

  \<^bold>\<open>The program and its parts.\<close> \<open>main\<close> loads the configuration from the environment, prepares the unix
  socket, creates the health monitor and the two services, starts gRPC and waits. A call of the shard
  service is one of \<open>Connect\<close> (configure the pool and open a first connection), \<open>QueryStream\<close> (run a statement and
  write its result in chunks) and \<open>Disconnect\<close>. \<open>QueryStream\<close> runs on a local \<open>StreamingQuery\<close>, which takes its
  connection from the session store when the request names a session and from the pool otherwise. A
  tuple-returning statement goes through a cursor in a transaction and is fetched in portions, any other is
  executed once. Each portion is cut into batches, encoded as RPGB and written; schema, trailer and errors are
  FlexBuffers maps. The notify service keeps subscriptions and open \<open>Watch\<close> streams in a registry.

  \<^bold>\<open>Theories.\<close>
  \<^item> \<open>Cxx_Prelude\<close>: what the sources use of C++ and its library: strings, \<open>strtol\<close>, narrowing casts,
    exceptions as the left injection of a sum, and a state monad (\<open>proc\<close>) whose left value is a thread that never
    continues. \<open>wp\<close> is the weakest precondition for total correctness in this monad, with one rule per construct
    in the collection \<open>wp_simps\<close>. \<open>Cxx_Io\<close> is the monad of computations that throw after they have changed the state,
    with its rules in \<open>io_simps\<close>.
  \<^item> \<open>Json_Log\<close> (\<open>logging.h\<close>): the lines the log writes; a reader of them is the specification.
  \<^item> \<open>Libpq_Result\<close>, \<open>Raw_Batch\<close> (\<open>codec/raw_batch_encoder.cpp\<close>), \<open>Flex_Meta\<close> (\<open>codec/flex_meta.cpp\<close>),
    \<open>Query_Meta\<close> (\<open>codec/query_meta.cpp\<close>): the encoders, with the decoders of
    \<open>src/integration/lib/pg-binary-decode.js\<close> and \<open>src/integration/flatbuffers/result-meta-codec.js\<close> and the round trips.
    \<open>Pg_Cell\<close> is the conversion of a cell by its type, with the wire format of PostgreSQL as its specification. \<open>Js_Number\<close>
    has the doubles of JavaScript, rationals with the rounding of each operation, in which the client reads row counts and computes times.
  \<^item> \<open>Unix_Path\<close>, \<open>Unix_Socket\<close> (\<open>unix/unix_socket.cpp\<close>), \<open>Server_Config\<close> (\<open>config.cpp\<close>) and \<open>Config_Windows\<close> (its
    \<open>_WIN32\<close> branches).
  \<^item> \<open>Notify_Registry\<close> (\<open>notify/channel_key.cpp\<close>, \<open>notify/registry.cpp\<close>), \<open>Notify_Service\<close>
    (\<open>service/mtdd_notify_service.cpp\<close>). \<open>Grpc_Types\<close> has the messages of \<open>src/proto/mtdd.proto\<close>.
  \<^item> \<open>Pq_Conn\<close> (\<open>pg/pq_conn.cpp\<close>), \<open>Connection_Manager\<close> (\<open>pg/connection_manager.cpp\<close>), \<open>Session_Store\<close>
    (\<open>pg/session_store.cpp\<close>), \<open>Query_Executor\<close> (\<open>pg/query_executor.cpp\<close>), \<open>Streaming_Query\<close>
    (\<open>pg/streaming_query.cpp\<close>), \<open>Health_Monitor\<close> (\<open>health/pg_health_monitor.cpp\<close>), \<open>Shard_Service\<close>
    (\<open>service/mtdd_shard_service.cpp\<close>): each imports what it calls. \<open>Pool_Threads\<close> has the threads that use the pool,
    those that sleep in \<open>Acquire\<close> and those a notification has woken included.
  \<^item> \<open>Client_Request\<close> and \<open>Query_Client\<close> (\<open>src/integration/lib/grpc-query-client.js\<close>), the client's requests and its reader
    of the chunks. \<open>Query_Writes\<close> has what a run of \<open>QueryStream\<close> writes, \<open>Query_Delivery\<close> server and client together,
    \<open>Chunk_Protocol\<close> the order of the chunks on every path.
  \<^item> \<open>Handle_Safety\<close> and \<open>Result_Safety\<close>: the owners of every libpq handle over all the RPCs of the shard service, and
    of every result over a query. \<open>Query_Accounts\<close> has what a query and a use of the executor give back.
  \<^item> \<open>Interleaving\<close>: threads as computations cut into atomic actions, and their schedules. \<open>Shard_Threads\<close> has the RPCs of
    the shard service cut where the code gives up a lock, \<open>Thread_Contracts\<close> what each action keeps and may
    do, \<open>Concurrent_Queries\<close> what follows for every schedule.
  \<^item> \<open>Server_Main\<close> (\<open>main.cpp\<close>): the whole process.

  \<^bold>\<open>State.\<close> The world of the database side grows by record extension along the calls: \<open>pg_world\<close> (the history of
  calls on the outside, the reference counts of the shared connections, the mutexes the thread holds),
  \<open>pool_world\<close> with the pool, \<open>store_world\<close> with the sessions, \<open>stream_world\<close> with the cursor counter, \<open>shard_world\<close>
  with the members of the service. Lemmas of a component are stated for every extension of its world, so its
  callers use them as they are. Objects with a shorter life (\<open>StreamingQuery\<close>, \<open>QueryExecution\<close>, the monitor) are
  paired with the world. A \<open>shared_ptr\<close> is a connection and its count; a destructor runs where the count becomes 0.

  \<^bold>\<open>The outside.\<close> libpq with the database behind it, and the stream and context of gRPC, are the record \<open>libpq\<close> of
  functions that answer each call from the whole history of calls before it. So no determinism is assumed: any
  behaviour of the outside is some such record. POSIX is the record \<open>posix\<close> of the errors each call may report,
  on a file system that is a map; gRPC's server is \<open>grpc_env\<close>, whose \<open>serve\<close> is what happens during \<open>Wait\<close>: it is assumed that
  \<open>Wait\<close> returns, and a process that ends inside an RPC is outside of the model of \<open>main\<close>. The FlexBuffers serialiser and parser are
  parameters; the hypothesis on them (\<open>flex_codec\<close>) is that parsing a finished buffer gives back, up to the order of map entries, a tree of
  64-bit integers, valid UTF-8 and distinct keys. The decoding of UTF-8 by the client leaves valid text as it is. The iteration order of hash
  containers, and in the reader of batches the conversion of a cell, which may throw, are parameters. Hypotheses on them are named predicates
  (\<open>pgresult_wf\<close>, \<open>enumerates\<close>, \<open>cursor_answers\<close>, \<open>flex_codec\<close>, \<open>can_clean\<close>), each with a witness that it can hold.

  \<^bold>\<open>Interfaces.\<close> The locale \<open>lease_provider\<close> is what users of the pool rely on; it is interpreted on
  \<open>Acquire\<close> and \<open>Release\<close>, and that balanced use never blocks is proved in it. The locale
  \<open>connection_source\<close> is what a borrower of a connection relies on for memory safety, and both the pool and the
  session store are interpretations of it. \<open>subscription_store\<close> is the contract of
  the registry, a relation between clients and keys; the registry is an interpretation. The locale
  \<open>thread_contract\<close> turns what every action of every task keeps, for any other threads, into an invariant of the system; it is
  interpreted on the tasks of the shard service. Concurrency is in three
  step relations with invariants by rule induction: \<open>sys_step\<close> (the actions of all RPCs of the shard service and of the
  probe, any number of threads), \<open>pool_step\<close> (critical sections of the pool's methods, the waits and wake-ups of
  its condition variable, and the resets of released pointers) and \<open>notify_step\<close> (RPCs
  with \<open>Watch\<close> split at its wait). The actions of a thread, run one after the other, are shown to be the sequential
  definition, so what is proved of that holds of a thread left alone.

  \<^bold>\<open>What is proved.\<close>
  \<^item> Queries: the client decodes exactly the rows of the portions PostgreSQL returned, in order, whatever the batch
    size; the statements sent to the database are \<open>BEGIN\<close>, \<open>DECLARE\<close>, the \<open>FETCH\<close>es, \<open>CLOSE\<close>, \<open>COMMIT\<close> (or \<open>ROLLBACK\<close>);
    afterwards nothing is locked, the query keeps no pointer and the pool counts what it did before, but for a failed \<open>Open\<close>
    of a cursor; which requests are refused, without any effect; what \<open>Connect\<close> leaves on every branch.
    On every path, errors and cancellations included, the chunks are a schema and batches, then at most one trailer or error.
    The parameters a client passes are what libpq reads in the call of \<open>PQexecParams\<close>, but for the empty text, which becomes \<open>NULL\<close>.
  \<^item> Memory: under every schedule of concurrent RPCs and probes no handle is used or closed after its \<open>PQfinish\<close>, and the open
    handles are those of the running queries, of the pool and of the sessions, each counted exactly. No result is freed twice.
  \<^item> Isolation: while a query holds a connection of the pool no other thread makes a call on it.
  \<^item> Resources: leases of the pool are exclusive under every interleaving, and no wake-up is lost among its users; \<open>Execute\<close> and
    \<open>FinishQuery\<close> free every result and give the connection back; a connection that cannot be set up is closed and its results are
    freed; sessions stay within their number and keep their connections.
  \<^item> Codecs: round trips of RPGB, of the metadata, of log lines and of listen addresses; values in PostgreSQL's binary
    format become the client's, for the types it reads correctly; classification of statements.
  \<^item> Notifications: refinement of a relation, delivery to the subscribers and to nobody else, isolation of tenants without a colon in their names,
    registered streams are open ones.
  \<^item> Process: configurations are safe in production and, for numbers that fit an \<open>int\<close>, within bounds; preparing to listen touches only what it may and
    succeeds when nothing is in the way; no socket is left behind, a second instance leaves the first alone; the
    health reported at the start and after every probe; the probe loop ends.
  \<^item> Defects of the code are theorems too: a refused \<open>DECLARE\<close> deadlocks its thread, a failed \<open>Open\<close> of a cursor loses a
    slot of the pool, \<open>Pool_Connect\<close> adds an idle connection without waking a waiting thread, a cancelled query loses a result, two queries of a session share a transaction, two clients that
    connect together start the probe thread twice, and others beside the components they are about.

  \<^bold>\<open>Loops and bounds.\<close> Loops over containers are structural recursion. The batch loop ends by a measure on the
  rows left. The loop of \<open>QueryStream\<close> ends when the database has no more rows, which the program cannot ensure, so it
  takes fuel: a round for every non-empty portion and at most two for the empty one after them,
  \<open>length rs + 2\<close> in all, and the theorems show that with this much it does return. The probe loop and its pauses run over the values
  their tests of the stop flag read. Integers that can leave their width are words or carry the cast: lengths and counts of RPGB are \<open>32 word\<close>,
  the cursor counter is \<open>64 word\<close>, \<open>static_cast<int>\<close> is \<open>cast_int32\<close>, and signed overflow is an error value. The sum of the rows of a query, an
  \<open>int64_t\<close>, is an integer; the delivery of rows is stated for at most \<open>2 ^ 53\<close> of them.

  \<^bold>\<open>Not modelled.\<close> The code protoc and gRPC generate, and \<open>main\<close> as compiled for Windows, which is that for
  POSIX without the unix socket. \<open>PqConnection::Adopt\<close>, which has
  no caller. The log calls and timers inside the shard service, which do not change the state the theorems are about;
  those of the other components are modelled. The installation of the signal handlers (the handler itself is modelled; a
  signal is part of what \<open>Wait\<close> waits for). Threads switch between actions only: a data race inside one (\<open>params_\<close>
  of the pool is read without its lock) has no meaning in the model, as it has none in C++; a thread that blocks on a mutex
  has no next action. Of the integration scripts everything but the three readers and the builders of requests. Tests, deployment files and documents have no program logic.
\<close>

end
